(* ===== verification/Taps_Prelude.thy ===== *)
theory Taps_Prelude
  imports Main "HOL-Library.Word"
begin

text \<open>
  Shared vocabulary of the development: the machine integers of the C sources, the error
  numbers the library sets, the kinds of undefined behaviour the model makes visible, a store of
  heap cells that remembers what has been freed, and two contracts that several components
  satisfy: a field that can be set once (\<open>set_once\<close>) and a transition system with an
  inductive invariant (\<open>inv_system\<close>), with its extension to a simulation (\<open>simulation\<close>).
\<close>

section \<open>Machine types\<close>

type_synonym addr = nat
type_synonym size_t = "64 word"
type_synonym uint16 = "16 word"
type_synonym uint32 = "32 word"
type_synonym in_addr = "32 word"
type_synonym in6_addr = "128 word"

text \<open>The values of \<open>errno\<close> the library assigns; \<open>None\<close> means "left alone".\<close>

datatype errno = EBUSY | ENOMEM | EINVAL | E2BIG | ENOPROTOOPT

text \<open>
  Undefined behaviour the sources can run into. A model function either returns the fault
  instead of a result or appends it to the fault log of its state.
\<close>

datatype fault = UseAfterFree | DoubleFree | NullDeref | NullCall | OutOfBounds | Uninitialised

text \<open>The answer of an integer function that may set \<open>errno\<close>: return value, error, new state.\<close>

type_synonym 's answer = "int \<times> errno option \<times> 's"

section \<open>Heap cells\<close>

text \<open>
  A cell is live after \<open>malloc\<close> and freed after \<open>free\<close>; a freed cell keeps its last
  contents, so that a model can say what a stale read sees besides recording the fault.
\<close>

datatype 'n cell = Live 'n | Freed 'n

type_synonym 'n heap = "addr \<Rightarrow> 'n cell option"

definition deref :: "'n heap \<Rightarrow> addr \<Rightarrow> fault + 'n" where
  "deref h a =
     (case h a of None \<Rightarrow> Inl NullDeref
      | Some (Freed n) \<Rightarrow> Inl UseAfterFree
      | Some (Live n) \<Rightarrow> Inr n)"

definition hput :: "'n heap \<Rightarrow> addr \<Rightarrow> 'n \<Rightarrow> 'n heap" where
  "hput h a n = h(a := Some (Live n))"

definition hfree :: "'n heap \<Rightarrow> addr \<Rightarrow> fault + 'n heap" where
  "hfree h a =
     (case h a of None \<Rightarrow> Inl NullDeref
      | Some (Freed n) \<Rightarrow> Inl DoubleFree
      | Some (Live n) \<Rightarrow> Inr (h(a := Some (Freed n))))"

definition allocated :: "'n heap \<Rightarrow> addr \<Rightarrow> bool" where
  "allocated h a \<longleftrightarrow> (\<exists>n. h a = Some (Live n))"

lemma deref_eq_Inr [simp]: "deref h a = Inr n \<longleftrightarrow> h a = Some (Live n)"
  by (auto simp: deref_def split: option.splits cell.splits)

lemma deref_live [simp]: "h a = Some (Live n) \<Longrightarrow> deref h a = Inr n"
  by simp

lemma deref_freed [simp]: "h a = Some (Freed n) \<Longrightarrow> deref h a = Inl UseAfterFree"
  by (simp add: deref_def)

lemma hfree_eq_Inr [simp]:
  "hfree h a = Inr h' \<longleftrightarrow> (\<exists>n. h a = Some (Live n) \<and> h' = h(a := Some (Freed n)))"
  by (auto simp: hfree_def split: option.splits cell.splits)

lemma hfree_live [simp]: "h a = Some (Live n) \<Longrightarrow> hfree h a = Inr (h(a := Some (Freed n)))"
  by simp

lemma hput_apply [simp]: "hput h a n b = (if b = a then Some (Live n) else h b)"
  by (simp add: hput_def)

lemma hput_twice [simp]: "hput (hput h a m) a n = hput h a n"
  by (simp add: hput_def)

text \<open>Sequencing of steps that may fault.\<close>

definition andthen :: "fault + 'a \<Rightarrow> ('a \<Rightarrow> fault + 'b) \<Rightarrow> fault + 'b" where
  "andthen m f = (case m of Inl e \<Rightarrow> Inl e | Inr x \<Rightarrow> f x)"

lemma andthen_simps [simp]:
  "andthen (Inl e) f = Inl e" "andthen (Inr x) f = f x"
  by (simp_all add: andthen_def)

section \<open>Lists\<close>

definition hd_or :: "'a option \<Rightarrow> 'a list \<Rightarrow> 'a option" where
  "hd_or e xs = (case xs of [] \<Rightarrow> e | x # _ \<Rightarrow> Some x)"

definition last_or :: "'a option \<Rightarrow> 'a list \<Rightarrow> 'a option" where
  "last_or p xs = (if xs = [] then p else Some (last xs))"

lemma hd_or_simps [simp]:
  "hd_or e [] = e" "hd_or e (x # xs) = Some x"
  by (simp_all add: hd_or_def)

lemma last_or_simps [simp]:
  "last_or p [] = p" "last_or p (x # xs) = last_or (Some x) xs"
  "last_or p (xs @ [x]) = Some x"
  by (simp_all add: last_or_def)

lemma hd_or_append [simp]: "hd_or e (xs @ ys) = hd_or (hd_or e ys) xs"
  by (cases xs) simp_all

lemma last_or_append [simp]: "last_or p (xs @ ys) = last_or (last_or p xs) ys"
  by (simp add: last_or_def)

lemma take_nth_split: "k < length xs \<Longrightarrow> take (Suc k) (xs[k := y]) = take k xs @ [y]"
  by (simp add: take_Suc_conv_app_nth)

section \<open>A field that can be set once\<close>

text \<open>Repeated calls of one setter: the return codes in order and the final object.\<close>

fun run_sets :: "('v \<Rightarrow> 's \<Rightarrow> 's answer) \<Rightarrow> 'v list \<Rightarrow> 's \<Rightarrow> int list \<times> 's" where
  "run_sets f [] s = ([], s)"
| "run_sets f (v # vs) s =
     (let (r, e, s') = f v s; (rs, s'') = run_sets f vs s' in (r # rs, s''))"

text \<open>
  The contract: once the field is present the setter reports \<open>EBUSY\<close> and changes nothing;
  a successful call makes the field present; a failing call does not.
\<close>

locale set_once =
  fixes setf :: "'v \<Rightarrow> 's \<Rightarrow> 's answer"
    and has :: "'s \<Rightarrow> bool"
  assumes busy: "has s \<Longrightarrow> setf v s = (0, Some EBUSY, s)"
    and present: "setf v s = (1, e, s') \<Longrightarrow> has s'"
    and codes: "setf v s = (r, e, s') \<Longrightarrow> r = 0 \<or> r = 1"
    and absent: "setf v s = (0, e, s') \<Longrightarrow> has s' = has s"
begin

lemma frozen: "has s \<Longrightarrow> run_sets setf vs s = (replicate (length vs) 0, s)"
  by (induction vs) (simp_all add: busy)

lemma at_most_one_success: "length (filter (\<lambda>r. r = 1) (fst (run_sets setf vs s))) \<le> 1"
proof (induction vs arbitrary: s)
  case Nil
  show ?case by simp
next
  case (Cons v vs)
  obtain r e s' where f: "setf v s = (r, e, s')" by (cases "setf v s") auto
  show ?case
  proof (cases "r = 1")
    case True
    with f have "has s'" using present by blast
    with f True show ?thesis by (simp add: frozen case_prod_beta)
  next
    case False
    with f Cons.IH [of s'] show ?thesis by (simp add: case_prod_beta)
  qed
qed

lemma first_success_wins:
  assumes "setf v s = (1, e, s')"
  shows "run_sets setf (v # vs) s = (1 # replicate (length vs) 0, s')"
  using assms present [OF assms] by (simp add: frozen)

end

section \<open>Transition systems with an inductive invariant\<close>

inductive reaches :: "('s \<Rightarrow> 's \<Rightarrow> bool) \<Rightarrow> 's \<Rightarrow> 's \<Rightarrow> bool" for step where
  reaches_refl: "reaches step s s"
| reaches_step: "reaches step s t \<Longrightarrow> step t u \<Longrightarrow> reaches step s u"

lemma reaches_trans: "reaches step t u \<Longrightarrow> reaches step s t \<Longrightarrow> reaches step s u"
  by (induction rule: reaches.induct) (auto intro: reaches.intros)

lemma reaches_single: "step s t \<Longrightarrow> reaches step s t"
  by (rule reaches_step [OF reaches_refl])

locale inv_system =
  fixes start :: "'s \<Rightarrow> bool"
    and step :: "'s \<Rightarrow> 's \<Rightarrow> bool"
    and inv :: "'s \<Rightarrow> bool"
  assumes inv_start: "start s \<Longrightarrow> inv s"
    and inv_step: "inv s \<Longrightarrow> step s t \<Longrightarrow> inv t"
begin

lemma inv_reaches: "reaches step s t \<Longrightarrow> inv s \<Longrightarrow> inv t"
  by (induction rule: reaches.induct) (auto intro: inv_step)

lemma inv_reachable: "start s \<Longrightarrow> reaches step s t \<Longrightarrow> inv t"
  by (rule inv_reaches) (auto intro: inv_start)

end

text \<open>
  A simulation: under the invariant, every step is a step of an abstract system on the image of the
  state, or leaves the image alone. What holds of all reachable abstract states then holds of the
  images of all reachable states.
\<close>

locale simulation = inv_system start step inv
  for start :: "'s \<Rightarrow> bool" and step :: "'s \<Rightarrow> 's \<Rightarrow> bool" and inv :: "'s \<Rightarrow> bool" +
  fixes abs :: "'s \<Rightarrow> 'a"
    and astep :: "'a \<Rightarrow> 'a \<Rightarrow> bool"
  assumes simulate: "inv s \<Longrightarrow> step s t \<Longrightarrow> abs t = abs s \<or> astep (abs s) (abs t)"
begin

lemma abs_reaches:
  assumes "reaches step s t" "inv s"
  shows "reaches astep (abs s) (abs t)"
  using assms
proof (induction rule: reaches.induct)
  case (reaches_refl s)
  show ?case by (rule reaches.reaches_refl)
next
  case (reaches_step s t u)
  then have "inv t" using inv_reaches by blast
  with reaches_step simulate [of t u] show ?case by (metis reaches.reaches_step)
qed

end

end
