(* ===== verification/Taps_DList.thy ===== *)
theory Taps_DList
  imports Taps_Prelude
begin

text \<open>
  Intrusive doubly linked lists in a heap. \<open>dl\<close> relates the links stored in the cells to
  the list of addresses they form; the locale \<open>dl_node\<close> fixes how a node type stores its
  two links and proves the relinking lemmas once. It is interpreted for the queue items of
  src/src/taps_connection.c (below, through the shared record \<open>dl_links\<close>) and for the
  alias links of an endpoint. The macros \<open>ADD_ITEM\<close> and \<open>DELETE_ITEM\<close> are modelled
  here, with the fifo contract \<open>dl_queue\<close> that they satisfy.
\<close>

section \<open>Chains of cells\<close>

text \<open>
  \<open>dl nx pv h p xs e\<close>: the cells \<open>xs\<close> are live, linked forwards by \<open>nx\<close> and
  backwards by \<open>pv\<close>; the first one points back to \<open>p\<close>, the last one forward to \<open>e\<close>.
\<close>

fun dl :: "('n \<Rightarrow> addr option) \<Rightarrow> ('n \<Rightarrow> addr option) \<Rightarrow> 'n heap \<Rightarrow>
    addr option \<Rightarrow> addr list \<Rightarrow> addr option \<Rightarrow> bool" where
  "dl nx pv h p [] e = True"
| "dl nx pv h p (x # xs) e =
     ((\<exists>n. h x = Some (Live n) \<and> pv n = p \<and> nx n = hd_or e xs) \<and> dl nx pv h (Some x) xs e)"

lemma dl_append [simp]:
  "dl nx pv h p (xs @ ys) e \<longleftrightarrow>
     dl nx pv h p xs (hd_or e ys) \<and> dl nx pv h (last_or p xs) ys e"
  by (induction xs arbitrary: p) auto

lemma dl_frame: "a \<notin> set xs \<Longrightarrow> dl nx pv (h(a := c)) p xs e = dl nx pv h p xs e"
  by (induction xs arbitrary: p) auto

lemma dl_frame_hput [simp]: "a \<notin> set xs \<Longrightarrow> dl nx pv (hput h a n) p xs e = dl nx pv h p xs e"
  by (simp add: hput_def dl_frame)

lemma dl_live: "dl nx pv h p xs e \<Longrightarrow> x \<in> set xs \<Longrightarrow> \<exists>n. h x = Some (Live n)"
  by (induction xs arbitrary: p) auto

lemma dl_fresh: "dl nx pv h p xs e \<Longrightarrow> \<not> allocated h a \<Longrightarrow> a \<notin> set xs"
  using dl_live by (fastforce simp: allocated_def)

text \<open>The cell in the middle of a chain knows its neighbours.\<close>

lemma dl_middle:
  assumes "dl nx pv h p (xs @ a # ys) e"
  obtains n where "h a = Some (Live n)" "pv n = last_or p xs" "nx n = hd_or e ys"
  using assms by auto

section \<open>Changing links\<close>

locale dl_node =
  fixes nx :: "'n \<Rightarrow> addr option"
    and pv :: "'n \<Rightarrow> addr option"
    and set_nx :: "addr option \<Rightarrow> 'n \<Rightarrow> 'n"
    and set_pv :: "addr option \<Rightarrow> 'n \<Rightarrow> 'n"
  assumes nx_set_nx [simp]: "nx (set_nx v n) = v"
    and pv_set_nx [simp]: "pv (set_nx v n) = pv n"
    and nx_set_pv [simp]: "nx (set_pv v n) = nx n"
    and pv_set_pv [simp]: "pv (set_pv v n) = v"
begin

lemma relink_last:
  assumes "dl nx pv h p (xs @ [x]) e" "x \<notin> set xs" "h x = Some (Live n)"
  shows "dl nx pv (hput h x (set_nx e' n)) p (xs @ [x]) e'"
  using assms by auto

lemma relink_first:
  assumes "dl nx pv h p (x # xs) e" "x \<notin> set xs" "h x = Some (Live n)"
  shows "dl nx pv (hput h x (set_pv p' n)) p' (x # xs) e"
  using assms by auto

text \<open>Two disjoint chains joined end to end.\<close>

lemma join:
  assumes xs: "dl nx pv h p (xs @ [x]) e" and ys: "dl nx pv h q (y # ys) e'"
    and d: "distinct (xs @ [x])" "distinct (y # ys)" "set (xs @ [x]) \<inter> set (y # ys) = {}"
    and n: "h x = Some (Live n)" and m: "h y = Some (Live m)"
  shows "dl nx pv (hput (hput h x (set_nx (Some y) n)) y (set_pv (Some x) m)) p (xs @ x # y # ys) e'"
proof -
  have xy: "x \<noteq> y" "x \<notin> set xs" "y \<notin> set xs" "x \<notin> set ys" "y \<notin> set ys"
    using d by auto
  have 1: "dl nx pv (hput h x (set_nx (Some y) n)) p (xs @ [x]) (Some y)"
    using relink_last [OF xs _ n] xy by simp
  have 2: "dl nx pv (hput (hput h x (set_nx (Some y) n)) y (set_pv (Some x) m)) (Some x) (y # ys) e'"
    using xy by (intro relink_first [where p = q]) (use ys m in auto)
  show ?thesis using 1 2 xy by simp
qed

end

section \<open>Queue items of a connection\<close>

text \<open>
  The two links that \<open>struct _send_item\<close> and \<open>struct _recv_item\<close> share; the item
  records extend this one, so the macros are polymorphic in the rest of the item.
\<close>

record dl_links =
  next_i :: "addr option"
  prev_i :: "addr option"

interpretation item: dl_node next_i prev_i
  "\<lambda>v n. n\<lparr>next_i := v\<rparr>" "\<lambda>v n. n\<lparr>prev_i := v\<rparr>"
  by unfold_locales simp_all

text \<open>
  \<open>ADD_ITEM(type, tail)\<close> for a successful \<open>malloc\<close> that returned \<open>a\<close>: the new cell
  becomes the tail. A tail pointer that is not live faults.
\<close>

definition add_item ::
  "addr \<Rightarrow> 'a dl_links_scheme \<Rightarrow> 'a dl_links_scheme heap \<Rightarrow> addr option \<Rightarrow>
    fault + ('a dl_links_scheme heap \<times> addr option)" where
  "add_item a new h tail =
     (let h1 = hput h a (new\<lparr>next_i := None, prev_i := tail\<rparr>) in
      case tail of
        None \<Rightarrow> Inr (h1, Some a)
      | Some t \<Rightarrow>
          (case deref h1 t of Inl f \<Rightarrow> Inl f
           | Inr n \<Rightarrow> Inr (hput h1 t (n\<lparr>next_i := Some a\<rparr>), Some a)))"

text \<open>\<open>(item)->prev->next = (item)->next\<close> and \<open>(item)->next->prev = (item)->prev\<close>.\<close>

definition unlink_prev ::
  "'a dl_links_scheme \<Rightarrow> 'a dl_links_scheme heap \<Rightarrow> fault + 'a dl_links_scheme heap" where
  "unlink_prev it h =
     (case prev_i it of None \<Rightarrow> Inr h
      | Some p \<Rightarrow>
          (case deref h p of Inl f \<Rightarrow> Inl f
           | Inr n \<Rightarrow> Inr (hput h p (n\<lparr>next_i := next_i it\<rparr>))))"

definition unlink_next ::
  "'a dl_links_scheme \<Rightarrow> 'a dl_links_scheme heap \<Rightarrow> addr option \<Rightarrow>
    fault + ('a dl_links_scheme heap \<times> addr option)" where
  "unlink_next it h tail =
     (case next_i it of None \<Rightarrow> Inr (h, prev_i it)
      | Some q \<Rightarrow>
          (case deref h q of Inl f \<Rightarrow> Inl f
           | Inr n \<Rightarrow> Inr (hput h q (n\<lparr>prev_i := prev_i it\<rparr>), tail)))"

text \<open>
  \<open>DELETE_ITEM(item, tail)\<close> where \<open>item\<close> is a variable of its own, as in every use but
  those of \<open>tapsConnectionFree\<close>.
\<close>

definition delete_item ::
  "addr \<Rightarrow> 'a dl_links_scheme heap \<Rightarrow> addr option \<Rightarrow>
    fault + ('a dl_links_scheme heap \<times> addr option)" where
  "delete_item a h tail =
     (case deref h a of Inl f \<Rightarrow> Inl f
      | Inr it \<Rightarrow>
          (case unlink_prev it h of Inl f \<Rightarrow> Inl f
           | Inr h1 \<Rightarrow>
               (case unlink_next it h1 tail of Inl f \<Rightarrow> Inl f
                | Inr (h2, tail') \<Rightarrow>
                    (case hfree h2 a of Inl f \<Rightarrow> Inl f
                     | Inr h3 \<Rightarrow> Inr (h3, tail')))))"

text \<open>The queue a connection holds: a chain of distinct live items ending at the tail pointer.\<close>

definition item_queue ::
  "'a dl_links_scheme heap \<Rightarrow> addr option \<Rightarrow> addr list \<Rightarrow> bool" where
  "item_queue h tail xs \<longleftrightarrow>
     distinct xs \<and> dl next_i prev_i h None xs None \<and> tail = last_or None xs"

lemma item_queue_empty [simp]: "item_queue h None xs \<longleftrightarrow> xs = []"
  by (auto simp: item_queue_def last_or_def)

lemma item_queue_tail_None: "item_queue h tail [] \<longleftrightarrow> tail = None"
  by (simp add: item_queue_def)

lemma item_queue_frame: "a \<notin> set xs \<Longrightarrow> item_queue (hput h a n) tail xs = item_queue h tail xs"
  by (simp add: item_queue_def)


text \<open>What an item holds beside its links.\<close>

definition payload :: "'a dl_links_scheme heap \<Rightarrow> addr \<Rightarrow> 'a option" where
  "payload h a = (case h a of Some (Live n) \<Rightarrow> Some (dl_links.more n) | _ \<Rightarrow> None)"

lemma payload_hput [simp]:
  "payload (hput h a n) b = (if b = a then Some (dl_links.more n) else payload h b)"
  by (simp add: payload_def)

lemma payload_upd [simp]:
  "payload (h(a := Some (Freed n))) b = (if b = a then None else payload h b)"
  by (simp add: payload_def)

lemma payload_live: "h a = Some (Live n) \<Longrightarrow> payload h a = Some (dl_links.more n)"
  by (simp add: payload_def)

text \<open>An item with its links blanked out: what operations on other items leave alone.\<close>

definition view :: "'a dl_links_scheme heap \<Rightarrow> addr \<Rightarrow> 'a dl_links_scheme option" where
  "view h a = map_option (dl_links.extend \<lparr>next_i = None, prev_i = None\<rparr>) (payload h a)"

lemma view_live: "h a = Some (Live n) \<Longrightarrow> view h a = Some (n\<lparr>next_i := None, prev_i := None\<rparr>)"
  by (cases n) (simp add: view_def payload_live dl_links.extend_def)

lemma view_SomeE:
  assumes "view h a = Some v"
  obtains n where "h a = Some (Live n)" "v = n\<lparr>next_i := None, prev_i := None\<rparr>"
proof -
  from assms obtain n where "h a = Some (Live n)"
    by (auto simp: view_def payload_def split: option.splits cell.splits)
  with assms view_live [of h a n] that show thesis by simp
qed

lemma view_cong: "payload h' a = payload h a \<Longrightarrow> view h' a = view h a"
  by (simp add: view_def)

lemma item_queue_live:
  "item_queue h tail xs \<Longrightarrow> a \<in> set xs \<Longrightarrow> \<exists>n. h a = Some (Live n)"
  by (auto simp: item_queue_def dest: dl_live)

text \<open>Changing anything but the links of an item keeps the queue.\<close>

lemma dl_touch:
  assumes "h a = Some (Live n)" "nx n' = nx n" "pv n' = pv n"
  shows "dl nx pv (hput h a n') p xs e = dl nx pv h p xs e"
  using assms by (induction xs arbitrary: p) auto

lemma item_queue_touch:
  "h a = Some (Live n) \<Longrightarrow> next_i n' = next_i n \<Longrightarrow> prev_i n' = prev_i n \<Longrightarrow>
    item_queue (hput h a n') tail xs = item_queue h tail xs"
  by (simp add: item_queue_def dl_touch)

text \<open>The tail pointer and the back links determine the queue.\<close>

lemma dl_last_unique:
  "dl nx pv h None xs e \<Longrightarrow> dl nx pv h None ys e' \<Longrightarrow> last_or None xs = last_or None ys \<Longrightarrow> xs = ys"
proof (induction xs arbitrary: ys e e' rule: rev_induct)
  case Nil
  then show ?case by (simp add: last_or_def split: if_splits)
next
  case (snoc x xs)
  then obtain ys' where "ys = ys' @ [x]"
    by (cases ys rule: rev_cases) auto
  with snoc show ?case by auto
qed

lemma item_queue_unique: "item_queue h tail xs \<Longrightarrow> item_queue h tail ys \<Longrightarrow> xs = ys"
  using dl_last_unique by (fastforce simp: item_queue_def)

lemma add_item_queue:
  assumes q: "item_queue h tail xs" and a: "\<not> allocated h a"
  shows "\<exists>h'. add_item a new h tail = Inr (h', Some a) \<and> item_queue h' (Some a) (xs @ [a]) \<and>
    payload h' a = Some (dl_links.more new) \<and> (\<forall>b. b \<noteq> a \<longrightarrow> payload h' b = payload h b) \<and>
    (\<forall>b. b \<noteq> a \<longrightarrow> b \<notin> set xs \<longrightarrow> h' b = h b)"
proof (cases xs rule: rev_cases)
  case Nil
  with q show ?thesis by (simp add: add_item_def item_queue_def)
next
  case (snoc ys t)
  let ?h1 = "hput h a (new\<lparr>next_i := None, prev_i := tail\<rparr>)"
  have axs: "a \<notin> set xs" using q a by (auto simp: item_queue_def dest: dl_fresh)
  from q snoc obtain n where n: "h t = Some (Live n)" and t: "tail = Some t"
    by (auto simp: item_queue_def)
  have "dl next_i prev_i ?h1 None (ys @ [t]) None"
    using q snoc axs by (simp add: item_queue_def)
  moreover have "t \<notin> set ys" "?h1 t = Some (Live n)"
    using q snoc n axs by (auto simp: item_queue_def)
  ultimately have "dl next_i prev_i (hput ?h1 t (n\<lparr>next_i := Some a\<rparr>)) None (ys @ [t]) (Some a)"
    by (rule item.relink_last)
  with q snoc axs n t show ?thesis
    by (auto simp: add_item_def item_queue_def payload_live)
qed

lemma dl_cong:
  "(\<And>b. b \<in> set xs \<Longrightarrow> h' b = h b) \<Longrightarrow> dl nx pv h' p xs e = dl nx pv h p xs e"
  by (induction xs arbitrary: p) auto

text \<open>Detaching an item from what precedes it and from what follows it.\<close>

lemma unlink_prev_dl:
  assumes dx: "dl next_i prev_i h None xs (Some a)" and d: "distinct xs"
    and it: "prev_i n = last_or None xs"
  shows "\<exists>h1. unlink_prev n h = Inr h1 \<and> dl next_i prev_i h1 None xs (next_i n) \<and>
    (\<forall>b. b \<notin> set xs \<longrightarrow> h1 b = h b) \<and> (\<forall>b. payload h1 b = payload h b)"
proof (cases xs rule: rev_cases)
  case Nil
  then show ?thesis using it by (simp add: unlink_prev_def)
next
  case (snoc zs z)
  with dx obtain m where m: "h z = Some (Live m)" by auto
  from snoc d have "z \<notin> set zs" by auto
  then have "dl next_i prev_i (hput h z (m\<lparr>next_i := next_i n\<rparr>)) None (zs @ [z]) (next_i n)"
    using item.relink_last dx snoc m by blast
  then show ?thesis using it snoc m by (auto simp: unlink_prev_def payload_live)
qed

lemma unlink_next_dl:
  assumes dy: "dl next_i prev_i h (Some a) ys None" and d: "distinct ys"
    and it: "next_i n = hd_or None ys" and tl: "tail = last_or (Some a) ys"
  shows "\<exists>h2. unlink_next n h tail = Inr (h2, last_or (prev_i n) ys) \<and>
    dl next_i prev_i h2 (prev_i n) ys None \<and>
    (\<forall>b. b \<notin> set ys \<longrightarrow> h2 b = h b) \<and> (\<forall>b. payload h2 b = payload h b)"
proof (cases ys)
  case Nil
  then show ?thesis using it by (simp add: unlink_next_def)
next
  case (Cons z zs)
  with dy obtain m where m: "h z = Some (Live m)" by auto
  from Cons d have "z \<notin> set zs" by auto
  then have "dl next_i prev_i (hput h z (m\<lparr>prev_i := prev_i n\<rparr>)) (prev_i n) (z # zs) None"
    using item.relink_first dy Cons m by blast
  then show ?thesis using it Cons m tl
    by (auto simp: unlink_next_def payload_live last_or_def)
qed

lemma delete_item_queue:
  assumes q: "item_queue h tail (xs @ a # ys)" and n: "h a = Some (Live n)"
  shows "\<exists>h' tail'. delete_item a h tail = Inr (h', tail') \<and> item_queue h' tail' (xs @ ys) \<and>
    h' a = Some (Freed n) \<and> (\<forall>b. b \<noteq> a \<longrightarrow> payload h' b = payload h b) \<and>
    (\<forall>b. b \<notin> set (xs @ a # ys) \<longrightarrow> h' b = h b)"
proof -
  have links: "prev_i n = last_or None xs" "next_i n = hd_or None ys"
    and d: "distinct (xs @ a # ys)" and tl: "tail = last_or (Some a) ys"
    and dx: "dl next_i prev_i h None xs (Some a)" and dy: "dl next_i prev_i h (Some a) ys None"
    using q n by (auto simp: item_queue_def)
  obtain h1 where h1: "unlink_prev n h = Inr h1" "dl next_i prev_i h1 None xs (hd_or None ys)"
    "\<forall>b. b \<notin> set xs \<longrightarrow> h1 b = h b" "\<forall>b. payload h1 b = payload h b"
    using unlink_prev_dl [OF dx _ links(1)] d links(2) by auto
  have "dl next_i prev_i h1 (Some a) ys None"
    using dy h1(3) d by (subst dl_cong [of ys h1 h]) auto
  then obtain h2 where h2: "unlink_next n h1 tail = Inr (h2, last_or (last_or None xs) ys)"
    "dl next_i prev_i h2 (last_or None xs) ys None"
    "\<forall>b. b \<notin> set ys \<longrightarrow> h2 b = h1 b" "\<forall>b. payload h2 b = payload h1 b"
    using unlink_next_dl [OF _ _ links(2) tl, of h1] d links(1) by auto
  have "dl next_i prev_i h2 None xs (hd_or None ys)"
    using h1(2) h2(3) d by (subst dl_cong [of xs h2 h1]) auto
  moreover have "h2 a = Some (Live n)" using h1(3) h2(3) d n by simp
  ultimately show ?thesis
    using n h1 h2 d by (auto simp: delete_item_def item_queue_def dl_frame)
qed

section \<open>The fifo contract\<close>

text \<open>
  What the connection relies on: adding a fresh key appends it, deleting a queued key removes
  just that key, neither faults, and the values of the other keys stay.
\<close>

locale dl_queue =
  fixes rep :: "'q \<Rightarrow> 'k list \<Rightarrow> bool"
    and fresh :: "'k \<Rightarrow> 'q \<Rightarrow> bool"
    and enq :: "'k \<Rightarrow> 'v \<Rightarrow> 'q \<Rightarrow> fault + 'q"
    and del :: "'k \<Rightarrow> 'q \<Rightarrow> fault + 'q"
    and val :: "'q \<Rightarrow> 'k \<Rightarrow> 'v option"
  assumes enq_ok: "rep q ks \<Longrightarrow> fresh k q \<Longrightarrow>
      \<exists>q'. enq k v q = Inr q' \<and> rep q' (ks @ [k]) \<and> val q' k = Some v \<and>
        (\<forall>j. j \<noteq> k \<longrightarrow> val q' j = val q j)"
    and del_ok: "rep q ks \<Longrightarrow> k \<in> set ks \<Longrightarrow>
      \<exists>q'. del k q = Inr q' \<and> rep q' (remove1 k ks) \<and> (\<forall>j. j \<noteq> k \<longrightarrow> val q' j = val q j)"
    and rep_distinct: "rep q ks \<Longrightarrow> distinct ks"
    and rep_val: "rep q ks \<Longrightarrow> k \<in> set ks \<Longrightarrow> val q k \<noteq> None"
begin

text \<open>Serving the head of the queue until it is empty visits the keys in arrival order.\<close>

fun serve :: "'k list \<Rightarrow> 'q \<Rightarrow> fault + 'q" where
  "serve [] q = Inr q"
| "serve (k # ks) q = (case del k q of Inl f \<Rightarrow> Inl f | Inr q' \<Rightarrow> serve ks q')"

lemma serve_all: "rep q ks \<Longrightarrow> \<exists>q'. serve ks q = Inr q' \<and> rep q' []"
proof (induction ks arbitrary: q)
  case Nil
  then show ?case by simp
next
  case (Cons k ks)
  from del_ok [OF Cons.prems, of k] obtain q' where "del k q = Inr q'" "rep q' ks" by auto
  with Cons.IH show ?case by simp
qed

lemma enq_then_del:
  assumes "rep q ks" "fresh k q"
  shows "\<exists>q1 q2. enq k v q = Inr q1 \<and> del k q1 = Inr q2 \<and> rep q2 ks"
proof -
  from enq_ok [OF assms] obtain q1 where q1: "enq k v q = Inr q1" "rep q1 (ks @ [k])" by blast
  then have "k \<notin> set ks" using rep_distinct by fastforce
  with q1 del_ok [OF q1(2), of k] show ?thesis by (auto simp: remove1_append)
qed

end

definition queue_rep :: "'a dl_links_scheme heap \<times> addr option \<Rightarrow> addr list \<Rightarrow> bool" where
  "queue_rep q xs \<longleftrightarrow> item_queue (fst q) (snd q) xs"

interpretation itemq: dl_queue queue_rep
  "\<lambda>a q. \<not> allocated (fst q) a"
  "\<lambda>a v q. add_item a \<lparr>next_i = None, prev_i = None, \<dots> = v\<rparr> (fst q) (snd q)"
  "\<lambda>a q. delete_item a (fst q) (snd q)"
  "\<lambda>q. payload (fst q)"
proof (unfold_locales, goal_cases)
  case (1 q ks k v)
  from 1(1) have "item_queue (fst q) (snd q) ks" by (simp add: queue_rep_def)
  from add_item_queue [OF this 1(2), of "\<lparr>next_i = None, prev_i = None, \<dots> = v\<rparr>"]
  show ?case by (auto simp: queue_rep_def)
next
  case (2 q ks k)
  then obtain xs ys where ks: "ks = xs @ k # ys" by (meson split_list)
  from 2 ks have q: "item_queue (fst q) (snd q) (xs @ k # ys)" by (simp add: queue_rep_def)
  moreover from q obtain n where "fst q k = Some (Live n)" using item_queue_live by fastforce
  moreover have "remove1 k ks = xs @ ys"
    using q ks by (auto simp: item_queue_def remove1_append)
  ultimately show ?case using delete_item_queue [OF q] by (auto simp: queue_rep_def)
next
  case (3 q ks)
  then show ?case by (simp add: queue_rep_def item_queue_def)
next
  case (4 q ks k)
  then obtain n where "fst q k = Some (Live n)"
    using item_queue_live by (fastforce simp: queue_rep_def)
  then show ?case by (simp add: payload_live)
qed

end
