(* ===== verification/Taps_Endpoint.thy ===== *)
theory Taps_Endpoint
  imports Taps_DList
begin

text \<open>
  The Endpoint object, src/src/taps_endpoint.c. An endpoint is a record with the fields of
  \<open>struct _taps_endpoint\<close>; every attachment function returns the integer of the C function,
  the error number it sets, and the new endpoint. Allocation is an argument: each call of
  \<open>strdup\<close> or \<open>malloc\<close> takes a flag that says whether memory was available. The address
  conversions of \<open>arpa/inet.h\<close> are a parameter (\<open>inet_lib\<close>). The alias links live in a
  heap of endpoints, because \<open>tapsAddAlias\<close> walks and changes several objects.
\<close>

section \<open>State\<close>

definition AF_INET :: nat where "AF_INET = 2"
definition AF_INET6 :: nat where "AF_INET6 = 10"

text \<open>
  A socket address as the code uses it: \<open>sin_family\<close>, \<open>sin_port\<close> (at the same offset in
  both families), \<open>sin_addr\<close> and \<open>sin6_addr\<close> (at different offsets).
\<close>

record sockaddr =
  sa_family :: nat
  sa_port :: uint16
  sin_addr :: in_addr
  sin6_addr :: in6_addr

definition zero_sockaddr :: sockaddr where
  "zero_sockaddr = \<lparr>sa_family = 0, sa_port = 0, sin_addr = 0, sin6_addr = 0\<rparr>"

record tapsEndpoint =
  has_port :: bool
  has_ipv4 :: bool
  has_ipv6 :: bool
  has_hostname :: bool
  has_service :: bool
  has_protocol :: bool
  has_interface :: bool
  has_stun :: bool
  ipv4 :: in_addr
  ipv6 :: in6_addr
  port :: uint16
  stun :: sockaddr
  stun_credentials :: "8 word list option"
  hostname :: "string option"
  service :: "string option"
  protocol :: "string option"
  interface :: "string option"
  prevAlias :: "addr option"
  nextAlias :: "addr option"

text \<open>The conversions between addresses and text that the C library provides.\<close>

record inet_lib =
  pton4 :: "string \<Rightarrow> in_addr option"
  pton6 :: "string \<Rightarrow> in6_addr option"
  ntop4 :: "in_addr \<Rightarrow> string"
  ntop6 :: "in6_addr \<Rightarrow> string"

definition strdup :: "bool \<Rightarrow> string \<Rightarrow> string option" where
  "strdup avail s = (if avail then Some s else None)"

section \<open>Operations\<close>

definition zero_endpoint :: tapsEndpoint where
  "zero_endpoint =
     \<lparr>has_port = False, has_ipv4 = False, has_ipv6 = False, has_hostname = False,
      has_service = False, has_protocol = False, has_interface = False, has_stun = False,
      ipv4 = 0, ipv6 = 0, port = 0, stun = zero_sockaddr, stun_credentials = None,
      hostname = None, service = None, protocol = None, interface = None,
      prevAlias = None, nextAlias = None\<rparr>"

definition tapsEndpointNew :: "bool \<Rightarrow> tapsEndpoint option" where
  "tapsEndpointNew avail = (if avail then Some zero_endpoint else None)"

definition tapsEndpointWithHostname :: "bool \<times> string \<Rightarrow> tapsEndpoint \<Rightarrow> tapsEndpoint answer" where
  "tapsEndpointWithHostname v ep =
     (if has_hostname ep then (0, Some EBUSY, ep)
      else let ep1 = ep\<lparr>hostname := strdup (fst v) (snd v)\<rparr> in
        if hostname ep1 = None then (0, Some ENOMEM, ep1)
        else (1, None, ep1\<lparr>has_hostname := True\<rparr>))"

definition tapsEndpointWithPort :: "uint16 \<Rightarrow> tapsEndpoint \<Rightarrow> tapsEndpoint answer" where
  "tapsEndpointWithPort p ep =
     (if has_port ep then (0, Some EBUSY, ep)
      else (1, None, ep\<lparr>has_port := True, port := p\<rparr>))"

definition tapsEndpointWithService :: "bool \<times> string \<Rightarrow> tapsEndpoint \<Rightarrow> tapsEndpoint answer" where
  "tapsEndpointWithService v ep =
     (if has_service ep then (0, Some EBUSY, ep)
      else let ep1 = ep\<lparr>service := strdup (fst v) (snd v)\<rparr> in
        if service ep1 = None then (0, None, ep1)
        else (1, None, ep1\<lparr>has_service := True\<rparr>))"

definition tapsEndpointWithIPv4Address ::
  "inet_lib \<Rightarrow> string \<Rightarrow> tapsEndpoint \<Rightarrow> tapsEndpoint answer" where
  "tapsEndpointWithIPv4Address lib text ep =
     (if has_ipv4 ep then (0, Some EBUSY, ep)
      else case pton4 lib text of
        None \<Rightarrow> (0, Some EINVAL, ep)
      | Some a \<Rightarrow> (1, None, ep\<lparr>ipv4 := a, has_ipv4 := True\<rparr>))"

definition tapsEndpointWithIPv6Address ::
  "inet_lib \<Rightarrow> string \<Rightarrow> tapsEndpoint \<Rightarrow> tapsEndpoint answer" where
  "tapsEndpointWithIPv6Address lib text ep =
     (if has_ipv6 ep then (0, Some EBUSY, ep)
      else case pton6 lib text of
        None \<Rightarrow> (0, Some EINVAL, ep)
      | Some a \<Rightarrow> (1, None, ep\<lparr>ipv6 := a, has_ipv6 := True\<rparr>))"

definition tapsEndpointWithInterface :: "bool \<times> string \<Rightarrow> tapsEndpoint \<Rightarrow> tapsEndpoint answer" where
  "tapsEndpointWithInterface v ep =
     (if has_interface ep then (0, Some EBUSY, ep)
      else let ep1 = ep\<lparr>interface := strdup (fst v) (snd v)\<rparr> in
        if interface ep1 = None then (0, Some ENOMEM, ep1)
        else (1, None, ep1\<lparr>has_interface := True\<rparr>))"

definition tapsEndpointWithProtocol :: "bool \<times> string \<Rightarrow> tapsEndpoint \<Rightarrow> tapsEndpoint answer" where
  "tapsEndpointWithProtocol v ep =
     (if has_protocol ep then (0, Some EBUSY, ep)
      else let ep1 = ep\<lparr>protocol := strdup (fst v) (snd v)\<rparr> in
        if protocol ep1 = None then (0, Some ENOMEM, ep1)
        else (1, None, ep1\<lparr>has_protocol := True\<rparr>))"

text \<open>
  \<open>tapsWithStunServer\<close>: IPv6 is tried first. The credentials are copied only when their
  length is not zero (a list here); \<open>has_stun\<close> is tested and never set.
\<close>

definition tapsWithStunServer ::
  "inet_lib \<Rightarrow> bool \<Rightarrow> string \<Rightarrow> uint16 \<Rightarrow> 8 word list \<Rightarrow> tapsEndpoint \<Rightarrow> tapsEndpoint answer" where
  "tapsWithStunServer lib avail text p creds ep =
     (if has_stun ep then (0, Some EBUSY, ep)
      else
        let found =
          (case pton6 lib text of
             Some a \<Rightarrow> Some ((stun ep)\<lparr>sa_family := AF_INET6, sa_port := p, sin6_addr := a\<rparr>)
           | None \<Rightarrow>
               (case pton4 lib text of
                  Some a \<Rightarrow> Some ((stun ep)\<lparr>sa_family := AF_INET, sa_port := p, sin_addr := a\<rparr>)
                | None \<Rightarrow> None))
        in case found of
          None \<Rightarrow> (0, Some EINVAL, ep)
        | Some sa \<Rightarrow>
            let ep1 = ep\<lparr>stun := sa\<rparr> in
            if 0 < length creds then
              (if avail then (1, None, ep1\<lparr>stun_credentials := Some creds\<rparr>)
               else (0, Some ENOMEM, ep1\<lparr>stun_credentials := None\<rparr>))
            else (1, None, ep1))"

text \<open>
  Copying a string out of the endpoint reads through the stored pointer: a null pointer faults.
  The result \<open>None\<close> is the C function's \<open>NULL\<close>.
\<close>

definition copy_out :: "string option \<Rightarrow> fault + string option" where
  "copy_out s = (case s of None \<Rightarrow> Inl NullDeref | Some t \<Rightarrow> Inr (Some t))"

definition tapsEndpointGetProperty ::
  "inet_lib \<Rightarrow> tapsEndpoint \<Rightarrow> string \<Rightarrow> fault + string option" where
  "tapsEndpointGetProperty lib ep name =
     (if name = ''ipv4'' then Inr (if has_ipv4 ep then Some (ntop4 lib (ipv4 ep)) else None)
      else if name = ''ipv6'' then Inr (if has_ipv6 ep then Some (ntop6 lib (ipv6 ep)) else None)
      else if name = ''hostname'' then
        (if \<not> has_hostname ep then Inr None else copy_out (hostname ep))
      else if name = ''service'' then
        (if \<not> has_service ep then Inr None else copy_out (service ep))
      else if name = ''protocol'' then
        (if \<not> has_protocol ep then Inr None else copy_out (protocol ep))
      else if name = ''interface'' then
        (if \<not> has_service ep then Inr None else copy_out (interface ep))
      else Inr None)"

text \<open>
  \<open>tapsEndpointGetAddress\<close>: the port is written before the family is examined, so it
  changes the caller's buffer on the error paths as well.
\<close>

definition tapsEndpointGetAddress :: "tapsEndpoint \<Rightarrow> sockaddr \<Rightarrow> sockaddr answer" where
  "tapsEndpointGetAddress ep sa =
     (let sa1 = sa\<lparr>sa_port := (if has_port ep then port ep else 0)\<rparr> in
      if sa_family sa1 = AF_INET then
        (if has_ipv4 ep then (0, None, sa1\<lparr>sin_addr := ipv4 ep\<rparr>) else (-1, None, sa1))
      else if sa_family sa1 = AF_INET6 then
        (if has_ipv6 ep then (0, None, sa1\<lparr>sin6_addr := ipv6 ep\<rparr>) else (-1, None, sa1))
      else (-1, Some EINVAL, sa1))"

text \<open>The strings and buffers an endpoint owns, by field, and those \<open>tapsEndpointFree\<close> frees.\<close>

datatype ep_block = Hostname | Service | Protocol | Interface | Credentials | Self

definition tapsEndpointFree :: "tapsEndpoint \<Rightarrow> ep_block list" where
  "tapsEndpointFree ep =
     (if has_hostname ep then [Hostname] else []) @
     (if has_service ep then [Service] else []) @
     (if has_protocol ep then [Protocol] else []) @
     (if has_interface ep then [Interface] else []) @
     (if stun_credentials ep \<noteq> None then [Credentials] else []) @ [Self]"

definition owned_blocks :: "tapsEndpoint \<Rightarrow> ep_block set" where
  "owned_blocks ep =
     (if hostname ep \<noteq> None then {Hostname} else {}) \<union>
     (if service ep \<noteq> None then {Service} else {}) \<union>
     (if protocol ep \<noteq> None then {Protocol} else {}) \<union>
     (if interface ep \<noteq> None then {Interface} else {}) \<union>
     (if stun_credentials ep \<noteq> None then {Credentials} else {}) \<union> {Self}"

subsection \<open>Aliases\<close>

text \<open>
  The loop of \<open>tapsAddAlias\<close>: both cursors move in the same iteration. It has no bound in the
  code, so a run that never ends is the value \<open>None\<close>.
\<close>

partial_function (option) alias_walk ::
  "tapsEndpoint heap \<Rightarrow> addr \<Rightarrow> addr \<Rightarrow> (fault + addr \<times> addr) option" where
  "alias_walk h ep1 ep2 =
     (case deref h ep1 of Inl f \<Rightarrow> Some (Inl f)
      | Inr e1 \<Rightarrow>
          (case deref h ep2 of Inl f \<Rightarrow> Some (Inl f)
           | Inr e2 \<Rightarrow>
               if nextAlias e1 \<noteq> None \<or> prevAlias e2 \<noteq> None then
                 alias_walk h (case nextAlias e1 of Some n \<Rightarrow> n | None \<Rightarrow> ep1)
                   (case prevAlias e2 of Some p \<Rightarrow> p | None \<Rightarrow> ep2)
               else Some (Inr (ep1, ep2))))"

definition link_alias :: "tapsEndpoint heap \<Rightarrow> addr \<Rightarrow> addr \<Rightarrow> fault + tapsEndpoint heap" where
  "link_alias h ep1 ep2 =
     (case deref h ep1 of Inl f \<Rightarrow> Inl f
      | Inr e1 \<Rightarrow>
          let h1 = hput h ep1 (e1\<lparr>nextAlias := Some ep2\<rparr>) in
          (case deref h1 ep2 of Inl f \<Rightarrow> Inl f
           | Inr e2 \<Rightarrow> Inr (hput h1 ep2 (e2\<lparr>prevAlias := Some ep1\<rparr>))))"

definition tapsAddAlias ::
  "tapsEndpoint heap \<Rightarrow> addr \<Rightarrow> addr \<Rightarrow> (fault + int \<times> tapsEndpoint heap) option" where
  "tapsAddAlias h endp1 endp2 =
     (case alias_walk h endp1 endp2 of
        None \<Rightarrow> None
      | Some (Inl f) \<Rightarrow> Some (Inl f)
      | Some (Inr (ep1, ep2)) \<Rightarrow>
          (case link_alias h ep1 ep2 of
             Inl f \<Rightarrow> Some (Inl f)
           | Inr h' \<Rightarrow> Some (Inr (1, h'))))"


section \<open>Every field is set at most once\<close>

lemmas endpoint_setters =
  tapsEndpointWithHostname_def tapsEndpointWithPort_def tapsEndpointWithService_def
  tapsEndpointWithIPv4Address_def tapsEndpointWithIPv6Address_def
  tapsEndpointWithInterface_def tapsEndpointWithProtocol_def

interpretation ep_host: set_once tapsEndpointWithHostname has_hostname
  by unfold_locales (auto simp: endpoint_setters Let_def split: if_splits)

interpretation ep_port: set_once tapsEndpointWithPort has_port
  by unfold_locales (auto simp: endpoint_setters Let_def split: if_splits)

interpretation ep_service: set_once tapsEndpointWithService has_service
  by unfold_locales (auto simp: endpoint_setters Let_def split: if_splits)

interpretation ep_ipv4: set_once "tapsEndpointWithIPv4Address lib" has_ipv4
  by unfold_locales (auto simp: endpoint_setters split: if_splits option.splits)

interpretation ep_ipv6: set_once "tapsEndpointWithIPv6Address lib" has_ipv6
  by unfold_locales (auto simp: endpoint_setters split: if_splits option.splits)

interpretation ep_interface: set_once tapsEndpointWithInterface has_interface
  by unfold_locales (auto simp: endpoint_setters Let_def split: if_splits)

interpretation ep_protocol: set_once tapsEndpointWithProtocol has_protocol
  by unfold_locales (auto simp: endpoint_setters Let_def split: if_splits)

section \<open>Sequences of attachments\<close>

datatype ep_op =
    WithHostname bool string
  | WithPort uint16
  | WithService bool string
  | WithIPv4Address string
  | WithIPv6Address string
  | WithInterface bool string
  | WithProtocol bool string
  | WithStunServer bool string uint16 "8 word list"

fun ep_apply :: "inet_lib \<Rightarrow> ep_op \<Rightarrow> tapsEndpoint \<Rightarrow> tapsEndpoint answer" where
  "ep_apply lib (WithHostname m s) ep = tapsEndpointWithHostname (m, s) ep"
| "ep_apply lib (WithPort p) ep = tapsEndpointWithPort p ep"
| "ep_apply lib (WithService m s) ep = tapsEndpointWithService (m, s) ep"
| "ep_apply lib (WithIPv4Address s) ep = tapsEndpointWithIPv4Address lib s ep"
| "ep_apply lib (WithIPv6Address s) ep = tapsEndpointWithIPv6Address lib s ep"
| "ep_apply lib (WithInterface m s) ep = tapsEndpointWithInterface (m, s) ep"
| "ep_apply lib (WithProtocol m s) ep = tapsEndpointWithProtocol (m, s) ep"
| "ep_apply lib (WithStunServer m s p c) ep = tapsWithStunServer lib m s p c ep"

fun ep_run :: "inet_lib \<Rightarrow> ep_op list \<Rightarrow> tapsEndpoint \<Rightarrow> tapsEndpoint" where
  "ep_run lib [] ep = ep"
| "ep_run lib (x # xs) ep = ep_run lib xs (snd (snd (ep_apply lib x ep)))"

text \<open>A flag is set exactly when the pointer it guards is not null.\<close>

definition ep_wf :: "tapsEndpoint \<Rightarrow> bool" where
  "ep_wf ep \<longleftrightarrow>
     has_hostname ep = (hostname ep \<noteq> None) \<and> has_service ep = (service ep \<noteq> None) \<and>
     has_protocol ep = (protocol ep \<noteq> None) \<and> has_interface ep = (interface ep \<noteq> None)"

lemmas endpoint_ops = endpoint_setters tapsWithStunServer_def

lemma ep_wf_zero: "ep_wf zero_endpoint"
  by (simp add: ep_wf_def zero_endpoint_def)

lemma ep_wf_apply: "ep_wf ep \<Longrightarrow> ep_wf (snd (snd (ep_apply lib x ep)))"
  by (cases x) (auto simp: endpoint_ops ep_wf_def Let_def strdup_def split: option.splits)

lemma ep_wf_run: "ep_wf ep \<Longrightarrow> ep_wf (ep_run lib xs ep)"
  by (induction xs arbitrary: ep) (auto intro: ep_wf_apply)

text \<open>What one attachment can do to a field that is already there: nothing.\<close>

definition ep_kept :: "tapsEndpoint \<Rightarrow> tapsEndpoint \<Rightarrow> bool" where
  "ep_kept ep ep' \<longleftrightarrow>
     (has_hostname ep \<longrightarrow> has_hostname ep' \<and> hostname ep' = hostname ep) \<and>
     (has_service ep \<longrightarrow> has_service ep' \<and> service ep' = service ep) \<and>
     (has_protocol ep \<longrightarrow> has_protocol ep' \<and> protocol ep' = protocol ep) \<and>
     (has_interface ep \<longrightarrow> has_interface ep' \<and> interface ep' = interface ep) \<and>
     (has_port ep \<longrightarrow> has_port ep' \<and> port ep' = port ep) \<and>
     (has_ipv4 ep \<longrightarrow> has_ipv4 ep' \<and> ipv4 ep' = ipv4 ep) \<and>
     (has_ipv6 ep \<longrightarrow> has_ipv6 ep' \<and> ipv6 ep' = ipv6 ep)"

lemma ep_kept_apply: "ep_kept ep (snd (snd (ep_apply lib x ep)))"
  by (cases x) (auto simp: endpoint_ops ep_kept_def Let_def strdup_def split: option.splits)

lemma ep_kept_refl: "ep_kept ep ep"
  by (simp add: ep_kept_def)

lemma ep_kept_trans: "ep_kept a b \<Longrightarrow> ep_kept b c \<Longrightarrow> ep_kept a c"
  unfolding ep_kept_def by metis

lemma ep_kept_run: "ep_kept ep (ep_run lib xs ep)"
proof (induction xs arbitrary: ep)
  case Nil
  show ?case by (simp add: ep_kept_refl)
next
  case (Cons x xs)
  show ?case using ep_kept_trans [OF ep_kept_apply Cons.IH] by simp
qed

lemma get_property_kept:
  "ep_wf ep \<Longrightarrow> ep_kept ep ep' \<Longrightarrow> tapsEndpointGetProperty lib ep name = Inr (Some v) \<Longrightarrow>
     tapsEndpointGetProperty lib ep' name = Inr (Some v)"
  by (auto simp: tapsEndpointGetProperty_def copy_out_def ep_wf_def ep_kept_def
      split: if_splits option.splits)

section \<open>Alias chains\<close>

definition alias_chain :: "tapsEndpoint heap \<Rightarrow> addr list \<Rightarrow> bool" where
  "alias_chain h xs \<longleftrightarrow> distinct xs \<and> dl nextAlias prevAlias h None xs None"

interpretation ep_alias: dl_node nextAlias prevAlias
  "\<lambda>v n. n\<lparr>nextAlias := v\<rparr>" "\<lambda>v n. n\<lparr>prevAlias := v\<rparr>"
  by unfold_locales simp_all

text \<open>From any member of each chain the walk ends at the last and at the first member.\<close>

lemma alias_walk_ends:
  assumes "alias_chain h (xs @ a # bs)" "alias_chain h (cs @ c # ys)"
  shows "alias_walk h a c = Some (Inr (last (a # bs), hd (cs @ [c])))"
  using assms
proof (induction "length bs + length cs" arbitrary: xs a bs cs c ys rule: less_induct)
  case less
  obtain na where na: "h a = Some (Live na)" "nextAlias na = hd_or None bs"
    using less.prems(1) by (auto simp: alias_chain_def)
  obtain nc where nc: "h c = Some (Live nc)" "prevAlias nc = last_or None cs"
    using less.prems(2) by (auto simp: alias_chain_def)
  show ?case
  proof (cases bs)
    case bs: Nil
    show ?thesis
    proof (cases cs rule: rev_cases)
      case Nil
      with bs na nc show ?thesis by (subst alias_walk.simps) simp
    next
      case (snoc cs' d)
      have "alias_walk h a d = Some (Inr (last (a # bs), hd (cs' @ [d])))"
        by (rule less.hyps [of bs cs' xs a d "c # ys"]) (use less.prems snoc in auto)
      with bs snoc na nc show ?thesis by (subst alias_walk.simps) (simp add: hd_append)
    qed
  next
    case bs: (Cons b bs')
    show ?thesis
    proof (cases cs rule: rev_cases)
      case Nil
      have "alias_walk h b c = Some (Inr (last (b # bs'), hd (cs @ [c])))"
        by (rule less.hyps [of bs' cs "xs @ [a]" b c ys]) (use less.prems bs in auto)
      with bs Nil na nc show ?thesis by (subst alias_walk.simps) simp
    next
      case (snoc cs' d)
      have "alias_walk h b d = Some (Inr (last (b # bs'), hd (cs' @ [d])))"
        by (rule less.hyps [of bs' cs' "xs @ [a]" b d "c # ys"]) (use less.prems bs snoc in auto)
      with bs snoc na nc show ?thesis by (subst alias_walk.simps) (simp add: hd_append)
    qed
  qed
qed

lemma link_alias_eq:
  assumes "h x = Some (Live n)" "h y = Some (Live m)" "x \<noteq> y"
  shows "link_alias h x y =
    Inr (hput (hput h x (n\<lparr>nextAlias := Some y\<rparr>)) y (m\<lparr>prevAlias := Some x\<rparr>))"
  using assms by (simp add: link_alias_def)

lemma alias_chain_join:
  assumes "alias_chain h (xs @ [x])" "alias_chain h (y # ys)" "set (xs @ [x]) \<inter> set (y # ys) = {}"
  shows "\<exists>h'. link_alias h x y = Inr h' \<and> alias_chain h' (xs @ x # y # ys)"
proof -
  obtain n where n: "h x = Some (Live n)" using assms(1) by (auto simp: alias_chain_def)
  obtain m where m: "h y = Some (Live m)" using assms(2) by (auto simp: alias_chain_def)
  have "x \<noteq> y" using assms(3) by auto
  then have "link_alias h x y =
      Inr (hput (hput h x (n\<lparr>nextAlias := Some y\<rparr>)) y (m\<lparr>prevAlias := Some x\<rparr>))"
    using n m by (intro link_alias_eq)
  moreover have "dl nextAlias prevAlias
      (hput (hput h x (n\<lparr>nextAlias := Some y\<rparr>)) y (m\<lparr>prevAlias := Some x\<rparr>)) None (xs @ x # y # ys) None"
    using assms n m by (intro ep_alias.join [where e = None and q = None]) (auto simp: alias_chain_def)
  ultimately show ?thesis using assms by (auto simp: alias_chain_def)
qed


lemma alias_walk_stop:
  assumes "h a = Some (Live ex)" "h b = Some (Live ey)" "nextAlias ex = None" "prevAlias ey = None"
  shows "alias_walk h a b = Some (Inr (a, b))"
  using assms by (subst alias_walk.simps) simp

lemma alias_walk_both:
  assumes "h a = Some (Live ex)" "h b = Some (Live ey)" "nextAlias ex = Some n" "prevAlias ey = Some p"
  shows "alias_walk h a b = alias_walk h n p"
  using assms by (subst alias_walk.simps) simp

lemma alias_walk_cycle:
  assumes "h a = Some (Live ea)" "h b = Some (Live eb)"
    and "nextAlias ea = Some b" "nextAlias eb = Some a"
    and "prevAlias ea = Some b" "prevAlias eb = Some a"
  shows "alias_walk h a b = None"
proof (rule ccontr)
  assume "alias_walk h a b \<noteq> None"
  then obtain r where ret: "alias_walk h a b = Some r" by auto
  have "h = h \<longrightarrow> (a, b) \<in> {(a, b), (b, a)} \<longrightarrow> False"
  proof (rule alias_walk.raw_induct
      [where P = "\<lambda>g x y r. g = h \<longrightarrow> (x, y) \<in> {(a, b), (b, a)} \<longrightarrow> False", OF _ ret])
    fix walk g x y r
    assume IH: "\<And>g x y r. walk g x y = Some r \<Longrightarrow>
        g = h \<longrightarrow> (x, y) \<in> {(a, b), (b, a)} \<longrightarrow> False"
      and eq: "(case deref g x of Inl f \<Rightarrow> Some (Inl f)
        | Inr e1 \<Rightarrow> (case deref g y of Inl f \<Rightarrow> Some (Inl f)
          | Inr e2 \<Rightarrow> if nextAlias e1 \<noteq> None \<or> prevAlias e2 \<noteq> None
              then walk g (case nextAlias e1 of None \<Rightarrow> x | Some n \<Rightarrow> n)
                (case prevAlias e2 of None \<Rightarrow> y | Some p \<Rightarrow> p)
              else Some (Inr (x, y)))) = Some r"
    show "g = h \<longrightarrow> (x, y) \<in> {(a, b), (b, a)} \<longrightarrow> False"
    proof (intro impI)
      assume g: "g = h" and xy: "(x, y) \<in> {(a, b), (b, a)}"
      from xy eq g assms have "walk g y x = Some r" by auto
      from IH [OF this] g xy show False by auto
    qed
  qed
  then show False by simp
qed

section \<open>Properties\<close>

lemma ep_run_append: "ep_run lib (xs @ ys) ep = ep_run lib ys (ep_run lib xs ep)"
  by (induction xs arbitrary: ep) simp_all

text \<open>
  Of any number of calls of the same attachment function at most one returns 1, whatever
  memory is available and whatever the library makes of the texts.
\<close>

theorem endpoint_set_once:
  "length (filter (\<lambda>r. r = 1) (fst (run_sets tapsEndpointWithHostname hs ep))) \<le> 1 \<and>
   length (filter (\<lambda>r. r = 1) (fst (run_sets tapsEndpointWithPort ps ep))) \<le> 1 \<and>
   length (filter (\<lambda>r. r = 1) (fst (run_sets tapsEndpointWithService ss ep))) \<le> 1 \<and>
   length (filter (\<lambda>r. r = 1) (fst (run_sets (tapsEndpointWithIPv4Address lib) as ep))) \<le> 1 \<and>
   length (filter (\<lambda>r. r = 1) (fst (run_sets (tapsEndpointWithIPv6Address lib) bs ep))) \<le> 1 \<and>
   length (filter (\<lambda>r. r = 1) (fst (run_sets tapsEndpointWithInterface is ep))) \<le> 1 \<and>
   length (filter (\<lambda>r. r = 1) (fst (run_sets tapsEndpointWithProtocol qs ep))) \<le> 1"
  by (intro conjI ep_host.at_most_one_success ep_port.at_most_one_success
      ep_service.at_most_one_success ep_ipv4.at_most_one_success ep_ipv6.at_most_one_success
      ep_interface.at_most_one_success ep_protocol.at_most_one_success)

text \<open>
  C28. A property that reads as a value keeps reading as that value after any further
  attachments, of any kind and with any outcome.
\<close>

theorem endpoint_read_stable:
  assumes "tapsEndpointGetProperty lib (ep_run lib ops zero_endpoint) name = Inr (Some v)"
  shows "tapsEndpointGetProperty lib (ep_run lib (ops @ later) zero_endpoint) name = Inr (Some v)"
  using assms get_property_kept [OF ep_wf_run [OF ep_wf_zero] ep_kept_run]
  by (simp add: ep_run_append)

theorem endpoint_read_stable_witness:
  "tapsEndpointGetProperty \<lparr>pton4 = \<lambda>_. None, pton6 = \<lambda>_. None, ntop4 = \<lambda>_. [], ntop6 = \<lambda>_. []\<rparr>
     (ep_run \<lparr>pton4 = \<lambda>_. None, pton6 = \<lambda>_. None, ntop4 = \<lambda>_. [], ntop6 = \<lambda>_. []\<rparr>
        ([WithHostname True ''example.com''] @ [WithHostname True ''example.net'', WithPort 80])
        zero_endpoint) ''hostname'' = Inr (Some ''example.com'')"
  by (rule endpoint_read_stable)
    (simp add: zero_endpoint_def tapsEndpointWithHostname_def strdup_def
      tapsEndpointGetProperty_def copy_out_def)


text \<open>
  On endpoints the attachment functions can build, reading a property faults exactly when
  the property is \<open>interface\<close>, a service is present and no interface is: that branch tests
  \<open>has_service\<close> and dereferences the interface pointer.
\<close>

theorem endpoint_get_property_fault:
  "tapsEndpointGetProperty lib (ep_run lib ops zero_endpoint) name = Inl f \<longleftrightarrow>
     f = NullDeref \<and> name = ''interface'' \<and> has_service (ep_run lib ops zero_endpoint) \<and>
     \<not> has_interface (ep_run lib ops zero_endpoint)"
  using ep_wf_run [OF ep_wf_zero, of lib ops]
  by (auto simp: tapsEndpointGetProperty_def copy_out_def ep_wf_def split: option.splits)

text \<open>
  C30. \<open>tapsAddAlias\<close> on members of two separate alias chains returns 1 and joins the chains
  end to end, first argument's chain first, whichever members are passed.
\<close>

theorem add_alias_joins:
  assumes "alias_chain h xs" "alias_chain h ys" "set xs \<inter> set ys = {}" "a \<in> set xs" "b \<in> set ys"
  shows "\<exists>h'. tapsAddAlias h a b = Some (Inr (1, h')) \<and> alias_chain h' (xs @ ys)"
proof -
  obtain ps qs where xs: "xs = ps @ a # qs" using assms(4) by (meson split_list)
  obtain rs ss where ys: "ys = rs @ b # ss" using assms(5) by (meson split_list)
  obtain us x where us: "xs = us @ [x]" "last (a # qs) = x"
    using xs by (metis append_butlast_last_id append_is_Nil_conv last_appendR list.discI)
  obtain y vs where vs: "ys = y # vs" "hd (rs @ [b]) = y"
    using ys by (cases rs) auto
  have "alias_walk h a b = Some (Inr (x, y))"
    using alias_walk_ends [of h ps a qs rs b ss] assms(1,2) xs ys us vs by simp
  moreover obtain h' where "link_alias h x y = Inr h'" "alias_chain h' (us @ x # y # vs)"
    using alias_chain_join [of h us x y vs] assms(1-3) us vs by auto
  ultimately show ?thesis using us vs by (simp add: tapsAddAlias_def)
qed

theorem add_alias_joins_witness:
  "\<exists>h'. tapsAddAlias [1 \<mapsto> Live zero_endpoint, 2 \<mapsto> Live zero_endpoint] 1 2 = Some (Inr (1, h')) \<and>
     alias_chain h' ([1] @ [2])"
  by (rule add_alias_joins) (simp_all add: alias_chain_def zero_endpoint_def)

text \<open>
  Aliasing the same two endpoints twice closes a cycle, and every later
  \<open>tapsAddAlias\<close> on them never returns.
\<close>

theorem add_alias_twice_diverges:
  assumes "h a = Some (Live ea)" "h b = Some (Live eb)" "a \<noteq> b"
    and "nextAlias ea = None" "prevAlias ea = None" "nextAlias eb = None" "prevAlias eb = None"
  shows "\<exists>h1 h2. tapsAddAlias h a b = Some (Inr (1, h1)) \<and>
    tapsAddAlias h1 a b = Some (Inr (1, h2)) \<and> tapsAddAlias h2 a b = None"
proof -
  let ?h1 = "hput (hput h a (ea\<lparr>nextAlias := Some b\<rparr>)) b (eb\<lparr>prevAlias := Some a\<rparr>)"
  let ?h2 = "hput (hput ?h1 b (eb\<lparr>prevAlias := Some a, nextAlias := Some a\<rparr>)) a
    (ea\<lparr>nextAlias := Some b, prevAlias := Some b\<rparr>)"
  have w1: "alias_walk h a b = Some (Inr (a, b))"
    using assms by (intro alias_walk_stop)
  have "alias_walk ?h1 a b = alias_walk ?h1 b a"
    using assms by (intro alias_walk_both
      [where ex = "ea\<lparr>nextAlias := Some b\<rparr>" and ey = "eb\<lparr>prevAlias := Some a\<rparr>"]) simp_all
  also have "\<dots> = Some (Inr (b, a))"
    using assms by (intro alias_walk_stop
      [where ex = "eb\<lparr>prevAlias := Some a\<rparr>" and ey = "ea\<lparr>nextAlias := Some b\<rparr>"]) simp_all
  finally have w2: "alias_walk ?h1 a b = Some (Inr (b, a))" .
  have w3: "alias_walk ?h2 a b = None"
    using assms by (intro alias_walk_cycle
      [where ea = "ea\<lparr>nextAlias := Some b, prevAlias := Some b\<rparr>"
        and eb = "eb\<lparr>prevAlias := Some a, nextAlias := Some a\<rparr>"]) simp_all
  have "tapsAddAlias h a b = Some (Inr (1, ?h1))"
    using w1 link_alias_eq [OF assms(1-3)] by (simp add: tapsAddAlias_def)
  moreover have "link_alias ?h1 b a = Inr ?h2"
    using assms(3) by (intro link_alias_eq) simp_all
  then have "tapsAddAlias ?h1 a b = Some (Inr (1, ?h2))"
    using w2 by (simp add: tapsAddAlias_def)
  moreover have "tapsAddAlias ?h2 a b = None"
    using w3 by (simp add: tapsAddAlias_def)
  ultimately show ?thesis by blast
qed

theorem add_alias_twice_diverges_witness:
  "\<exists>h1 h2. tapsAddAlias [1 \<mapsto> Live zero_endpoint, 2 \<mapsto> Live zero_endpoint] 1 2 = Some (Inr (1, h1)) \<and>
    tapsAddAlias h1 1 2 = Some (Inr (1, h2)) \<and> tapsAddAlias h2 1 2 = None"
  by (rule add_alias_twice_diverges [where ea = zero_endpoint and eb = zero_endpoint])
    (simp_all add: zero_endpoint_def)

lemma has_stun_apply: "has_stun (snd (snd (ep_apply lib x ep))) = has_stun ep"
  by (cases x) (auto simp: endpoint_ops Let_def split: option.splits)

lemma has_stun_run: "has_stun (ep_run lib ops ep) = has_stun ep"
  by (induction ops arbitrary: ep) (simp_all add: has_stun_apply)

text \<open>
  The \<open>EBUSY\<close> guard of \<open>tapsWithStunServer\<close> never fires: no operation sets
  \<open>has_stun\<close>, so a later call that parses overwrites the server of an earlier one.
\<close>

theorem stun_server_never_busy:
  "fst (snd (tapsWithStunServer lib m s p c (ep_run lib ops zero_endpoint))) \<noteq> Some EBUSY \<and>
   (pton6 lib s = Some a \<longrightarrow>
      stun (snd (snd (tapsWithStunServer lib m s p c (ep_run lib ops zero_endpoint)))) =
        (stun (ep_run lib ops zero_endpoint))\<lparr>sa_family := AF_INET6, sa_port := p, sin6_addr := a\<rparr>)"
  using has_stun_run [of lib ops zero_endpoint]
  by (auto simp: tapsWithStunServer_def zero_endpoint_def Let_def split: option.splits)

theorem stun_server_never_busy_witness:
  "stun (snd (snd (tapsWithStunServer
       \<lparr>pton4 = \<lambda>_. None, pton6 = \<lambda>_. Some 1, ntop4 = \<lambda>_. [], ntop6 = \<lambda>_. []\<rparr> True ''::1'' 3478 []
       (ep_run \<lparr>pton4 = \<lambda>_. None, pton6 = \<lambda>_. Some 1, ntop4 = \<lambda>_. [], ntop6 = \<lambda>_. []\<rparr> [] zero_endpoint))))
     = \<lparr>sa_family = 10, sa_port = 3478, sin_addr = 0, sin6_addr = 1\<rparr>"
  using stun_server_never_busy
    [of "\<lparr>pton4 = \<lambda>_. None, pton6 = \<lambda>_. Some 1, ntop4 = \<lambda>_. [], ntop6 = \<lambda>_. []\<rparr>"
      True "''::1''" 3478 "[]" "[]" 1]
  by (simp add: zero_endpoint_def zero_sockaddr_def AF_INET6_def)

end
