(* ===== verification/Taps_Message.thy ===== *)
theory Taps_Message
  imports Taps_Prelude
begin

text \<open>
  Messages and scatter lists, src/src/taps_message.c. An \<open>iovec\<close> names a piece of memory;
  a message is one such piece (\<open>buf\<close>) or an array of them (\<open>list\<close>), of which the first
  \<open>iovcnt\<close> count. Lengths are 64-bit words. Reading past the array is a fault. What a
  scatter list denotes is the byte string \<open>vec_bytes\<close> over a memory.
\<close>

section \<open>Scatter lists\<close>

record iovec =
  iov_base :: addr
  iov_len :: size_t

type_synonym memory = "addr \<Rightarrow> 8 word"

definition iov_bytes :: "memory \<Rightarrow> iovec \<Rightarrow> 8 word list" where
  "iov_bytes mem v = map (\<lambda>k. mem (iov_base v + k)) [0..<unat (iov_len v)]"

definition vec_bytes :: "memory \<Rightarrow> iovec list \<Rightarrow> 8 word list" where
  "vec_bytes mem vs = concat (map (iov_bytes mem) vs)"

fun vec_total :: "iovec list \<Rightarrow> nat" where
  "vec_total [] = 0"
| "vec_total (v # vs) = unat (iov_len v) + vec_total vs"

lemma length_iov_bytes [simp]: "length (iov_bytes mem v) = unat (iov_len v)"
  by (simp add: iov_bytes_def)

lemma vec_bytes_simps [simp]:
  "vec_bytes mem [] = []"
  "vec_bytes mem (v # vs) = iov_bytes mem v @ vec_bytes mem vs"
  "vec_bytes mem (vs @ ws) = vec_bytes mem vs @ vec_bytes mem ws"
  by (simp_all add: vec_bytes_def)

lemma length_vec_bytes [simp]: "length (vec_bytes mem vs) = vec_total vs"
  by (induction vs) simp_all

lemma vec_total_append [simp]: "vec_total (vs @ ws) = vec_total vs + vec_total ws"
  by (induction vs) simp_all

text \<open>Shortening a piece and moving its start forward.\<close>

lemma iov_bytes_shorten:
  "unat r \<le> unat (iov_len v) \<Longrightarrow> iov_bytes mem (v\<lparr>iov_len := r\<rparr>) = take (unat r) (iov_bytes mem v)"
  by (simp add: iov_bytes_def take_map)

lemma iov_bytes_advance:
  assumes "r \<le> iov_len v"
  shows "iov_bytes mem (v\<lparr>iov_base := iov_base v + unat r, iov_len := iov_len v - r\<rparr>) =
    drop (unat r) (iov_bytes mem v)"
proof -
  have "unat (iov_len v - r) = unat (iov_len v) - unat r"
    using assms by (simp add: unat_sub)
  then show ?thesis
    by (intro nth_equalityI) (auto simp: iov_bytes_def drop_map add.assoc)
qed

lemma unat_sub_less: "len < (r :: size_t) \<Longrightarrow> unat (r - len) = unat r - unat len \<and> unat len < unat r"
  using unat_sub [of len r] by (simp add: word_less_nat_alt word_le_nat_alt)

section \<open>State\<close>

record tapsMessage =
  buf :: iovec
  list_m :: "iovec list option"
  iovcnt :: int

text \<open>The array the C expression \<open>m->list ? m->list : &(m->buf)\<close> points to.\<close>

definition msg_vec :: "tapsMessage \<Rightarrow> iovec list" where
  "msg_vec m = (case list_m m of None \<Rightarrow> [buf m] | Some vs \<Rightarrow> vs)"

definition set_msg_vec :: "iovec list \<Rightarrow> tapsMessage \<Rightarrow> tapsMessage" where
  "set_msg_vec vs m = (case list_m m of None \<Rightarrow> m\<lparr>buf := hd vs\<rparr> | Some _ \<Rightarrow> m\<lparr>list_m := Some vs\<rparr>)"

section \<open>Operations\<close>

definition tapsMessageNew :: "bool \<Rightarrow> addr \<Rightarrow> size_t \<Rightarrow> errno option \<times> tapsMessage option" where
  "tapsMessageNew avail data len =
     (if \<not> avail then (Some ENOMEM, None)
      else (None, Some \<lparr>buf = \<lparr>iov_base = data, iov_len = len\<rparr>, list_m = None, iovcnt = 1\<rparr>))"

definition tapsMessageGetFirstBuf :: "tapsMessage \<Rightarrow> fault + addr \<times> size_t" where
  "tapsMessageGetFirstBuf m =
     (case msg_vec m of [] \<Rightarrow> Inl OutOfBounds | v # _ \<Rightarrow> Inr (iov_base v, iov_len v))"

definition tapsMessageGetIovec :: "tapsMessage \<Rightarrow> iovec list \<times> int" where
  "tapsMessageGetIovec m = (msg_vec m, iovcnt m)"

text \<open>
  The loop of \<open>tapsMessageTruncate\<close>: its condition reads \<open>buf->iov_len\<close> before it compares
  \<open>row\<close> with \<open>iovcnt\<close>, so the read past the last element is part of the loop.
\<close>

fun truncate_loop :: "iovec list \<Rightarrow> size_t \<Rightarrow> nat \<Rightarrow> int \<Rightarrow> fault + nat \<times> size_t" where
  "truncate_loop [] remaining row cnt = Inl OutOfBounds"
| "truncate_loop (v # vs) remaining row cnt =
     (if iov_len v < remaining \<and> int row < cnt
      then truncate_loop vs (remaining - iov_len v) (Suc row) cnt
      else Inr (row, remaining))"

definition tapsMessageTruncate :: "size_t \<Rightarrow> tapsMessage \<Rightarrow> fault + tapsMessage" where
  "tapsMessageTruncate len m =
     (case truncate_loop (msg_vec m) len 0 (iovcnt m) of
        Inl f \<Rightarrow> Inl f
      | Inr (row, remaining) \<Rightarrow>
          if int row = iovcnt m then Inr (m\<lparr>iovcnt := 0\<rparr>)
          else
            let vs = msg_vec m in
            Inr ((set_msg_vec (vs[row := (vs ! row)\<lparr>iov_len := remaining\<rparr>]) m)
                   \<lparr>iovcnt := int row + 1\<rparr>))"

datatype msg_block = IovecList | MessageSelf

definition tapsMessageFree :: "tapsMessage \<Rightarrow> msg_block list" where
  "tapsMessageFree m = (if list_m m \<noteq> None then [IovecList] else []) @ [MessageSelf]"

text \<open>
  A message as an application may hold it: at least one piece, all of them inside the array,
  and the array is used exactly when it exists.
\<close>

definition msg_ok :: "tapsMessage \<Rightarrow> bool" where
  "msg_ok m \<longleftrightarrow> 0 < iovcnt m \<and> nat (iovcnt m) \<le> length (msg_vec m)"

definition msg_bytes :: "memory \<Rightarrow> tapsMessage \<Rightarrow> 8 word list" where
  "msg_bytes mem m = vec_bytes mem (take (nat (iovcnt m)) (msg_vec m))"

definition msg_total :: "tapsMessage \<Rightarrow> nat" where
  "msg_total m = vec_total (take (nat (iovcnt m)) (msg_vec m))"

lemma msg_vec_set [simp]:
  "length vs = length (msg_vec m) \<Longrightarrow> msg_vec (set_msg_vec vs m) = vs"
  by (cases vs) (auto simp: msg_vec_def set_msg_vec_def split: option.splits)

lemma msg_vec_cnt [simp]: "msg_vec (m\<lparr>iovcnt := c\<rparr>) = msg_vec m"
  by (simp add: msg_vec_def split: option.split)

section \<open>The truncation loop\<close>

lemma truncate_loop_within:
  assumes "int row + int (length vs) = cnt" "vs \<noteq> []" "unat r \<le> vec_total vs"
  shows "\<exists>k r'. truncate_loop (vs @ ws) r row cnt = Inr (row + k, r') \<and> k < length vs \<and>
    unat r = vec_total (take k vs) + unat r' \<and> unat r' \<le> unat (iov_len (vs ! k))"
  using assms
proof (induction vs arbitrary: r row)
  case Nil
  then show ?case by simp
next
  case (Cons v vs)
  show ?case
  proof (cases "iov_len v < r")
    case False
    then show ?thesis by (intro exI [of _ 0] exI [of _ r]) (simp add: word_less_nat_alt)
  next
    case True
    note sub = unat_sub_less [OF True]
    from sub Cons.prems have vs: "vs \<noteq> []" by auto
    have "int (Suc row) + int (length vs) = cnt" "unat (r - iov_len v) \<le> vec_total vs"
      using Cons.prems sub by auto
    from Cons.IH [OF this(1) vs this(2)] obtain k r' where
      "truncate_loop (vs @ ws) (r - iov_len v) (Suc row) cnt = Inr (Suc row + k, r')"
      "k < length vs" "unat (r - iov_len v) = vec_total (take k vs) + unat r'"
      "unat r' \<le> unat (iov_len (vs ! k))" by auto
    with True sub Cons.prems show ?thesis by (intro exI [of _ "Suc k"]) auto
  qed
qed

lemma truncate_loop_beyond:
  "int row + int (length vs) = cnt \<Longrightarrow> vec_total vs < unat r \<Longrightarrow>
     truncate_loop vs r row cnt = Inl OutOfBounds"
proof (induction vs arbitrary: r row)
  case Nil
  then show ?case by simp
next
  case (Cons v vs)
  then have lt: "iov_len v < r" by (simp add: word_less_nat_alt)
  with Cons.prems unat_sub_less [OF lt] show ?case by (simp add: Cons.IH)
qed

lemma vec_bytes_cut:
  assumes "k < length vs" "unat r = vec_total (take k vs) + unat r'" "unat r' \<le> unat (iov_len (vs ! k))"
  shows "vec_bytes mem (take (Suc k) (vs[k := (vs ! k)\<lparr>iov_len := r'\<rparr>])) = take (unat r) (vec_bytes mem vs)"
proof -
  have "vs = take k vs @ vs ! k # drop (Suc k) vs" using assms(1) by (rule id_take_nth_drop)
  then have "vec_bytes mem vs =
      vec_bytes mem (take k vs) @ iov_bytes mem (vs ! k) @ vec_bytes mem (drop (Suc k) vs)"
    by (metis vec_bytes_simps(2,3))
  with assms show ?thesis by (simp add: take_nth_split iov_bytes_shorten)
qed

section \<open>Properties\<close>

text \<open>
  C21. Truncating a message to no more than it holds succeeds and leaves exactly the first
  \<open>length\<close> bytes, without touching the memory behind it; the message stays well formed.
\<close>

theorem message_truncate:
  assumes "msg_ok m" "unat len \<le> msg_total m"
  shows "\<exists>m'. tapsMessageTruncate len m = Inr m' \<and> msg_ok m' \<and> iovcnt m' \<le> iovcnt m \<and>
    msg_bytes mem m' = take (unat len) (msg_bytes mem m)"
proof -
  let ?c = "nat (iovcnt m)" and ?vs = "take (nat (iovcnt m)) (msg_vec m)"
  have c: "length ?vs = ?c" "int ?c = iovcnt m" "?vs \<noteq> []"
    using assms(1) by (auto simp: msg_ok_def)
  have cnt: "int 0 + int (length ?vs) = iovcnt m" using c by simp
  have tot: "unat len \<le> vec_total ?vs" using assms(2) by (simp add: msg_total_def)
  obtain k r' where k: "truncate_loop (msg_vec m) len 0 (iovcnt m) = Inr (k, r')" "k < ?c"
    "unat len = vec_total (take k ?vs) + unat r'" "unat r' \<le> unat (iov_len (?vs ! k))"
    using truncate_loop_within [OF cnt c(3) tot, of "drop ?c (msg_vec m)"] c(1) by auto
  let ?new = "(msg_vec m)[k := (msg_vec m ! k)\<lparr>iov_len := r'\<rparr>]"
  have eq: "tapsMessageTruncate len m = Inr ((set_msg_vec ?new m)\<lparr>iovcnt := int k + 1\<rparr>)"
    using k c by (simp add: tapsMessageTruncate_def Let_def)
  have "take (Suc k) ?new = take (Suc k) (?vs[k := (?vs ! k)\<lparr>iov_len := r'\<rparr>])"
    using k(2) c by (simp add: take_update_swap min_def)
  then have "msg_bytes mem ((set_msg_vec ?new m)\<lparr>iovcnt := int k + 1\<rparr>) = take (unat len) (msg_bytes mem m)"
    using vec_bytes_cut [of k ?vs len r' mem] k c by (simp add: msg_bytes_def nat_add_distrib)
  moreover have "msg_ok ((set_msg_vec ?new m)\<lparr>iovcnt := int k + 1\<rparr>)"
    using k c assms(1) by (simp add: msg_ok_def nat_add_distrib)
  ultimately show ?thesis using eq k c by auto
qed

theorem message_truncate_witness:
  "\<exists>m'. tapsMessageTruncate 3
      \<lparr>buf = \<lparr>iov_base = 0, iov_len = 0\<rparr>,
       list_m = Some [\<lparr>iov_base = 100, iov_len = 2\<rparr>, \<lparr>iov_base = 200, iov_len = 4\<rparr>], iovcnt = 2\<rparr> = Inr m' \<and>
     msg_ok m' \<and> iovcnt m' \<le> 2 \<and> msg_bytes (\<lambda>a. of_nat a) m' = [100, 101, 200]"
proof -
  let ?m = "\<lparr>buf = \<lparr>iov_base = 0, iov_len = 0\<rparr>,
       list_m = Some [\<lparr>iov_base = 100, iov_len = 2\<rparr>, \<lparr>iov_base = 200, iov_len = 4\<rparr>], iovcnt = 2\<rparr> :: tapsMessage"
  have "msg_ok ?m" "unat (3 :: size_t) \<le> msg_total ?m"
    by (simp_all add: msg_ok_def msg_total_def msg_vec_def)
  from message_truncate [OF this, of "\<lambda>a. of_nat a"]
  show ?thesis by (simp add: msg_bytes_def msg_vec_def iov_bytes_def upt_conv_Cons)
qed

text \<open>
  Truncating to more than the message holds reads past the end of the array whenever the
  array holds no more pieces than the message uses, as it always does for a message made by
  \<open>tapsMessageNew\<close>.
\<close>

theorem message_truncate_overrun:
  assumes "msg_ok m" "length (msg_vec m) = nat (iovcnt m)" "msg_total m < unat len"
  shows "tapsMessageTruncate len m = Inl OutOfBounds"
  using assms truncate_loop_beyond [of 0 "msg_vec m" "iovcnt m" len]
  by (simp add: tapsMessageTruncate_def msg_ok_def msg_total_def)

theorem message_truncate_overrun_witness:
  "tapsMessageTruncate 1025 (the (snd (tapsMessageNew True 4096 1024))) = Inl OutOfBounds"
  by (rule message_truncate_overrun)
    (simp_all add: tapsMessageNew_def msg_ok_def msg_vec_def msg_total_def)

end
