(* ===== verification/Taps_Api.thy ===== *)
theory Taps_Api
  imports Taps_Endpoint Taps_Message
begin

text \<open>
  What the event-driven objects share: the callback table an application passes in
  (src/src/taps.h), the protocol symbols TAPS loads (\<open>struct proto_handles\<close> of
  src/src/taps_internals.h), the calls made into the application, and the part of the state that
  listeners and connections both use. Function pointers of the application are numbers, with
  \<open>None\<close> for a null pointer; the functions of a protocol are HOL functions on the protocol's
  own state \<open>'p\<close>, which stays abstract until src/src/tcp/tcp.c is plugged in.
\<close>

section \<open>Application callbacks\<close>

type_synonym ctx = "addr option"
type_synonym fnptr = "nat option"

record tapsCallbacks =
  cb_connectionReceived :: fnptr
  cb_establishmentError :: fnptr
  cb_stopped :: fnptr
  cb_sent :: fnptr
  cb_expired :: fnptr
  cb_sendError :: fnptr
  cb_received :: fnptr
  cb_receivedPartial :: fnptr
  cb_receiveError :: fnptr
  cb_closed :: fnptr
  cb_connectionError :: fnptr

text \<open>
  The arguments of a call into the application, by the type of the callback. The third argument of
  \<open>tapsCbConnectionReceived\<close> is the callback's second result. Nothing in the library makes the
  second call.
\<close>

datatype app_callback =
    ConnectionReceived ctx addr
  | EstablishmentError ctx "string option"
  | Stopped ctx
  | Sent ctx ctx
  | Expired ctx ctx
  | SendError ctx ctx string
  | Received ctx ctx size_t
  | ReceivedPartial ctx ctx size_t bool
  | ReceiveError ctx ctx string
  | Closed ctx
  | ConnectionError ctx "string option"

text \<open>One call: which function and with what.\<close>

type_synonym app_event = "nat \<times> app_callback"

section \<open>Protocol symbols\<close>

text \<open>
  \<open>h_listen addr\<close> gives the protocol's listener context or \<open>None\<close>; \<open>h_stop\<close> says
  whether the protocol called back before returning; \<open>h_send ctx item vec cnt\<close> and
  \<open>h_receive ctx item own vec cnt\<close> take the opaque item TAPS wants back in the callback.
  \<open>own\<close> is \<open>None\<close> when the vector is the message's own array and the address of the
  array otherwise.
\<close>

record 'p proto_handles =
  h_listen :: "sockaddr \<Rightarrow> 'p \<Rightarrow> addr option \<times> 'p"
  h_stop :: "addr option \<Rightarrow> 'p \<Rightarrow> bool \<times> 'p"
  h_send :: "addr option \<Rightarrow> addr \<Rightarrow> iovec list \<Rightarrow> int \<Rightarrow> 'p \<Rightarrow> int \<times> 'p"
  h_receive :: "addr option \<Rightarrow> addr \<Rightarrow> addr option \<Rightarrow> iovec list \<Rightarrow> int \<Rightarrow> 'p \<Rightarrow> 'p"

section \<open>Listener and shared state\<close>

record tapsListener =
  l_proto_ctx :: ctx
  l_app_ctx :: ctx
  l_connectionReceived :: fnptr
  l_establishmentError :: fnptr
  l_stopped :: fnptr
  ref_count :: uint32
  conn_limit :: uint32
  l_base :: bool
  readyToStop :: bool
  baseCreatedHere :: bool

record 'p taps_world =
  lst :: tapsListener
  proto :: 'p
  trace :: "app_event list"
  faults :: "fault list"

definition add_fault :: "fault \<Rightarrow> ('p, 'z) taps_world_scheme \<Rightarrow> ('p, 'z) taps_world_scheme" where
  "add_fault f w = w\<lparr>faults := faults w @ [f]\<rparr>"

text \<open>A call through a function pointer of the application; a null pointer faults.\<close>

definition app_call :: "fnptr \<Rightarrow> app_callback \<Rightarrow> ('p, 'z) taps_world_scheme \<Rightarrow> ('p, 'z) taps_world_scheme" where
  "app_call fn c w =
     (case fn of None \<Rightarrow> add_fault NullCall w | Some f \<Rightarrow> w\<lparr>trace := trace w @ [(f, c)]\<rparr>)"

lemma add_fault_simps [simp]:
  "lst (add_fault f w) = lst w" "proto (add_fault f w) = proto w" "trace (add_fault f w) = trace w"
  "faults (add_fault f w) = faults w @ [f]"
  by (simp_all add: add_fault_def)

lemma app_call_simps [simp]:
  "lst (app_call fn c w) = lst w" "proto (app_call fn c w) = proto w"
  "trace (app_call (Some f) c w) = trace w @ [(f, c)]" "faults (app_call (Some f) c w) = faults w"
  "trace (app_call None c w) = trace w" "faults (app_call None c w) = faults w @ [NullCall]"
  by (auto simp: app_call_def split: option.splits)

end
