(* ===== verification/Taps_Listener.thy ===== *)
theory Taps_Listener
  imports Taps_Api
begin

text \<open>
  The Listener object, src/src/taps_listener.c, except the handler for new connections, which
  needs the connection object. Loading the shared library is an argument: the four symbols, each
  of which may be missing.
\<close>

section \<open>Operations\<close>

text \<open>\<open>_taps_stopped\<close>: the protocol reports that it no longer accepts connections.\<close>

definition taps_stopped :: "('p, 'z) taps_world_scheme \<Rightarrow> ('p, 'z) taps_world_scheme" where
  "taps_stopped w =
     (let stopped = l_stopped (lst w);
          w1 = w\<lparr>lst := (lst w)\<lparr>readyToStop := True\<rparr>\<rparr>
      in if ref_count (lst w1) = 0
         then app_call stopped (Stopped (l_app_ctx (lst w1))) (w1\<lparr>lst := (lst w1)\<lparr>l_stopped := None\<rparr>\<rparr>)
         else w1)"

definition tapsListenerDeref :: "('p, 'z) taps_world_scheme \<Rightarrow> ('p, 'z) taps_world_scheme" where
  "tapsListenerDeref w =
     (let stopped = l_stopped (lst w);
          w1 = w\<lparr>lst := (lst w)\<lparr>ref_count := ref_count (lst w) - 1\<rparr>\<rparr>
      in if readyToStop (lst w1) \<and> ref_count (lst w1) = 0
         then app_call stopped (Stopped (l_app_ctx (lst w1))) (w1\<lparr>lst := (lst w1)\<lparr>l_stopped := None\<rparr>\<rparr>)
         else w1)"

text \<open>The line of \<open>_taps_connection_received\<close> that counts a new connection.\<close>

definition listener_ref :: "('p, 'z) taps_world_scheme \<Rightarrow> ('p, 'z) taps_world_scheme" where
  "listener_ref w = w\<lparr>lst := (lst w)\<lparr>ref_count := ref_count (lst w) + 1\<rparr>\<rparr>"

text \<open>
  The library that \<open>dlopen\<close> opens: the symbols \<open>dlsym\<close> finds in it, \<open>None\<close> for a
  missing one.
\<close>

record 'p dlib =
  sym_Listen :: "(sockaddr \<Rightarrow> 'p \<Rightarrow> addr option \<times> 'p) option"
  sym_Stop :: "(addr option \<Rightarrow> 'p \<Rightarrow> bool \<times> 'p) option"
  sym_Send :: "(addr option \<Rightarrow> addr \<Rightarrow> iovec list \<Rightarrow> int \<Rightarrow> 'p \<Rightarrow> int \<times> 'p) option"
  sym_Receive :: "(addr option \<Rightarrow> addr \<Rightarrow> addr option \<Rightarrow> iovec list \<Rightarrow> int \<Rightarrow> 'p \<Rightarrow> 'p) option"

definition load_handles :: "'p dlib \<Rightarrow> 'p proto_handles option" where
  "load_handles lib =
     (case sym_Listen lib of None \<Rightarrow> None
      | Some li \<Rightarrow> (case sym_Stop lib of None \<Rightarrow> None
        | Some st \<Rightarrow> (case sym_Send lib of None \<Rightarrow> None
          | Some se \<Rightarrow> (case sym_Receive lib of None \<Rightarrow> None
            | Some re \<Rightarrow> Some \<lparr>h_listen = li, h_stop = st, h_send = se, h_receive = re\<rparr>))))"

definition zero_listener :: tapsListener where
  "zero_listener =
     \<lparr>l_proto_ctx = None, l_app_ctx = None, l_connectionReceived = None,
      l_establishmentError = None, l_stopped = None, ref_count = 0, conn_limit = 0,
      l_base = False, readyToStop = False, baseCreatedHere = False\<rparr>"

text \<open>What \<open>tapsListenerNew\<close> gives back: the object or \<open>NULL\<close>, and the library calls it undid.\<close>

datatype cleanup = Dlclose | EventBaseFree | FreeListener

record 'p listener_result =
  lr_errno :: "errno option"
  lr_listener :: "(tapsListener \<times> 'p proto_handles) option"
  lr_proto :: 'p
  lr_cleanup :: "cleanup list"

text \<open>
  \<open>tapsListenerNew\<close>. \<open>alloc\<close> is the address \<open>malloc\<close> returned; \<open>base\<close> says whether
  the application passed an event base, \<open>new_base\<close> whether \<open>event_base_new\<close> would succeed.
\<close>

definition tapsListenerNew ::
  "addr option \<Rightarrow> 'p dlib option \<Rightarrow> bool \<Rightarrow> bool \<Rightarrow> ctx \<Rightarrow> sockaddr \<Rightarrow> tapsCallbacks \<Rightarrow> 'p \<Rightarrow>
    'p listener_result" where
  "tapsListenerNew alloc lib base new_base app_ctx sa callbacks p =
     (case alloc of
        None \<Rightarrow> \<lparr>lr_errno = Some ENOMEM, lr_listener = None, lr_proto = p, lr_cleanup = []\<rparr>
      | Some l \<Rightarrow>
          (case lib of
             None \<Rightarrow> \<lparr>lr_errno = None, lr_listener = None, lr_proto = p, lr_cleanup = [FreeListener]\<rparr>
           | Some lb \<Rightarrow>
               (case load_handles lb of
                  None \<Rightarrow> \<lparr>lr_errno = None, lr_listener = None, lr_proto = p, lr_cleanup = [Dlclose, FreeListener]\<rparr>
                | Some h \<Rightarrow>
                    let created = \<not> base; have_base = (if created then new_base else True) in
                    if \<not> have_base then
                      \<lparr>lr_errno = None, lr_listener = None, lr_proto = p, lr_cleanup = [Dlclose, FreeListener]\<rparr>
                    else if created then
                      \<lparr>lr_errno = None, lr_listener = None, lr_proto = p,
                       lr_cleanup = [Dlclose, EventBaseFree, FreeListener]\<rparr>
                    else
                      (case h_listen h sa p of
                         (None, p') \<Rightarrow>
                           \<lparr>lr_errno = None, lr_listener = None, lr_proto = p', lr_cleanup = [Dlclose, FreeListener]\<rparr>
                       | (Some pc, p') \<Rightarrow>
                           \<lparr>lr_errno = None,
                            lr_listener = Some (zero_listener
                              \<lparr>l_proto_ctx := Some pc, l_base := True,
                               conn_limit := - 1,
                               l_connectionReceived := cb_connectionReceived callbacks,
                               l_establishmentError := cb_establishmentError callbacks,
                               l_app_ctx := (case app_ctx of None \<Rightarrow> Some l | Some a \<Rightarrow> Some a)\<rparr>, h),
                            lr_proto = p', lr_cleanup = []\<rparr>))))"

text \<open>The protocol's \<open>Stop\<close>, which may call \<open>_taps_stopped\<close> before it returns.\<close>

definition call_stop ::
  "'p proto_handles \<Rightarrow> ('p, 'z) taps_world_scheme \<Rightarrow> ('p, 'z) taps_world_scheme" where
  "call_stop h w =
     (case h_stop h (l_proto_ctx (lst w)) (proto w) of
        (called, p') \<Rightarrow> (if called then taps_stopped (w\<lparr>proto := p'\<rparr>) else w\<lparr>proto := p'\<rparr>))"

definition tapsListenerStop ::
  "'p proto_handles \<Rightarrow> addr option \<Rightarrow> tapsCallbacks option \<Rightarrow> ('p, 'z) taps_world_scheme \<Rightarrow>
    ('p, 'z) taps_world_scheme answer" where
  "tapsListenerStop h listener callbacks w =
     (case callbacks of
        None \<Rightarrow> (- 1, Some EINVAL, w)
      | Some cb \<Rightarrow>
          if listener = None \<or> cb_stopped cb = None then (- 1, Some EINVAL, w)
          else (0, None, call_stop h (w\<lparr>lst := (lst w)\<lparr>l_stopped := cb_stopped cb\<rparr>\<rparr>)))"

text \<open>
  \<open>tapsListenerFree\<close>: the result also says whether the object was released. The first branch
  stops the protocol and keeps the object.
\<close>

definition tapsListenerFree ::
  "'p proto_handles \<Rightarrow> ('p, 'z) taps_world_scheme \<Rightarrow> int \<times> bool \<times> ('p, 'z) taps_world_scheme" where
  "tapsListenerFree h w =
     (if \<not> readyToStop (lst w) \<and> l_stopped (lst w) = None then
        let w1 = call_stop h w in (0, False, w1\<lparr>lst := (lst w1)\<lparr>readyToStop := True\<rparr>\<rparr>)
      else if l_stopped (lst w) \<noteq> None then (- 1, False, w)
      else (0, True, w))"

section \<open>The life of a listener\<close>

text \<open>
  The listener between \<open>tapsListenerNew\<close> and \<open>tapsListenerFree\<close>: connections come while
  the protocol has not reported its stop, each one ends once, the application stops the listener
  once, and the protocol reports the stop before \<open>Stop\<close> returns or at some later time.
  \<open>conns\<close> counts the live connections, \<open>asked\<close> and \<open>pending\<close> record that the
  application has called \<open>tapsListenerStop\<close> and that the protocol still owes its report.
  The number of connections is kept below the range of \<open>ref_count\<close>.
\<close>

record 'p l_state =
  conns :: nat
  asked :: bool
  pending :: bool
  l_world :: "'p taps_world"

definition l_start :: "'p l_state \<Rightarrow> bool" where
  "l_start s \<longleftrightarrow> conns s = 0 \<and> \<not> asked s \<and> \<not> pending s \<and> trace (l_world s) = [] \<and>
     faults (l_world s) = [] \<and> ref_count (lst (l_world s)) = 0 \<and>
     \<not> readyToStop (lst (l_world s)) \<and> l_stopped (lst (l_world s)) = None"

inductive l_step :: "'p proto_handles \<Rightarrow> addr \<Rightarrow> tapsCallbacks \<Rightarrow> 'p l_state \<Rightarrow> 'p l_state \<Rightarrow> bool"
  for h a cb where
  l_accept: "\<not> readyToStop (lst (l_world s)) \<Longrightarrow> conns s < 2 ^ 32 - 1 \<Longrightarrow>
    l_step h a cb s (s\<lparr>conns := conns s + 1, l_world := listener_ref (l_world s)\<rparr>)"
| l_close: "0 < conns s \<Longrightarrow>
    l_step h a cb s (s\<lparr>conns := conns s - 1, l_world := tapsListenerDeref (l_world s)\<rparr>)"
| l_stop: "\<not> asked s \<Longrightarrow> tapsListenerStop h (Some a) (Some cb) (l_world s) = (0, e, w) \<Longrightarrow>
    l_step h a cb s (s\<lparr>asked := True, pending := \<not> readyToStop (lst w), l_world := w\<rparr>)"
| l_report: "pending s \<Longrightarrow>
    l_step h a cb s (s\<lparr>pending := False, l_world := taps_stopped (l_world s)\<rparr>)"

text \<open>How many Stopped events the application has seen.\<close>

definition stops :: "'p l_state \<Rightarrow> nat" where
  "stops s = length (filter (\<lambda>e. case snd e of Stopped _ \<Rightarrow> True | _ \<Rightarrow> False) (trace (l_world s)))"

definition l_done :: "'p l_state \<Rightarrow> bool" where
  "l_done s \<longleftrightarrow> asked s \<and> \<not> pending s \<and> conns s = 0"

definition l_inv :: "tapsCallbacks \<Rightarrow> 'p l_state \<Rightarrow> bool" where
  "l_inv cb s \<longleftrightarrow>
     ref_count (lst (l_world s)) = of_nat (conns s) \<and> conns s < 2 ^ 32 \<and>
     faults (l_world s) = [] \<and>
     readyToStop (lst (l_world s)) = (asked s \<and> \<not> pending s) \<and> (pending s \<longrightarrow> asked s) \<and>
     l_stopped (lst (l_world s)) = (if asked s \<and> \<not> l_done s then cb_stopped cb else None) \<and>
     stops s = (if l_done s then 1 else 0) \<and> (asked s \<longrightarrow> cb_stopped cb \<noteq> None)"

lemma of_nat_zero_iff: "n < 2 ^ 32 \<Longrightarrow> (of_nat n :: uint32) = 0 \<longleftrightarrow> n = 0"
  by (auto simp: word_of_nat_eq_0_iff dest: dvd_imp_le)

text \<open>The two operations that may deliver the event, with the counter read as a number.\<close>

lemma deref_count:
  assumes "ref_count (lst w) = of_nat (Suc n)" "n < 2 ^ 32"
  shows "tapsListenerDeref w =
    (if readyToStop (lst w) \<and> n = 0
     then app_call (l_stopped (lst w)) (Stopped (l_app_ctx (lst w)))
       (w\<lparr>lst := (lst w)\<lparr>ref_count := 0, l_stopped := None\<rparr>\<rparr>)
     else w\<lparr>lst := (lst w)\<lparr>ref_count := of_nat n\<rparr>\<rparr>)"
  using assms of_nat_zero_iff [of n] by (simp add: tapsListenerDeref_def Let_def)

lemma stopped_count:
  assumes "ref_count (lst w) = of_nat n" "n < 2 ^ 32"
  shows "taps_stopped w =
    (if n = 0
     then app_call (l_stopped (lst w)) (Stopped (l_app_ctx (lst w)))
       (w\<lparr>lst := (lst w)\<lparr>readyToStop := True, l_stopped := None\<rparr>\<rparr>)
     else w\<lparr>lst := (lst w)\<lparr>readyToStop := True\<rparr>\<rparr>)"
  using assms of_nat_zero_iff [of n] by (simp add: taps_stopped_def Let_def)

text \<open>Ending every remaining connection of a listener that is ready to stop.\<close>

lemma deref_all:
  assumes "ref_count (lst w) = of_nat (Suc n)" "n < 2 ^ 32" "readyToStop (lst w)"
  shows "(tapsListenerDeref ^^ Suc n) w =
    app_call (l_stopped (lst w)) (Stopped (l_app_ctx (lst w)))
      (w\<lparr>lst := (lst w)\<lparr>ref_count := 0, l_stopped := None\<rparr>\<rparr>)"
  using assms
proof (induction n arbitrary: w)
  case 0
  then show ?case using deref_count [of w 0] by simp
next
  case (Suc n)
  let ?w = "w\<lparr>lst := (lst w)\<lparr>ref_count := of_nat (Suc n)\<rparr>\<rparr>"
  have "tapsListenerDeref w = ?w" using Suc.prems deref_count [of w "Suc n"] by simp
  moreover have "(tapsListenerDeref ^^ Suc n) ?w =
      app_call (l_stopped (lst ?w)) (Stopped (l_app_ctx (lst ?w)))
        (?w\<lparr>lst := (lst ?w)\<lparr>ref_count := 0, l_stopped := None\<rparr>\<rparr>)"
    using Suc.prems by (intro Suc.IH) simp_all
  ultimately show ?case
    by (simp add: funpow_Suc_right [of "Suc n"] del: funpow.simps of_nat_Suc)
qed

lemmas listener_ops = taps_stopped_def tapsListenerDeref_def listener_ref_def call_stop_def
  tapsListenerStop_def add_fault_def Let_def

lemmas l_inv_defs = l_inv_def l_done_def stops_def

lemma l_inv_accept:
  assumes "l_inv cb s" "\<not> readyToStop (lst (l_world s))" "conns s < 2 ^ 32 - 1"
  shows "l_inv cb (s\<lparr>conns := conns s + 1, l_world := listener_ref (l_world s)\<rparr>)"
  using assms by (auto simp: l_inv_defs listener_ref_def add.commute)

lemma l_inv_close:
  assumes inv: "l_inv cb s" and "0 < conns s"
  shows "l_inv cb (s\<lparr>conns := conns s - 1, l_world := tapsListenerDeref (l_world s)\<rparr>)"
proof -
  from assms obtain n where n: "conns s = Suc n" by (cases "conns s") auto
  with inv have r: "ref_count (lst (l_world s)) = of_nat (Suc n)" "n < 2 ^ 32"
    by (simp_all add: l_inv_def)
  show ?thesis
    using inv n unfolding l_inv_defs deref_count [OF r]
    by (cases "n = 0"; cases "pending s"; cases "asked s")
      (auto simp: app_call_def simp del: of_nat_Suc)
qed

lemma l_inv_report:
  assumes inv: "l_inv cb s" and "pending s"
  shows "l_inv cb (s\<lparr>pending := False, l_world := taps_stopped (l_world s)\<rparr>)"
proof -
  from inv have r: "ref_count (lst (l_world s)) = of_nat (conns s)" "conns s < 2 ^ 32"
    by (simp_all add: l_inv_def)
  show ?thesis
    using assms unfolding l_inv_defs stopped_count [OF r]
    by (cases "conns s = 0") (auto simp: app_call_def)
qed

lemma l_inv_stop:
  assumes inv: "l_inv cb s" and "\<not> asked s"
    and st: "tapsListenerStop h (Some a) (Some cb) (l_world s) = (0, e, w)"
  shows "l_inv cb (s\<lparr>asked := True, pending := \<not> readyToStop (lst w), l_world := w\<rparr>)"
proof -
  obtain called p' where p: "h_stop h (l_proto_ctx (lst (l_world s))) (proto (l_world s)) = (called, p')"
    by fastforce
  let ?w = "(l_world s)\<lparr>lst := (lst (l_world s))\<lparr>l_stopped := cb_stopped cb\<rparr>, proto := p'\<rparr>"
  from st p have w: "w = (if called then taps_stopped ?w else ?w)" and cb: "cb_stopped cb \<noteq> None"
    by (auto simp: tapsListenerStop_def call_stop_def split: if_splits)
  from inv have r: "ref_count (lst ?w) = of_nat (conns s)" "conns s < 2 ^ 32"
    by (simp_all add: l_inv_def)
  show ?thesis
    using inv cb \<open>\<not> asked s\<close> unfolding l_inv_defs w stopped_count [OF r]
    by (cases "conns s = 0"; cases called) (auto simp: app_call_def)
qed

lemma l_inv_step: "l_step h a cb s t \<Longrightarrow> l_inv cb s \<Longrightarrow> l_inv cb t"
  by (induction rule: l_step.induct)
    (rule l_inv_accept l_inv_close l_inv_stop l_inv_report; assumption)+

lemma l_inv_start: "l_start s \<Longrightarrow> l_inv cb s"
  by (simp add: l_start_def l_inv_defs)

interpretation life: inv_system l_start "l_step h a cb" "l_inv cb"
  by (unfold_locales; erule l_inv_start l_inv_step)

section \<open>Properties\<close>

text \<open>
  C9. Stopped is delivered exactly once, and only when it may be: in every reachable state the
  application has seen one Stopped event if it has stopped the listener, the protocol has reported
  the stop and every connection has ended, and none otherwise. No null pointer is called, and the
  reference count is the number of live connections.
\<close>

theorem listener_stopped_exactly_once:
  assumes "l_start s" "reaches (l_step h a cb) s t"
  shows "stops t = (if asked t \<and> \<not> pending t \<and> conns t = 0 then 1 else 0) \<and>
    faults (l_world t) = [] \<and> unat (ref_count (lst (l_world t))) = conns t"
  using life.inv_reachable [OF assms]
  by (simp add: l_inv_def l_done_def unsigned_of_nat take_bit_nat_eq_self)

definition idle_listener :: "unit l_state" where
  "idle_listener = \<lparr>conns = 0, asked = False, pending = False,
     l_world = \<lparr>lst = zero_listener\<lparr>l_app_ctx := Some 5\<rparr>, proto = (), trace = [], faults = []\<rparr>\<rparr>"

definition sync_handles :: "unit proto_handles" where
  "sync_handles = \<lparr>h_listen = (\<lambda>_ p. (Some 1, p)), h_stop = (\<lambda>_ p. (True, p)),
     h_send = (\<lambda>_ _ _ _ p. (0, p)), h_receive = (\<lambda>_ _ _ _ _ p. p)\<rparr>"

definition stop_callbacks :: tapsCallbacks where
  "stop_callbacks = \<lparr>cb_connectionReceived = None, cb_establishmentError = None,
     cb_stopped = Some 7, cb_sent = None, cb_expired = None, cb_sendError = None,
     cb_received = None, cb_receivedPartial = None, cb_receiveError = None, cb_closed = None,
     cb_connectionError = None\<rparr>"

text \<open>One connection comes, the application stops the listener, the connection ends.\<close>

definition one_conn :: "unit l_state" where
  "one_conn = idle_listener\<lparr>conns := 1, l_world := listener_ref (l_world idle_listener)\<rparr>"

definition one_conn_stopped :: "unit l_state" where
  "one_conn_stopped = one_conn\<lparr>asked := True, pending := False,
     l_world := snd (snd (tapsListenerStop sync_handles (Some 1) (Some stop_callbacks) (l_world one_conn)))\<rparr>"

definition one_conn_closed :: "unit l_state" where
  "one_conn_closed = one_conn_stopped\<lparr>conns := 0,
     l_world := tapsListenerDeref (l_world one_conn_stopped)\<rparr>"

lemmas witness_listener = one_conn_closed_def one_conn_stopped_def one_conn_def idle_listener_def
  sync_handles_def stop_callbacks_def zero_listener_def listener_ops

lemma one_conn_steps:
  "l_step sync_handles 1 stop_callbacks idle_listener one_conn"
  "l_step sync_handles 1 stop_callbacks one_conn one_conn_stopped"
  "l_step sync_handles 1 stop_callbacks one_conn_stopped one_conn_closed"
proof -
  show "l_step sync_handles 1 stop_callbacks idle_listener one_conn"
    using l_accept [of idle_listener sync_handles 1 stop_callbacks]
    by (simp add: one_conn_def idle_listener_def zero_listener_def)
  show "l_step sync_handles 1 stop_callbacks one_conn one_conn_stopped"
    using l_stop [of one_conn sync_handles 1 stop_callbacks]
    by (simp add: witness_listener)
  show "l_step sync_handles 1 stop_callbacks one_conn_stopped one_conn_closed"
    using l_close [of one_conn_stopped sync_handles 1 stop_callbacks]
    by (simp add: one_conn_closed_def one_conn_stopped_def one_conn_def)
qed

lemma one_conn_reach:
  "l_start idle_listener" "reaches (l_step sync_handles 1 stop_callbacks) idle_listener one_conn_stopped"
  "reaches (l_step sync_handles 1 stop_callbacks) idle_listener one_conn_closed"
    apply (simp add: l_start_def idle_listener_def zero_listener_def)
   apply (rule reaches_step [OF reaches_single]; rule one_conn_steps)
  apply (rule reaches_step [OF reaches_step [OF reaches_single]]; rule one_conn_steps)
  done

theorem listener_stopped_exactly_once_witness:
  "trace (l_world one_conn_closed) = [(7, Stopped (Some 5))] \<and> stops one_conn_closed = 1"
  using listener_stopped_exactly_once [OF one_conn_reach(1) one_conn_reach(3)]
  by (auto simp: witness_listener app_call_def)

text \<open>
  C18. Once the application has stopped the listener and the protocol has reported it, ending the
  remaining connections, however many, is enough for the Stopped event to arrive: after the last
  one the application has been told, with the context it registered.
\<close>

theorem listener_stop_completes:
  assumes "l_start s" "reaches (l_step h a cb) s t" "asked t" "\<not> pending t" "0 < conns t"
  shows "\<exists>f. cb_stopped cb = Some f \<and>
    trace ((tapsListenerDeref ^^ conns t) (l_world t)) =
      trace (l_world t) @ [(f, Stopped (l_app_ctx (lst (l_world t))))]"
proof -
  from life.inv_reachable [OF assms(1,2)] have inv: "l_inv cb t" .
  then obtain f where f: "cb_stopped cb = Some f" "l_stopped (lst (l_world t)) = Some f"
    using assms by (auto simp: l_inv_def l_done_def)
  from inv have r: "ref_count (lst (l_world t)) = of_nat (conns t)" "conns t < 2 ^ 32"
    "readyToStop (lst (l_world t))"
    using assms(3,4) by (simp_all add: l_inv_def)
  obtain n where "conns t = Suc n" using assms(5) by (cases "conns t") auto
  with r f show ?thesis using deref_all [of "l_world t" n] by (simp del: funpow.simps)
qed

theorem listener_stop_completes_witness:
  "\<exists>f. cb_stopped stop_callbacks = Some f \<and>
    trace ((tapsListenerDeref ^^ conns one_conn_stopped) (l_world one_conn_stopped)) =
      trace (l_world one_conn_stopped) @ [(f, Stopped (l_app_ctx (lst (l_world one_conn_stopped))))]"
  using listener_stop_completes [OF one_conn_reach(1) one_conn_reach(2)]
  by (simp add: one_conn_stopped_def one_conn_def)

text \<open>
  After the application has stopped the listener, \<open>tapsListenerFree\<close> releases it exactly
  when the Stopped event has been delivered; before that it returns -1 and changes nothing.
\<close>

theorem listener_free_after_stop:
  assumes "l_start s" "reaches (l_step h a cb) s t" "asked t"
  shows "tapsListenerFree h (l_world t) =
    (if stops t = 1 then (0, True, l_world t) else (- 1, False, l_world t))"
  using life.inv_reachable [OF assms(1,2)] assms(3)
  by (auto simp: l_inv_def l_done_def tapsListenerFree_def)

theorem listener_free_after_stop_witness:
  "fst (tapsListenerFree sync_handles (l_world one_conn_stopped)) = - 1 \<and>
   fst (tapsListenerFree sync_handles (l_world one_conn_closed)) = 0"
  using listener_free_after_stop [OF one_conn_reach(1) one_conn_reach(2)]
    listener_free_after_stop [OF one_conn_reach(1) one_conn_reach(3)]
  by (simp add: witness_listener stops_def app_call_def)

text \<open>
  Freeing a listener that was never stopped ends in a call through a null pointer: with no
  live connection as soon as the protocol reports its stop, otherwise when the last connection
  ends. The early branch of \<open>tapsListenerFree\<close> never sets the callback that both call.
\<close>

theorem listener_early_free_null_call:
  assumes "l_start s" "reaches (l_step h a cb) s t" "\<not> asked t"
    and "fst (h_stop h (l_proto_ctx (lst (l_world t))) (proto (l_world t)))"
  shows "faults ((tapsListenerDeref ^^ conns t) (snd (snd (tapsListenerFree h (l_world t))))) = [NullCall]"
proof -
  from life.inv_reachable [OF assms(1,2)] have inv: "l_inv cb t" .
  obtain p' where p: "h_stop h (l_proto_ctx (lst (l_world t))) (proto (l_world t)) = (True, p')"
    using assms(4) by (cases "h_stop h (l_proto_ctx (lst (l_world t))) (proto (l_world t))") auto
  let ?w = "(l_world t)\<lparr>proto := p'\<rparr>"
  have r: "ref_count (lst ?w) = of_nat (conns t)" "conns t < 2 ^ 32" using inv by (simp_all add: l_inv_def)
  show ?thesis
  proof (cases "conns t")
    case 0
    then show ?thesis using inv assms(3) p stopped_count [OF r]
      by (simp add: tapsListenerFree_def call_stop_def l_inv_def)
  next
    case (Suc n)
    then show ?thesis
      using inv assms(3) p stopped_count [OF r]
        deref_all [of "?w\<lparr>lst := (lst ?w)\<lparr>readyToStop := True\<rparr>\<rparr>" n]
      by (simp add: tapsListenerFree_def call_stop_def l_inv_def del: funpow.simps of_nat_Suc)
  qed
qed

theorem listener_early_free_null_call_witness:
  "faults (snd (snd (tapsListenerFree sync_handles (l_world idle_listener)))) = [NullCall]"
  using listener_early_free_null_call [OF one_conn_reach(1) reaches_refl, where h = sync_handles]
  by (simp add: idle_listener_def sync_handles_def)


end
