(* ===== verification/Taps_Connection.thy ===== *)
theory Taps_Connection
  imports Taps_Listener Taps_DList
begin

text \<open>
  The Connection object, src/src/taps_connection.c, and the listener's handler for new
  connections. Connections, queue items, messages and the scatter lists TAPS allocates live in
  heaps; an operation that dereferences a freed or null address adds a fault to the log and ends
  there, except that a read of a freed item continues with the contents it last had. What
  \<open>malloc\<close> returns is an argument. A callback into the application appends to the trace; the
  protocol is reached through its handles. A scatter list handed to the protocol is the message's
  own array (address \<open>None\<close>) or one that TAPS allocated.
\<close>

section \<open>State\<close>

record send_item = dl_links +
  s_message :: addr
  s_connection :: addr
  s_app_ctx :: ctx
  s_sent :: fnptr
  s_expired :: fnptr
  s_sendError :: fnptr

record recv_item = dl_links +
  r_message :: addr
  minLength :: size_t
  maxLength :: size_t
  currLength :: size_t
  r_connection :: addr
  r_app_ctx :: ctx
  r_received :: fnptr
  r_receivedPartial :: fnptr
  r_receiveError :: fnptr

record tapsConnection =
  c_proto_ctx :: ctx
  c_app_ctx :: ctx
  c_handles :: "addr option"
  sndq :: "addr option"
  rcvq :: "addr option"
  c_closed :: fnptr
  c_connectionError :: fnptr
  sendReady :: bool
  receiveReady :: bool
  c_listener :: "addr option"

text \<open>
  The state of a listener with its connections. \<open>freed_handles\<close> are the symbol tables passed
  to \<open>free\<close>.
\<close>

record 'p conn_world = "'p taps_world" +
  cheap :: "tapsConnection heap"
  sheap :: "send_item heap"
  rheap :: "recv_item heap"
  vheap :: "iovec list heap"
  msgs :: "tapsMessage heap"
  freed_handles :: "addr list"

definition log_fault :: "'p conn_world \<Rightarrow> fault + 'p conn_world \<Rightarrow> 'p conn_world" where
  "log_fault w r = (case r of Inl f \<Rightarrow> add_fault f w | Inr w' \<Rightarrow> w')"

definition set_conn :: "addr \<Rightarrow> tapsConnection \<Rightarrow> 'p conn_world \<Rightarrow> 'p conn_world" where
  "set_conn c cn w = w\<lparr>cheap := hput (cheap w) c cn\<rparr>"

section \<open>Creation and end\<close>

definition tapsConnectionNew ::
  "addr option \<Rightarrow> ctx \<Rightarrow> addr option \<Rightarrow> addr option \<Rightarrow> 'p conn_world \<Rightarrow> addr option \<times> 'p conn_world" where
  "tapsConnectionNew alloc proto_ctx handles listener w =
     (case alloc of
        None \<Rightarrow> (None, w)
      | Some c \<Rightarrow>
          (Some c, set_conn c
             \<lparr>c_proto_ctx = proto_ctx, c_app_ctx = None, c_handles = handles, sndq = None, rcvq = None,
              c_closed = None, c_connectionError = None, sendReady = True, receiveReady = True,
              c_listener = listener\<rparr> w))"

definition tapsConnectionInitialize ::
  "addr \<Rightarrow> ctx \<Rightarrow> tapsCallbacks \<Rightarrow> 'p conn_world \<Rightarrow> 'p conn_world" where
  "tapsConnectionInitialize c app_ctx callbacks w =
     log_fault w (andthen (deref (cheap w) c) (\<lambda>cn.
       Inr (set_conn c
         (cn\<lparr>c_app_ctx := (case app_ctx of None \<Rightarrow> Some c | Some a \<Rightarrow> Some a),
             c_closed := cb_closed callbacks, c_connectionError := cb_connectionError callbacks\<rparr>) w)))"

text \<open>
  The lines \<open>_taps_closed\<close> and \<open>_taps_connection_error\<close> share: give the reference on the
  listener back, or release the symbol table of a connection without listener.
\<close>

definition drop_listener :: "addr \<Rightarrow> tapsConnection \<Rightarrow> 'p conn_world \<Rightarrow> 'p conn_world" where
  "drop_listener c cn w =
     (if c_listener cn \<noteq> None then set_conn c (cn\<lparr>c_listener := None\<rparr>) (tapsListenerDeref w)
      else (case c_handles cn of None \<Rightarrow> w | Some a \<Rightarrow> w\<lparr>freed_handles := freed_handles w @ [a]\<rparr>))"

definition taps_closed :: "addr \<Rightarrow> 'p conn_world \<Rightarrow> 'p conn_world" where
  "taps_closed c w =
     log_fault w (andthen (deref (cheap w) c) (\<lambda>cn.
       let w1 = drop_listener c cn w in
       andthen (deref (cheap w1) c) (\<lambda>cn1.
         let w2 = set_conn c (cn1\<lparr>c_proto_ctx := None\<rparr>) w1 in
         Inr (if c_closed cn1 \<noteq> None then app_call (c_closed cn1) (Closed (c_app_ctx cn1)) w2 else w2))))"

definition taps_connection_error :: "addr \<Rightarrow> 'p conn_world \<Rightarrow> 'p conn_world" where
  "taps_connection_error c w =
     log_fault w (andthen (deref (cheap w) c) (\<lambda>cn.
       Inr (app_call (c_connectionError cn) (ConnectionError (c_app_ctx cn) None) (drop_listener c cn w))))"

section \<open>Sending\<close>

definition call_send ::
  "'p proto_handles \<Rightarrow> tapsConnection \<Rightarrow> addr \<Rightarrow> addr \<Rightarrow> 'p conn_world \<Rightarrow> fault + int \<times> 'p conn_world" where
  "call_send h cn a msg w =
     andthen (deref (msgs w) msg) (\<lambda>m.
       let (data, cnt) = tapsMessageGetIovec m in
       if c_handles cn = None then Inl NullDeref
       else
         let (r, p') = h_send h (c_proto_ctx cn) a data cnt (proto w) in
         Inr (r, w\<lparr>proto := p'\<rparr>))"

definition taps_send_common ::
  "'p proto_handles \<Rightarrow> addr \<Rightarrow> addr \<Rightarrow> 'p conn_world \<Rightarrow> fault + int \<times> 'p conn_world" where
  "taps_send_common h c a w =
     andthen (deref (sheap w) a) (\<lambda>it.
     andthen (deref (cheap w) c) (\<lambda>cn.
     andthen (delete_item a (sheap w) (sndq cn)) (\<lambda>(h', tail').
       let cn1 = cn\<lparr>sndq := tail'\<rparr>; w1 = set_conn c cn1 (w\<lparr>sheap := h'\<rparr>) in
       case next_i it of
         None \<Rightarrow> Inr (0, set_conn c (cn1\<lparr>sendReady := True\<rparr>) w1)
       | Some nx \<Rightarrow> andthen (deref h' nx) (\<lambda>nit. call_send h cn1 nx (s_message nit) w1))))"

text \<open>
  The three outcomes the protocol can report for an item. They differ in the callback and in
  the arguments it gets; the result of the next send is only printed.
\<close>

definition taps_sent :: "'p proto_handles \<Rightarrow> addr \<Rightarrow> 'p conn_world \<Rightarrow> 'p conn_world" where
  "taps_sent h a w =
     log_fault w (andthen (deref (sheap w) a) (\<lambda>it.
       andthen (taps_send_common h (s_connection it) a w) (\<lambda>(r, w1).
       andthen (deref (cheap w1) (s_connection it)) (\<lambda>cn.
         Inr (app_call (s_sent it) (Sent (c_app_ctx cn) (s_app_ctx it)) w1)))))"

definition taps_expired :: "'p proto_handles \<Rightarrow> addr \<Rightarrow> 'p conn_world \<Rightarrow> 'p conn_world" where
  "taps_expired h a w =
     log_fault w (andthen (deref (sheap w) a) (\<lambda>it.
       andthen (taps_send_common h (s_connection it) a w) (\<lambda>(r, w1).
       andthen (deref (cheap w1) (s_connection it)) (\<lambda>cn.
         Inr (app_call (s_expired it) (Expired (c_app_ctx cn) (s_app_ctx it)) w1)))))"

definition taps_send_error ::
  "'p proto_handles \<Rightarrow> addr \<Rightarrow> string option \<Rightarrow> 'p conn_world \<Rightarrow> 'p conn_world" where
  "taps_send_error h a reason w =
     log_fault w (andthen (deref (sheap w) a) (\<lambda>it.
       andthen (taps_send_common h (s_connection it) a w) (\<lambda>(r, w1).
       andthen (deref (cheap w1) (s_connection it)) (\<lambda>cn.
         Inr (app_call (s_sendError it)
           (SendError (c_app_ctx cn) (s_app_ctx it)
              (case reason of None \<Rightarrow> ''Protocol failure'' | Some x \<Rightarrow> x)) w1)))))"

text \<open>
  \<open>tapsConnectionSend\<close>. The flag \<open>sendReady\<close> is read but not cleared. After a fault the
  return value means nothing.
\<close>

definition tapsConnectionSend ::
  "'p proto_handles \<Rightarrow> addr option \<Rightarrow> addr \<Rightarrow> addr \<Rightarrow> ctx \<Rightarrow> tapsCallbacks option \<Rightarrow>
    'p conn_world \<Rightarrow> 'p conn_world answer" where
  "tapsConnectionSend h alloc c msg app_ctx callbacks w =
     (case alloc of
        None \<Rightarrow> (- 1, Some ENOMEM, w)
      | Some a \<Rightarrow>
          (case andthen (deref (cheap w) c) (\<lambda>cn.
             case callbacks of None \<Rightarrow> Inl NullDeref
             | Some cb \<Rightarrow>
                 andthen (add_item a \<lparr>next_i = None, prev_i = None, s_message = msg, s_connection = c,
                     s_app_ctx = app_ctx, s_sent = cb_sent cb, s_expired = cb_expired cb,
                     s_sendError = cb_sendError cb\<rparr> (sheap w) (sndq cn)) (\<lambda>(h', tail').
                   let cn1 = cn\<lparr>sndq := tail'\<rparr>; w1 = set_conn c cn1 (w\<lparr>sheap := h'\<rparr>) in
                   if sendReady cn1 then call_send h cn1 a msg w1 else Inr (0, w1)))
           of Inl f \<Rightarrow> (- 1, None, add_fault f w)
            | Inr (r, w1) \<Rightarrow> (r, None, w1)))"

section \<open>Receiving\<close>

text \<open>
  The loop of \<open>_taps_trunc_iovec\<close>. Its second test compares the pointer \<open>iovcnt\<close>, not the
  count it points to, with 0, so only the lengths end the loop; the count is decremented on the
  way and may pass zero.
\<close>

fun trunc_loop :: "iovec list \<Rightarrow> int \<Rightarrow> size_t \<Rightarrow> fault + iovec list \<times> int \<times> size_t" where
  "trunc_loop [] cnt remaining = Inl OutOfBounds"
| "trunc_loop (v # vs) cnt remaining =
     (if iov_len v < remaining then trunc_loop vs (cnt - 1) (remaining - iov_len v)
      else Inr (v # vs, cnt, remaining))"

text \<open>
  \<open>_taps_trunc_iovec\<close>: the new array, if the allocation succeeded, and the new count. The
  copy takes \<open>cnt\<close> elements from where the loop stopped.
\<close>

definition taps_trunc_iovec ::
  "addr option \<Rightarrow> iovec list \<Rightarrow> int \<Rightarrow> size_t \<Rightarrow> fault + (addr \<times> iovec list) option \<times> int" where
  "taps_trunc_iovec alloc orig cnt len =
     andthen (trunc_loop orig cnt len) (\<lambda>(ptr, cnt', remaining).
       case alloc of
         None \<Rightarrow> Inr (None, cnt')
       | Some a \<Rightarrow>
           if length ptr < nat cnt' then Inl OutOfBounds
           else (case take (nat cnt') ptr of
                   [] \<Rightarrow> Inl OutOfBounds
                 | v # vs \<Rightarrow>
                     Inr (Some (a, v\<lparr>iov_base := iov_base v + unat remaining,
                                     iov_len := iov_len v - remaining\<rparr> # vs), cnt')))"

text \<open>\<open>if (iovec != data) free(data)\<close>\<close>

definition free_data :: "addr option \<Rightarrow> 'p conn_world \<Rightarrow> fault + 'p conn_world" where
  "free_data data w =
     (case data of None \<Rightarrow> Inr w
      | Some d \<Rightarrow> andthen (hfree (vheap w) d) (\<lambda>v'. Inr (w\<lparr>vheap := v'\<rparr>)))"

text \<open>\<open>DELETE_ITEM(item, &(c->rcvq))\<close>\<close>

definition delete_recv :: "addr \<Rightarrow> addr \<Rightarrow> 'p conn_world \<Rightarrow> fault + 'p conn_world" where
  "delete_recv c a w =
     andthen (deref (cheap w) c) (\<lambda>cn.
     andthen (delete_item a (rheap w) (rcvq cn)) (\<lambda>(h', tail').
       Inr (set_conn c (cn\<lparr>rcvq := tail'\<rparr>) (w\<lparr>rheap := h'\<rparr>))))"

definition taps_receive_error ::
  "addr \<Rightarrow> addr option \<Rightarrow> string \<Rightarrow> 'p conn_world \<Rightarrow> 'p conn_world" where
  "taps_receive_error a data reason w =
     log_fault w (andthen (deref (rheap w) a) (\<lambda>it.
       andthen (deref (msgs w) (r_message it)) (\<lambda>m.
       andthen (deref (cheap w) (r_connection it)) (\<lambda>cn.
       andthen (free_data data w) (\<lambda>w1.
       andthen (delete_recv (r_connection it) a w1) (\<lambda>w2.
         Inr (app_call (r_receiveError it)
           (ReceiveError (c_app_ctx cn) (r_app_ctx it) reason) w2)))))))"

text \<open>A read of \<open>item->currLength\<close> after the item was freed: the last value, and a fault.\<close>

definition stale_currLength :: "addr \<Rightarrow> 'p conn_world \<Rightarrow> fault + size_t \<times> 'p conn_world" where
  "stale_currLength a w =
     (case rheap w a of None \<Rightarrow> Inl NullDeref
      | Some (Live n) \<Rightarrow> Inr (currLength n, w)
      | Some (Freed n) \<Rightarrow> Inr (currLength n, add_fault UseAfterFree w))"

definition taps_received :: "addr \<Rightarrow> addr option \<Rightarrow> size_t \<Rightarrow> 'p conn_world \<Rightarrow> 'p conn_world" where
  "taps_received a data data_len w =
     log_fault w (andthen (deref (rheap w) a) (\<lambda>it.
       andthen (deref (msgs w) (r_message it)) (\<lambda>m.
       andthen (deref (cheap w) (r_connection it)) (\<lambda>cn.
       andthen (free_data data w) (\<lambda>w1.
         let it1 = it\<lparr>currLength := currLength it + data_len\<rparr>;
             w2 = w1\<lparr>rheap := hput (rheap w1) a it1\<rparr> in
         if currLength it1 < minLength it1
         then Inr (taps_receive_error a None ''Message below minLength'' w2)
         else
           andthen (delete_recv (r_connection it) a w2) (\<lambda>w3.
           andthen (stale_currLength a w3) (\<lambda>(len, w4).
             Inr (app_call (r_received it) (Received (c_app_ctx cn) (r_app_ctx it) len) w4))))))))"

definition call_receive ::
  "'p proto_handles \<Rightarrow> tapsConnection \<Rightarrow> addr \<Rightarrow> addr option \<Rightarrow> iovec list \<Rightarrow> int \<Rightarrow>
    'p conn_world \<Rightarrow> fault + 'p conn_world" where
  "call_receive h cn a own vs cnt w =
     (if c_handles cn = None then Inl NullDeref
      else Inr (w\<lparr>proto := h_receive h (c_proto_ctx cn) a own vs cnt (proto w)\<rparr>))"

text \<open>The next queued receive goes to the protocol, or the connection is marked ready.\<close>

definition next_receive ::
  "'p proto_handles \<Rightarrow> addr \<Rightarrow> recv_item \<Rightarrow> 'p conn_world \<Rightarrow> fault + 'p conn_world" where
  "next_receive h c it w =
     andthen (deref (cheap w) c) (\<lambda>cn.
       case next_i it of
         None \<Rightarrow> Inr (set_conn c (cn\<lparr>receiveReady := True\<rparr>) w)
       | Some nx \<Rightarrow>
           andthen (deref (rheap w) nx) (\<lambda>nit.
           andthen (deref (msgs w) (r_message nit)) (\<lambda>m.
             let (vs, cnt) = tapsMessageGetIovec m in call_receive h cn nx None vs cnt w)))"

definition taps_received_partial ::
  "'p proto_handles \<Rightarrow> addr option \<Rightarrow> addr \<Rightarrow> addr option \<Rightarrow> size_t \<Rightarrow> 'p conn_world \<Rightarrow> 'p conn_world" where
  "taps_received_partial h alloc a data data_len w =
     log_fault w (andthen (deref (rheap w) a) (\<lambda>it.
       andthen (deref (cheap w) (r_connection it)) (\<lambda>cn.
       andthen (deref (msgs w) (r_message it)) (\<lambda>m.
       let (iovec, cnt) = tapsMessageGetIovec m in
       andthen (free_data data w) (\<lambda>w1.
         let it1 = it\<lparr>currLength := currLength it + data_len\<rparr>;
             w2 = w1\<lparr>rheap := hput (rheap w1) a it1\<rparr> in
         if currLength it1 < minLength it1
         then
           andthen (taps_trunc_iovec alloc iovec cnt (currLength it1)) (\<lambda>(newIovec, cnt').
             case newIovec of
               None \<Rightarrow> Inr (taps_receive_error a None ''Internal error'' w2)
             | Some (v, vs) \<Rightarrow>
                 call_receive h cn a (Some v) vs cnt' (w2\<lparr>vheap := hput (vheap w2) v vs\<rparr>))
         else
           andthen (next_receive h (r_connection it) it1 w2) (\<lambda>w3.
           andthen (delete_recv (r_connection it) a w3) (\<lambda>w4.
           andthen (deref (cheap w4) (r_connection it)) (\<lambda>cn'.
           andthen (stale_currLength a w4) (\<lambda>(len, w5).
             Inr (app_call (r_receivedPartial it)
               (ReceivedPartial (c_app_ctx cn') (r_app_ctx it) len False) w5))))))))))"

definition tapsConnectionReceive ::
  "'p proto_handles \<Rightarrow> addr option \<Rightarrow> addr \<Rightarrow> ctx \<Rightarrow> addr \<Rightarrow> size_t \<Rightarrow> size_t \<Rightarrow> tapsCallbacks option \<Rightarrow>
    'p conn_world \<Rightarrow> 'p conn_world answer" where
  "tapsConnectionReceive h alloc c app_ctx msg minIncompleteLength maxLen callbacks w =
     (case callbacks of
        None \<Rightarrow> (- 1, Some EINVAL, w)
      | Some cb \<Rightarrow>
          if cb_received cb = None \<or> cb_receivedPartial cb = None \<or> cb_receiveError cb = None
          then (- 1, Some EINVAL, w)
          else
            (case andthen (deref (cheap w) c) (\<lambda>cn.
               case alloc of None \<Rightarrow> Inl NullDeref
               | Some a \<Rightarrow>
                   andthen (add_item a \<lparr>next_i = None, prev_i = None, r_message = msg,
                       minLength = minIncompleteLength, maxLength = maxLen, currLength = 0,
                       r_connection = c, r_app_ctx = app_ctx, r_received = cb_received cb,
                       r_receivedPartial = cb_receivedPartial cb, r_receiveError = cb_receiveError cb\<rparr>
                       (rheap w) (rcvq cn)) (\<lambda>(h', tail').
                     let cn1 = cn\<lparr>rcvq := tail'\<rparr>; w1 = set_conn c cn1 (w\<lparr>rheap := h'\<rparr>) in
                     if receiveReady cn1 then
                       let cn2 = cn1\<lparr>receiveReady := False\<rparr>; w2 = set_conn c cn2 w1 in
                       andthen (deref (msgs w2) msg) (\<lambda>m.
                         let (vs, cnt) = tapsMessageGetIovec m in call_receive h cn2 a None vs cnt w2)
                     else Inr w1))
             of Inl f \<Rightarrow> (- 1, None, add_fault f w)
              | Inr w1 \<Rightarrow> (0, None, w1)))"

section \<open>Release\<close>

text \<open>
  \<open>DELETE_ITEM(c->sndq, &(c->sndq))\<close>: the macro's \<open>item\<close> is the tail pointer itself, so
  the final \<open>free(item)\<close> frees what the tail points to after the update. \<open>free(NULL)\<close> does
  nothing.
\<close>

definition delete_tail ::
  "'a dl_links_scheme heap \<Rightarrow> addr \<Rightarrow> fault + 'a dl_links_scheme heap \<times> addr option" where
  "delete_tail h t =
     andthen (deref h t) (\<lambda>it.
     andthen (unlink_prev it h) (\<lambda>h1.
     andthen (unlink_next it h1 (Some t)) (\<lambda>(h2, tail').
       case tail' of None \<Rightarrow> Inr (h2, None)
       | Some x \<Rightarrow> andthen (hfree h2 x) (\<lambda>h3. Inr (h3, tail')))))"

text \<open>
  The loop of \<open>tapsConnectionFree\<close> over one queue: the items whose error callback was called,
  the heap after it, and the fault that stopped it, if any. Each round leaves the tail pointer
  null or pointing to a freed item.
\<close>

lemma delete_tail_freed: "delete_tail h t = Inr (h', Some x) \<Longrightarrow> \<exists>n. h' x = Some (Freed n)"
  by (auto simp: delete_tail_def andthen_def split: sum.splits option.splits prod.splits)

function flush_queue ::
  "'a dl_links_scheme heap \<Rightarrow> addr option \<Rightarrow>
    'a dl_links_scheme list \<times> 'a dl_links_scheme heap \<times> fault option" where
  "flush_queue h None = ([], h, None)"
| "flush_queue h (Some t) =
     (case deref h t of
        Inl f \<Rightarrow> ([], h, Some f)
      | Inr it \<Rightarrow>
          (case delete_tail h t of
             Inl f \<Rightarrow> ([it], h, Some f)
           | Inr (h', tail') \<Rightarrow>
               let (its, h'', f) = flush_queue h' tail' in (it # its, h'', f)))"
  by pat_completeness auto

termination
proof (relation "measure (\<lambda>(h, t). case t of None \<Rightarrow> 0
    | Some a \<Rightarrow> (case h a of Some (Live _) \<Rightarrow> 2 | _ \<Rightarrow> (1 :: nat)))", goal_cases)
  case (2 h t it p h' tail')
  then show ?case using delete_tail_freed [of h t h'] by (cases tail') auto
qed simp

definition call_all :: "('i \<Rightarrow> fnptr \<times> app_callback) \<Rightarrow> 'i list \<Rightarrow> 'p conn_world \<Rightarrow> 'p conn_world" where
  "call_all f its w = fold (\<lambda>it w. app_call (fst (f it)) (snd (f it)) w) its w"

definition tapsConnectionFree :: "addr \<Rightarrow> 'p conn_world \<Rightarrow> 'p conn_world" where
  "tapsConnectionFree c w =
     log_fault w (andthen (deref (cheap w) c) (\<lambda>cn.
       let (its, sh, f) = flush_queue (sheap w) (sndq cn);
           w1 = call_all (\<lambda>it. (s_sendError it,
                  SendError (c_app_ctx cn) (s_app_ctx it) ''Connection died'')) its (w\<lparr>sheap := sh\<rparr>)
       in case f of
         Some e \<Rightarrow> Inr (add_fault e w1)
       | None \<Rightarrow>
           let (rits, rh, f') = flush_queue (rheap w1) (rcvq cn);
               w2 = call_all (\<lambda>it. (r_receiveError it,
                      ReceiveError (c_app_ctx cn) (r_app_ctx it) ''Connection died'')) rits (w1\<lparr>rheap := rh\<rparr>)
           in case f' of
             Some e \<Rightarrow> Inr (add_fault e w2)
           | None \<Rightarrow> andthen (hfree (cheap w2) c) (\<lambda>ch. Inr (w2\<lparr>cheap := ch\<rparr>))))"

section \<open>A new connection on a listener\<close>

text \<open>
  \<open>_taps_connection_received\<close> up to the application's callback: \<open>handles\<close> is the address
  of the listener's symbol table.
\<close>

definition taps_connection_received_begin ::
  "addr option \<Rightarrow> addr \<Rightarrow> addr \<Rightarrow> ctx \<Rightarrow> 'p conn_world \<Rightarrow> addr option \<times> 'p conn_world" where
  "taps_connection_received_begin alloc l handles proto_ctx w =
     (case tapsConnectionNew alloc proto_ctx (Some handles) (Some l) w of
        (None, w1) \<Rightarrow> (None, w1)
      | (Some c, w1) \<Rightarrow>
          let w2 = listener_ref w1 in
          (Some c, app_call (l_connectionReceived (lst w2)) (ConnectionReceived (l_app_ctx (lst w2)) c) w2))"

text \<open>The rest of it, with the context the callback returned and the callbacks it stored.\<close>

definition taps_connection_received_end ::
  "addr \<Rightarrow> ctx \<Rightarrow> tapsCallbacks option \<Rightarrow> 'p conn_world \<Rightarrow> addr option \<times> 'p conn_world" where
  "taps_connection_received_end c app_ctx callbacks w =
     (case callbacks of
        None \<Rightarrow> (None, taps_closed c w)
      | Some cb \<Rightarrow>
          if cb_closed cb = None \<or> cb_connectionError cb = None then (None, taps_closed c w)
          else (Some c, tapsConnectionInitialize c app_ctx cb w))"

text \<open>
  The whole handler for an application whose callback only answers: \<open>accept\<close> gives its context
  for the connection and the callbacks it stores.
\<close>

definition taps_connection_received ::
  "(ctx \<Rightarrow> addr \<Rightarrow> ctx \<times> tapsCallbacks option) \<Rightarrow> addr option \<Rightarrow> addr \<Rightarrow> addr \<Rightarrow> ctx \<Rightarrow>
    'p conn_world \<Rightarrow> addr option \<times> 'p conn_world" where
  "taps_connection_received accept alloc l handles proto_ctx w =
     (case taps_connection_received_begin alloc l handles proto_ctx w of
        (None, w1) \<Rightarrow> (None, w1)
      | (Some c, w1) \<Rightarrow>
          let (app_ctx, callbacks) = accept (l_app_ctx (lst w1)) c
          in taps_connection_received_end c app_ctx callbacks w1)"

section \<open>Simplification of the state\<close>

lemma set_conn_simps [simp]:
  "cheap (set_conn c cn w) = hput (cheap w) c cn" "sheap (set_conn c cn w) = sheap w"
  "rheap (set_conn c cn w) = rheap w" "vheap (set_conn c cn w) = vheap w"
  "msgs (set_conn c cn w) = msgs w" "freed_handles (set_conn c cn w) = freed_handles w"
  "lst (set_conn c cn w) = lst w" "proto (set_conn c cn w) = proto w"
  "trace (set_conn c cn w) = trace w" "faults (set_conn c cn w) = faults w"
  by (simp_all add: set_conn_def)

lemma add_fault_conn [simp]:
  "cheap (add_fault f w) = cheap w" "sheap (add_fault f w) = sheap w"
  "rheap (add_fault f w) = rheap w" "vheap (add_fault f w) = vheap w"
  "msgs (add_fault f w) = msgs w" "freed_handles (add_fault f w) = freed_handles w"
  by (simp_all add: add_fault_def)

lemma app_call_conn [simp]:
  "cheap (app_call fn e w) = cheap w" "sheap (app_call fn e w) = sheap w"
  "rheap (app_call fn e w) = rheap w" "vheap (app_call fn e w) = vheap w"
  "msgs (app_call fn e w) = msgs w" "freed_handles (app_call fn e w) = freed_handles w"
  by (simp_all add: app_call_def split: option.splits)

lemma log_fault_Inr [simp]: "log_fault w (Inr w') = w'"
  by (simp add: log_fault_def)

section \<open>The send queue\<close>

text \<open>
  A connection \<open>c\<close> with the send queue \<open>xs\<close>: every queued item belongs to it and its
  message still exists.
\<close>

definition send_ok :: "addr \<Rightarrow> addr list \<Rightarrow> 'p conn_world \<Rightarrow> bool" where
  "send_ok c xs w \<longleftrightarrow>
     (\<exists>cn. cheap w c = Some (Live cn) \<and> c_handles cn \<noteq> None \<and> item_queue (sheap w) (sndq cn) xs) \<and>
     (\<forall>a\<in>set xs. \<exists>v. view (sheap w) a = Some v \<and> s_connection v = c \<and> allocated (msgs w) (s_message v))"

text \<open>What an operation on the send side leaves alone.\<close>

definition send_frame :: "'p conn_world \<Rightarrow> 'p conn_world \<Rightarrow> bool" where
  "send_frame w w' \<longleftrightarrow> lst w' = lst w \<and> rheap w' = rheap w \<and> vheap w' = vheap w \<and>
     msgs w' = msgs w \<and> faults w' = faults w \<and> freed_handles w' = freed_handles w"

lemma call_send_ok:
  assumes "c_handles cn \<noteq> None" "msgs w msg = Some (Live m)"
  shows "call_send h cn a msg w =
    (let (r, p') = h_send h (c_proto_ctx cn) a (msg_vec m) (iovcnt m) (proto w) in Inr (r, w\<lparr>proto := p'\<rparr>))"
  using assms by (auto simp: call_send_def tapsMessageGetIovec_def)

text \<open>The call the protocol gets for a queued item, as a function of the protocol state.\<close>

definition hand_over :: "'p proto_handles \<Rightarrow> ctx \<Rightarrow> addr \<Rightarrow> 'p conn_world \<Rightarrow> int \<times> 'p" where
  "hand_over h pctx b w =
     (case view (sheap w) b of
        None \<Rightarrow> (0, proto w)
      | Some v \<Rightarrow> (case msgs w (s_message v) of
            Some (Live m) \<Rightarrow> h_send h pctx b (msg_vec m) (iovcnt m) (proto w)
          | _ \<Rightarrow> (0, proto w)))"

lemma send_common_ok:
  assumes ok: "send_ok c (xs @ a # ys) w" and cn: "cheap w c = Some (Live cn)"
  shows "\<exists>r w1. taps_send_common h c a w = Inr (r, w1) \<and> send_ok c (xs @ ys) w1 \<and>
    send_frame w w1 \<and> trace w1 = trace w \<and>
    (\<exists>q. cheap w1 = hput (cheap w) c (cn\<lparr>sndq := q, sendReady := (ys = [] \<or> sendReady cn)\<rparr>)) \<and>
    (\<forall>b. b \<noteq> a \<longrightarrow> view (sheap w1) b = view (sheap w) b) \<and>
    proto w1 = (case ys of [] \<Rightarrow> proto w | b # _ \<Rightarrow> snd (hand_over h (c_proto_ctx cn) b w))"
proof -
  from ok cn have q: "item_queue (sheap w) (sndq cn) (xs @ a # ys)" and hd: "c_handles cn \<noteq> None"
    by (auto simp: send_ok_def)
  then obtain it where it: "sheap w a = Some (Live it)" using item_queue_live by fastforce
  have nx: "next_i it = hd_or None ys" using q it by (auto simp: item_queue_def)
  have dist: "a \<notin> set xs" "a \<notin> set ys" using q by (auto simp: item_queue_def)
  obtain h' q' where d: "delete_item a (sheap w) (sndq cn) = Inr (h', q')"
    and q': "item_queue h' q' (xs @ ys)" and v: "\<And>b. b \<noteq> a \<Longrightarrow> view h' b = view (sheap w) b"
    using delete_item_queue [OF q it] view_cong by blast
  have items: "\<forall>b\<in>set (xs @ ys). \<exists>u. view h' b = Some u \<and> s_connection u = c \<and> allocated (msgs w) (s_message u)"
  proof
    fix b assume b: "b \<in> set (xs @ ys)"
    then have "view h' b = view (sheap w) b" using v dist by (metis Un_iff set_append)
    with ok b show "\<exists>u. view h' b = Some u \<and> s_connection u = c \<and> allocated (msgs w) (s_message u)"
      by (simp add: send_ok_def)
  qed
  show ?thesis
  proof (cases ys)
    case Nil
    then show ?thesis using it cn nx d q' v items hd
      by (auto simp: taps_send_common_def send_ok_def send_frame_def hput_def Let_def
          intro!: exI [of _ q'])
  next
    case (Cons b bs)
    with items obtain u where u: "view h' b = Some u" "allocated (msgs w) (s_message u)" by auto
    then obtain nit where nit: "h' b = Some (Live nit)" and un: "s_message u = s_message nit"
      by (auto elim!: view_SomeE)
    obtain m where m: "msgs w (s_message nit) = Some (Live m)" using u un by (auto simp: allocated_def)
    have "b \<noteq> a" using dist Cons by auto
    then have vb: "view (sheap w) b = Some u" using v u by simp
    then show ?thesis using it cn nx d q' v items hd Cons nit m un vb
      by (auto simp: taps_send_common_def send_ok_def send_frame_def call_send_ok hand_over_def
          split: prod.splits intro!: exI [of _ q'])
  qed
qed

text \<open>
  The three reports of the protocol as one operation: which handler runs, which event the
  application gets and through which function.
\<close>

datatype outcome = OSent | OExpired | OError "string option"

fun outcome_op :: "'p proto_handles \<Rightarrow> outcome \<Rightarrow> addr \<Rightarrow> 'p conn_world \<Rightarrow> 'p conn_world" where
  "outcome_op h OSent a w = taps_sent h a w"
| "outcome_op h OExpired a w = taps_expired h a w"
| "outcome_op h (OError r) a w = taps_send_error h a r w"

fun outcome_call :: "outcome \<Rightarrow> ctx \<Rightarrow> send_item \<Rightarrow> app_callback" where
  "outcome_call OSent conn v = Sent conn (s_app_ctx v)"
| "outcome_call OExpired conn v = Expired conn (s_app_ctx v)"
| "outcome_call (OError r) conn v =
     SendError conn (s_app_ctx v) (case r of None \<Rightarrow> ''Protocol failure'' | Some x \<Rightarrow> x)"

fun outcome_fn :: "outcome \<Rightarrow> send_item \<Rightarrow> fnptr" where
  "outcome_fn OSent v = s_sent v"
| "outcome_fn OExpired v = s_expired v"
| "outcome_fn (OError r) v = s_sendError v"

lemma outcome_ok:
  assumes ok: "send_ok c (xs @ a # ys) w" and cn: "cheap w c = Some (Live cn)"
    and v: "view (sheap w) a = Some v" and f: "outcome_fn oc v = Some f"
    and op: "op = outcome_op h oc a w"
  shows "send_ok c (xs @ ys) op \<and> send_frame w op \<and>
    trace op = trace w @ [(f, outcome_call oc (c_app_ctx cn) v)] \<and>
    (\<forall>b. b \<noteq> a \<longrightarrow> view (sheap op) b = view (sheap w) b) \<and>
    (\<exists>q. cheap op = hput (cheap w) c (cn\<lparr>sndq := q, sendReady := (ys = [] \<or> sendReady cn)\<rparr>)) \<and>
    proto op = (case ys of [] \<Rightarrow> proto w | b # _ \<Rightarrow> snd (hand_over h (c_proto_ctx cn) b w))"
proof -
  from v obtain it where it: "sheap w a = Some (Live it)" and vit: "v = it\<lparr>next_i := None, prev_i := None\<rparr>"
    by (rule view_SomeE)
  have conn: "s_connection it = c" using ok v vit by (auto simp: send_ok_def)
  from send_common_ok [OF ok cn, of h] obtain r' w1 where
    w1: "taps_send_common h c a w = Inr (r', w1)" "send_ok c (xs @ ys) w1" "send_frame w w1"
      "trace w1 = trace w" "\<forall>b. b \<noteq> a \<longrightarrow> view (sheap w1) b = view (sheap w) b"
      "proto w1 = (case ys of [] \<Rightarrow> proto w | b # _ \<Rightarrow> snd (hand_over h (c_proto_ctx cn) b w))"
    and "\<exists>q. cheap w1 = hput (cheap w) c (cn\<lparr>sndq := q, sendReady := (ys = [] \<or> sendReady cn)\<rparr>)" by blast
  then obtain q where q: "cheap w1 = hput (cheap w) c (cn\<lparr>sndq := q, sendReady := (ys = [] \<or> sendReady cn)\<rparr>)"
    by blast
  have "op = app_call (Some f) (outcome_call oc (c_app_ctx cn) v) w1"
    using op f it conn w1(1) q vit
    by (cases oc) (auto simp: taps_sent_def taps_expired_def taps_send_error_def)
  then show ?thesis using w1 q by (auto simp: send_ok_def send_frame_def)
qed

lemma send_new_ok:
  assumes ok: "send_ok c xs w" and cn: "cheap w c = Some (Live cn)"
    and a: "\<not> allocated (sheap w) a" and m: "msgs w msg = Some (Live m)"
  shows "\<exists>r w1. tapsConnectionSend h (Some a) c msg app (Some cb) w = (r, None, w1) \<and>
    send_ok c (xs @ [a]) w1 \<and> send_frame w w1 \<and> trace w1 = trace w \<and>
    cheap w1 = hput (cheap w) c (cn\<lparr>sndq := Some a\<rparr>) \<and>
    view (sheap w1) a = Some \<lparr>next_i = None, prev_i = None, s_message = msg, s_connection = c,
      s_app_ctx = app, s_sent = cb_sent cb, s_expired = cb_expired cb, s_sendError = cb_sendError cb\<rparr> \<and>
    (\<forall>b. b \<noteq> a \<longrightarrow> view (sheap w1) b = view (sheap w) b) \<and>
    (r, proto w1) = (if sendReady cn then h_send h (c_proto_ctx cn) a (msg_vec m) (iovcnt m) (proto w)
      else (0, proto w))"
proof -
  let ?new = "\<lparr>next_i = None, prev_i = None, s_message = msg, s_connection = c,
      s_app_ctx = app, s_sent = cb_sent cb, s_expired = cb_expired cb, s_sendError = cb_sendError cb\<rparr>"
  from ok cn have q: "item_queue (sheap w) (sndq cn) xs" and hd: "c_handles cn \<noteq> None"
    and items: "\<forall>b\<in>set xs. \<exists>u. view (sheap w) b = Some u \<and> s_connection u = c \<and> allocated (msgs w) (s_message u)"
    by (auto simp: send_ok_def)
  have axs: "a \<notin> set xs" using q a item_queue_live by (fastforce simp: allocated_def)
  obtain h' where h': "add_item a ?new (sheap w) (sndq cn) = Inr (h', Some a)"
    "item_queue h' (Some a) (xs @ [a])" and p: "payload h' a = Some (dl_links.more ?new)"
    and v: "\<And>b. b \<noteq> a \<Longrightarrow> view h' b = view (sheap w) b"
    using add_item_queue [OF q a, of ?new] view_cong by blast
  have va: "view h' a = Some ?new" using p by (simp add: view_def dl_links.extend_def)
  have items': "\<forall>b\<in>set (xs @ [a]). \<exists>u. view h' b = Some u \<and> s_connection u = c \<and> allocated (msgs w) (s_message u)"
  proof
    fix b assume b: "b \<in> set (xs @ [a])"
    show "\<exists>u. view h' b = Some u \<and> s_connection u = c \<and> allocated (msgs w) (s_message u)"
      using b va m items v [of b] by (cases "b = a") (auto simp: allocated_def)
  qed
  show ?thesis using cn h' va v items' hd m
    by (auto simp: tapsConnectionSend_def send_ok_def send_frame_def call_send_ok Let_def split: prod.splits)
qed

section \<open>A concrete state\<close>

text \<open>
  One accepted connection at address 1 with two messages of 8 bytes, and a protocol that records
  the calls it gets: used to check that the hypotheses of the theorems can hold.
\<close>

datatype log_entry = LSend addr int | LReceive addr "addr option" int

definition recorder :: "log_entry list proto_handles" where
  "recorder = \<lparr>h_listen = (\<lambda>_ p. (Some 1, p)), h_stop = (\<lambda>_ p. (True, p)),
     h_send = (\<lambda>_ a _ n p. (0, p @ [LSend a n])),
     h_receive = (\<lambda>_ a own _ n p. p @ [LReceive a own n])\<rparr>"

definition all_callbacks :: tapsCallbacks where
  "all_callbacks = \<lparr>cb_connectionReceived = Some 1, cb_establishmentError = Some 2,
     cb_stopped = Some 3, cb_sent = Some 4, cb_expired = Some 5, cb_sendError = Some 6,
     cb_received = Some 7, cb_receivedPartial = Some 8, cb_receiveError = Some 9,
     cb_closed = Some 10, cb_connectionError = Some 11\<rparr>"

definition demo_message :: "addr \<Rightarrow> tapsMessage" where
  "demo_message a = \<lparr>buf = \<lparr>iov_base = a, iov_len = 8\<rparr>, list_m = None, iovcnt = 1\<rparr>"

definition demo_conn :: tapsConnection where
  "demo_conn = \<lparr>c_proto_ctx = Some 50, c_app_ctx = Some 60, c_handles = Some 70, sndq = None,
     rcvq = None, c_closed = Some 10, c_connectionError = Some 11, sendReady = True,
     receiveReady = True, c_listener = Some 80\<rparr>"

definition demo_world :: "log_entry list conn_world" where
  "demo_world = \<lparr>lst = zero_listener\<lparr>ref_count := 1, l_connectionReceived := Some 1, l_app_ctx := Some 5\<rparr>,
     proto = [], trace = [], faults = [], cheap = [1 \<mapsto> Live demo_conn], sheap = Map.empty,
     rheap = Map.empty, vheap = Map.empty, msgs = [2 \<mapsto> Live (demo_message 1000), 3 \<mapsto> Live (demo_message 2000)],
     freed_handles = []\<rparr>"

lemmas demo_defs = demo_world_def demo_conn_def demo_message_def all_callbacks_def recorder_def

end
