(* ===== verification/Taps_Send.thy ===== *)
theory Taps_Send
  imports Taps_Connection
begin

text \<open>
  The send side of a connection as a state machine: the application queues messages, the
  protocol reports an outcome for the oldest one. Properties of src/src/taps_connection.c,
  \<open>tapsConnectionSend\<close>, \<open>_taps_send_common\<close> and its three callers.
\<close>

section \<open>The machine\<close>

text \<open>\<open>issued\<close> records the application contexts passed to \<open>tapsConnectionSend\<close>, in order.\<close>

record 'p send_state =
  sw :: "'p conn_world"
  issued :: "ctx list"

fun outcome_ctx :: "app_callback \<Rightarrow> ctx list" where
  "outcome_ctx (Sent _ a) = [a]"
| "outcome_ctx (Expired _ a) = [a]"
| "outcome_ctx (SendError _ a _) = [a]"
| "outcome_ctx _ = []"

definition outcomes :: "app_event list \<Rightarrow> ctx list" where
  "outcomes tr = concat (map (outcome_ctx \<circ> snd) tr)"

definition oldest :: "addr \<Rightarrow> 'p conn_world \<Rightarrow> addr \<Rightarrow> bool" where
  "oldest c w a \<longleftrightarrow> (\<exists>cn ys. cheap w c = Some (Live cn) \<and> item_queue (sheap w) (sndq cn) (a # ys))"

definition send_callbacks :: "tapsCallbacks \<Rightarrow> bool" where
  "send_callbacks cb \<longleftrightarrow> cb_sent cb \<noteq> None \<and> cb_expired cb \<noteq> None \<and> cb_sendError cb \<noteq> None"

definition send_start :: "addr \<Rightarrow> 'p send_state \<Rightarrow> bool" where
  "send_start c s \<longleftrightarrow> send_ok c [] (sw s) \<and> issued s = [] \<and> trace (sw s) = [] \<and> faults (sw s) = []"

text \<open>
  Steps: the application sends, the protocol reports on the oldest item, the protocol works on
  its own.
\<close>

inductive send_step :: "'p proto_handles \<Rightarrow> addr \<Rightarrow> 'p send_state \<Rightarrow> 'p send_state \<Rightarrow> bool" for h c where
  send_issue: "\<not> allocated (sheap (sw s)) a \<Longrightarrow> allocated (msgs (sw s)) msg \<Longrightarrow> send_callbacks cb \<Longrightarrow>
    send_step h c s (s\<lparr>sw := snd (snd (tapsConnectionSend h (Some a) c msg app (Some cb) (sw s))),
      issued := issued s @ [app]\<rparr>)"
| send_report: "oldest c (sw s) a \<Longrightarrow> send_step h c s (s\<lparr>sw := outcome_op h oc a (sw s)\<rparr>)"
| send_proto: "send_step h c s (s\<lparr>sw := (sw s)\<lparr>proto := p\<rparr>\<rparr>)"

text \<open>
  The queued items are those issued and not yet reported, in order, and each can still report.
\<close>

definition send_queue_ok :: "addr \<Rightarrow> addr list \<Rightarrow> 'p send_state \<Rightarrow> bool" where
  "send_queue_ok c xs s \<longleftrightarrow> send_ok c xs (sw s) \<and> faults (sw s) = [] \<and>
     issued s = outcomes (trace (sw s)) @ map (\<lambda>a. s_app_ctx (the (view (sheap (sw s)) a))) xs \<and>
     (\<forall>a\<in>set xs. \<forall>v. view (sheap (sw s)) a = Some v \<longrightarrow>
        s_sent v \<noteq> None \<and> s_expired v \<noteq> None \<and> s_sendError v \<noteq> None)"

definition send_inv :: "addr \<Rightarrow> 'p send_state \<Rightarrow> bool" where
  "send_inv c s \<longleftrightarrow> (\<exists>xs. send_queue_ok c xs s)"

lemma send_inv_issue:
  assumes q: "send_queue_ok c xs s" and a: "\<not> allocated (sheap (sw s)) a"
    and m: "allocated (msgs (sw s)) msg" and cb: "send_callbacks cb"
  shows "send_queue_ok c (xs @ [a])
    (s\<lparr>sw := snd (snd (tapsConnectionSend h (Some a) c msg app (Some cb) (sw s))), issued := issued s @ [app]\<rparr>)"
proof -
  from q obtain cn where cn: "cheap (sw s) c = Some (Live cn)" "item_queue (sheap (sw s)) (sndq cn) xs"
    by (auto simp: send_queue_ok_def send_ok_def)
  then have new: "x \<noteq> a" if "x \<in> set xs" for x
    using a item_queue_live that by (fastforce simp: allocated_def)
  from m obtain m' where "msgs (sw s) msg = Some (Live m')" by (auto simp: allocated_def)
  from send_new_ok [OF _ cn(1) a this, of xs h app cb] q cb new show ?thesis
    by (auto simp: send_queue_ok_def send_frame_def send_callbacks_def)
qed

lemma outcomes_snoc:
  "outcomes (tr @ [(f, outcome_call oc conn v)]) = outcomes tr @ [s_app_ctx v]"
  by (cases oc) (simp_all add: outcomes_def)

lemma send_inv_outcome:
  assumes q: "send_queue_ok c xs s" and old: "oldest c (sw s) a"
  shows "send_queue_ok c (tl xs) (s\<lparr>sw := outcome_op h oc a (sw s)\<rparr>)"
proof -
  from q old obtain cn ys where cn: "cheap (sw s) c = Some (Live cn)" and xs: "xs = a # ys"
    using item_queue_unique by (fastforce simp: send_queue_ok_def send_ok_def oldest_def)
  from q xs obtain v f where v: "view (sheap (sw s)) a = Some v" and f: "outcome_fn oc v = Some f"
    by (cases oc) (auto simp: send_queue_ok_def send_ok_def)
  have ok: "send_ok c ([] @ a # ys) (sw s)" using q xs by (simp add: send_queue_ok_def)
  then have d: "a \<notin> set ys" by (auto simp: send_ok_def item_queue_def)
  let ?w = "outcome_op h oc a (sw s)"
  from outcome_ok [OF ok cn v f refl, of h]
  have w: "send_ok c ys ?w" "send_frame (sw s) ?w"
    "trace ?w = trace (sw s) @ [(f, outcome_call oc (c_app_ctx cn) v)]"
    "\<And>b. b \<in> set ys \<Longrightarrow> view (sheap ?w) b = view (sheap (sw s)) b"
    using d by auto
  then have "map (\<lambda>a. s_app_ctx (the (view (sheap ?w) a))) ys =
      map (\<lambda>a. s_app_ctx (the (view (sheap (sw s)) a))) ys" by simp
  then show ?thesis using q xs v w
    by (auto simp: send_queue_ok_def send_frame_def outcomes_snoc)
qed

lemma send_inv_step: "send_step h c s t \<Longrightarrow> send_inv c s \<Longrightarrow> send_inv c t"
proof (induction rule: send_step.induct)
  case (send_issue s a msg cb app)
  then show ?case unfolding send_inv_def using send_inv_issue by blast
next
  case (send_report s a oc)
  then show ?case unfolding send_inv_def using send_inv_outcome by blast
next
  case (send_proto s p)
  then show ?case by (auto simp: send_inv_def send_queue_ok_def send_ok_def)
qed

interpretation sending: inv_system "send_start c" "send_step h c" "send_inv c"
proof
  fix s :: "'a send_state"
  assume "send_start c s"
  then have "send_queue_ok c [] s" by (auto simp: send_start_def send_queue_ok_def outcomes_def)
  then show "send_inv c s" by (auto simp: send_inv_def)
qed (rule send_inv_step)

section \<open>Properties\<close>


text \<open>Two sends on a fresh connection, then the protocol reports the first as sent.\<close>

definition demo_send :: "addr \<Rightarrow> addr \<Rightarrow> ctx \<Rightarrow> log_entry list send_state \<Rightarrow> log_entry list send_state" where
  "demo_send a msg app s =
     s\<lparr>sw := snd (snd (tapsConnectionSend recorder (Some a) 1 msg app (Some all_callbacks) (sw s))),
       issued := issued s @ [app]\<rparr>"

definition demo_sends :: "log_entry list send_state" where
  "demo_sends = demo_send 21 3 (Some 91) (demo_send 20 2 (Some 90) \<lparr>sw = demo_world, issued = []\<rparr>)"

definition demo_reported :: "log_entry list send_state" where
  "demo_reported = demo_sends\<lparr>sw := outcome_op recorder OSent 20 (sw demo_sends)\<rparr>"

lemma demo_start: "send_start 1 \<lparr>sw = demo_world, issued = []\<rparr>"
  by (simp add: send_start_def send_ok_def demo_defs)

lemma demo_sends_steps:
  "reaches (send_step recorder 1) \<lparr>sw = demo_world, issued = []\<rparr> demo_sends"
proof -
  have 1: "send_step recorder 1 \<lparr>sw = demo_world, issued = []\<rparr> (demo_send 20 2 (Some 90) \<lparr>sw = demo_world, issued = []\<rparr>)"
    unfolding demo_send_def
    by (rule send_issue) (simp_all add: send_callbacks_def demo_defs allocated_def)
  have 2: "send_step recorder 1 (demo_send 20 2 (Some 90) \<lparr>sw = demo_world, issued = []\<rparr>) demo_sends"
    unfolding demo_sends_def demo_send_def [of 21]
    by (rule send_issue)
      (simp_all add: send_callbacks_def demo_send_def tapsConnectionSend_def call_send_def
        tapsMessageGetIovec_def add_item_def Let_def demo_defs allocated_def)
  show ?thesis by (rule reaches_step [of "send_step recorder 1", OF reaches_single [of "send_step recorder 1", OF 1] 2])
qed

lemma demo_sends_facts:
  "cheap (sw demo_sends) 1 = Some (Live (demo_conn\<lparr>sndq := Some 21\<rparr>))"
  "item_queue (sheap (sw demo_sends)) (Some 21) [20, 21]"
  "view (sheap (sw demo_sends)) 20 = Some \<lparr>next_i = None, prev_i = None, s_message = 2, s_connection = 1,
      s_app_ctx = Some 90, s_sent = Some 4, s_expired = Some 5, s_sendError = Some 6\<rparr>"
  "view (sheap (sw demo_sends)) 21 = Some \<lparr>next_i = None, prev_i = None, s_message = 3, s_connection = 1,
      s_app_ctx = Some 91, s_sent = Some 4, s_expired = Some 5, s_sendError = Some 6\<rparr>"
  "msgs (sw demo_sends) = msgs demo_world" "proto (sw demo_sends) = [LSend 20 1, LSend 21 1]"
  "trace (sw demo_sends) = []" "faults (sw demo_sends) = []"
  by (simp_all add: demo_sends_def demo_send_def tapsConnectionSend_def call_send_def item_queue_def
      tapsMessageGetIovec_def add_item_def Let_def demo_defs view_def payload_def dl_links.extend_def)

lemma demo_sends_ok: "send_ok 1 ([] @ 20 # [21]) (sw demo_sends)"
  using demo_sends_facts by (simp add: send_ok_def demo_defs allocated_def)

lemma demo_reported_steps:
  "reaches (send_step recorder 1) \<lparr>sw = demo_world, issued = []\<rparr> demo_reported"
proof -
  have "oldest 1 (sw demo_sends) 20"
    using demo_sends_facts(1,2) by (auto simp: oldest_def)
  from send_report [OF this, of recorder OSent] show ?thesis
    unfolding demo_reported_def by (rule reaches_step [of "send_step recorder 1", OF demo_sends_steps])
qed


text \<open>Reporting on the oldest item until the queue is empty.\<close>

lemma send_drain:
  assumes "send_queue_ok c xs s"
  shows "\<exists>t. reaches (send_step h c) s t \<and> send_queue_ok c [] t \<and> issued t = issued s"
  using assms
proof (induction xs arbitrary: s)
  case Nil
  then show ?case using reaches_refl [of "send_step h c" s] by blast
next
  case (Cons a xs)
  then have old: "oldest c (sw s) a" by (auto simp: send_queue_ok_def send_ok_def oldest_def)
  let ?s = "s\<lparr>sw := outcome_op h OSent a (sw s)\<rparr>"
  have "send_queue_ok c xs ?s" using send_inv_outcome [OF Cons.prems old, of h OSent] by simp
  then obtain t where "reaches (send_step h c) ?s t" "send_queue_ok c [] t" "issued t = issued ?s"
    using Cons.IH by blast
  moreover have "reaches (send_step h c) s ?s" using reaches_single [of "send_step h c", OF send_report [OF old]] .
  ultimately show ?case using reaches_trans [of "send_step h c"] by fastforce
qed



text \<open>
  When the protocol reports an outcome for a queued item, that item alone leaves the queue,
  the application gets the one event for it, and the item queued after it, if there is one, is
  handed to the protocol at once with its own message; with none left the connection is ready.
\<close>

theorem outcome_serves_next:
  assumes "send_ok c (xs @ a # ys) w" "cheap w c = Some (Live cn)" "view (sheap w) a = Some v"
    "outcome_fn oc v = Some f"
  shows "send_ok c (xs @ ys) (outcome_op h oc a w) \<and>
    trace (outcome_op h oc a w) = trace w @ [(f, outcome_call oc (c_app_ctx cn) v)] \<and>
    (case ys of
       [] \<Rightarrow> proto (outcome_op h oc a w) = proto w \<and>
         (\<exists>cn'. cheap (outcome_op h oc a w) c = Some (Live cn') \<and> sendReady cn')
     | b # _ \<Rightarrow> (\<exists>u m. view (sheap w) b = Some u \<and> msgs w (s_message u) = Some (Live m) \<and>
         proto (outcome_op h oc a w) =
           snd (h_send h (c_proto_ctx cn) b (msg_vec m) (iovcnt m) (proto w))))"
proof -
  have next_item: "\<exists>u m. view (sheap w) b = Some u \<and> msgs w (s_message u) = Some (Live m)"
    if "ys = b # bs" for b bs
    using assms(1) that by (auto simp: send_ok_def allocated_def)
  from outcome_ok [OF assms refl, of h] next_item show ?thesis
    by (cases ys) (fastforce simp: hand_over_def)+
qed

theorem outcome_serves_next_witness:
  "send_ok 1 [21] (outcome_op recorder OSent 20 (sw demo_sends)) \<and>
   trace (outcome_op recorder OSent 20 (sw demo_sends)) = [(4, Sent (Some 60) (Some 90))] \<and>
   proto (outcome_op recorder OSent 20 (sw demo_sends)) = [LSend 20 1, LSend 21 1, LSend 21 1]"
  using outcome_serves_next [OF demo_sends_ok demo_sends_facts(1,3), of OSent 4 recorder]
  by (auto simp: demo_sends_facts demo_defs)

text \<open>
  Sends are not serialised: \<open>tapsConnectionSend\<close> calls the protocol at once however many
  items are queued, as long as the ready flag is up, and no call lowers the flag. The protocol's
  answer is the return value, but the item stays queued even when that answer is an error.
\<close>

theorem send_not_serialised:
  assumes "send_ok c xs w" "cheap w c = Some (Live cn)" "sendReady cn"
    "\<not> allocated (sheap w) a" "msgs w msg = Some (Live m)"
    "h_send h (c_proto_ctx cn) a (msg_vec m) (iovcnt m) (proto w) = (r, p')"
  shows "\<exists>w' cn'. tapsConnectionSend h (Some a) c msg app (Some cb) w = (r, None, w') \<and>
    proto w' = p' \<and> send_ok c (xs @ [a]) w' \<and> cheap w' c = Some (Live cn') \<and> sendReady cn'"
  using send_new_ok [OF assms(1,2,4,5), of h app cb] assms(3,6) by auto

theorem send_not_serialised_witness:
  "proto (sw demo_sends) = [LSend 20 1, LSend 21 1]"
proof -
  have "\<exists>w' cn'. tapsConnectionSend recorder (Some 20) 1 2 (Some 90) (Some all_callbacks) demo_world = (0, None, w') \<and>
    proto w' = [LSend 20 1] \<and> send_ok 1 ([] @ [20]) w' \<and> cheap w' 1 = Some (Live cn') \<and> sendReady cn'"
    by (rule send_not_serialised [where m = "demo_message 1000" and cn = demo_conn])
      (simp_all add: send_ok_def demo_defs allocated_def msg_vec_def)
  then show ?thesis
    by (auto simp: demo_sends_def demo_send_def tapsConnectionSend_def call_send_def
        tapsMessageGetIovec_def add_item_def Let_def demo_defs)
qed

section \<open>Sending through a protocol\<close>

text \<open>
  The connection hands every message to the protocol at once, also while another one is under way.
  The contract says what a protocol must do so that the messages still leave once and in order:
  refuse a send while one is under way and accept one otherwise. \<open>busy\<close> is the item under
  way, \<open>wire\<close> what has been accepted so far, \<open>fire\<close> the protocol's own event that ends a
  send and names the item it reports.
\<close>

definition msg_pieces :: "tapsMessage \<Rightarrow> iovec list" where
  "msg_pieces m = take (nat (iovcnt m)) (msg_vec m)"

locale send_protocol =
  fixes h :: "'p proto_handles"
    and pctx :: ctx
    and ok :: "'p \<Rightarrow> bool"
    and busy :: "'p \<Rightarrow> addr option"
    and wire :: "'p \<Rightarrow> iovec list list"
    and fire :: "'p \<Rightarrow> addr option \<times> 'p"
  assumes refuse: "ok p \<Longrightarrow> busy p = Some b \<Longrightarrow> h_send h pctx a vs n p = (r, p') \<Longrightarrow>
      r < 0 \<and> ok p' \<and> busy p' = Some b \<and> wire p' = wire p"
    and accept: "ok p \<Longrightarrow> busy p = None \<Longrightarrow> h_send h pctx a vs n p = (r, p') \<Longrightarrow>
      ok p' \<and> busy p' = Some a \<and> wire p' = wire p @ [take (nat n) vs]"
    and fire_busy: "ok p \<Longrightarrow> busy p = Some b \<Longrightarrow>
      \<exists>p'. fire p = (Some b, p') \<and> ok p' \<and> busy p' = None \<and> wire p' = wire p"

record 'p tx_state =
  tw :: "'p conn_world"
  tx_issued :: "iovec list list"

inductive tx_step ::
  "'p proto_handles \<Rightarrow> ('p \<Rightarrow> addr option) \<Rightarrow> ('p \<Rightarrow> addr option \<times> 'p) \<Rightarrow> addr \<Rightarrow>
    'p tx_state \<Rightarrow> 'p tx_state \<Rightarrow> bool" for h busy fire c where
  tx_send: "\<not> allocated (sheap (tw s)) a \<Longrightarrow> msgs (tw s) msg = Some (Live m) \<Longrightarrow> send_callbacks cb \<Longrightarrow>
    tx_step h busy fire c s (s\<lparr>tw := snd (snd (tapsConnectionSend h (Some a) c msg app (Some cb) (tw s))),
      tx_issued := tx_issued s @ [msg_pieces m]\<rparr>)"
| tx_done: "busy (proto (tw s)) \<noteq> None \<Longrightarrow> fire (proto (tw s)) = (Some a, p') \<Longrightarrow>
    tx_step h busy fire c s (s\<lparr>tw := taps_sent h a ((tw s)\<lparr>proto := p'\<rparr>)\<rparr>)"

definition pieces_of :: "'p conn_world \<Rightarrow> addr \<Rightarrow> iovec list" where
  "pieces_of w a =
     (case view (sheap w) a of
        None \<Rightarrow> []
      | Some v \<Rightarrow> (case msgs w (s_message v) of Some (Live m) \<Rightarrow> msg_pieces m | _ \<Rightarrow> []))"

lemma pieces_of_cong:
  "view (sheap w') a = view (sheap w) a \<Longrightarrow> msgs w' = msgs w \<Longrightarrow> pieces_of w' a = pieces_of w a"
  by (simp add: pieces_of_def cong: option.case_cong)

text \<open>
  The connection and the protocol together, with the queue \<open>xs\<close>: the protocol works on the
  oldest item, and all that was issued is on the wire or waits behind that item.
\<close>

definition tx_ok ::
  "ctx \<Rightarrow> ('p \<Rightarrow> bool) \<Rightarrow> ('p \<Rightarrow> addr option) \<Rightarrow> ('p \<Rightarrow> iovec list list) \<Rightarrow> addr \<Rightarrow> addr list \<Rightarrow> 'p tx_state \<Rightarrow> bool" where
  "tx_ok pctx ok busy wire c xs s \<longleftrightarrow> send_ok c xs (tw s) \<and>
     (\<exists>cn. cheap (tw s) c = Some (Live cn) \<and> c_proto_ctx cn = pctx \<and> sendReady cn) \<and>
     ok (proto (tw s)) \<and> busy (proto (tw s)) = hd_or None xs \<and> faults (tw s) = [] \<and>
     tx_issued s = wire (proto (tw s)) @ map (pieces_of (tw s)) (tl xs) \<and>
     (\<forall>a\<in>set xs. \<forall>v. view (sheap (tw s)) a = Some v \<longrightarrow> s_sent v \<noteq> None)"

context send_protocol
begin

lemma tx_ok_send:
  assumes q: "tx_ok pctx ok busy wire c xs s" and a: "\<not> allocated (sheap (tw s)) a"
    and m: "msgs (tw s) msg = Some (Live m)" and cb: "send_callbacks cb"
  shows "tx_ok pctx ok busy wire c (xs @ [a])
    (s\<lparr>tw := snd (snd (tapsConnectionSend h (Some a) c msg app (Some cb) (tw s))),
       tx_issued := tx_issued s @ [msg_pieces m]\<rparr>)"
proof -
  from q obtain cn where cn: "cheap (tw s) c = Some (Live cn)" "c_proto_ctx cn = pctx" "sendReady cn"
    and sok: "send_ok c xs (tw s)" and pok: "ok (proto (tw s))" and b: "busy (proto (tw s)) = hd_or None xs"
    by (auto simp: tx_ok_def)
  have new: "x \<noteq> a" if "x \<in> set xs" for x
    using sok a item_queue_live that by (fastforce simp: send_ok_def allocated_def)
  obtain r w1 where new1: "tapsConnectionSend h (Some a) c msg app (Some cb) (tw s) = (r, None, w1)"
    "send_ok c (xs @ [a]) w1" "send_frame (tw s) w1" "cheap w1 = hput (cheap (tw s)) c (cn\<lparr>sndq := Some a\<rparr>)"
    "view (sheap w1) a = Some \<lparr>next_i = None, prev_i = None, s_message = msg, s_connection = c,
      s_app_ctx = app, s_sent = cb_sent cb, s_expired = cb_expired cb, s_sendError = cb_sendError cb\<rparr>"
    "\<forall>b. b \<noteq> a \<longrightarrow> view (sheap w1) b = view (sheap (tw s)) b"
    "(r, proto w1) = (if sendReady cn then h_send h (c_proto_ctx cn) a (msg_vec m) (iovcnt m) (proto (tw s))
      else (0, proto (tw s)))"
    using send_new_ok [OF sok cn(1) a m, of h app cb] by blast
  then have w1: "snd (snd (tapsConnectionSend h (Some a) c msg app (Some cb) (tw s))) = w1"
    "send_ok c (xs @ [a]) w1" "send_frame (tw s) w1" "cheap w1 c = Some (Live (cn\<lparr>sndq := Some a\<rparr>))"
    "view (sheap w1) a = Some \<lparr>next_i = None, prev_i = None, s_message = msg, s_connection = c,
      s_app_ctx = app, s_sent = cb_sent cb, s_expired = cb_expired cb, s_sendError = cb_sendError cb\<rparr>"
    "\<And>x. x \<in> set xs \<Longrightarrow> view (sheap w1) x = view (sheap (tw s)) x"
    and hs: "h_send h pctx a (msg_vec m) (iovcnt m) (proto (tw s)) = (r, proto w1)"
    using cn(2,3) new by simp_all
  have ms: "msgs w1 = msgs (tw s)" "faults w1 = faults (tw s)" using w1(3) by (simp_all add: send_frame_def)
  have old: "map (pieces_of w1) (tl xs) = map (pieces_of (tw s)) (tl xs)"
    by (intro map_cong refl pieces_of_cong w1(6) ms(1)) (cases xs; simp)
  have pa: "pieces_of w1 a = msg_pieces m" using w1(5) ms m by (simp add: pieces_of_def)
  have "ok (proto w1) \<and> busy (proto w1) = hd_or None (xs @ [a]) \<and>
      tx_issued s @ [msg_pieces m] = wire (proto w1) @ map (pieces_of w1) (tl (xs @ [a]))"
  proof (cases xs)
    case Nil
    then show ?thesis using accept [OF pok _ hs] b q by (simp add: tx_ok_def msg_pieces_def)
  next
    case (Cons x ys)
    then show ?thesis using refuse [OF pok _ hs, of x] b q old pa by (simp add: tx_ok_def)
  qed
  moreover have "\<forall>x\<in>set (xs @ [a]). \<forall>v. view (sheap w1) x = Some v \<longrightarrow> s_sent v \<noteq> None"
    using q w1(5,6) cb by (auto simp: tx_ok_def send_callbacks_def)
  ultimately show ?thesis using w1(1,2,4) cn(2,3) ms q unfolding tx_ok_def by simp
qed

lemma tx_ok_done:
  assumes q: "tx_ok pctx ok busy wire c xs s" and b: "busy (proto (tw s)) \<noteq> None"
    and f: "fire (proto (tw s)) = (Some a, p')"
  shows "tx_ok pctx ok busy wire c (tl xs) (s\<lparr>tw := taps_sent h a ((tw s)\<lparr>proto := p'\<rparr>)\<rparr>)"
proof -
  let ?w = "(tw s)\<lparr>proto := p'\<rparr>"
  from q obtain cn where cn: "cheap (tw s) c = Some (Live cn)" "c_proto_ctx cn = pctx" "sendReady cn"
    and sok: "send_ok c xs (tw s)" and pok: "ok (proto (tw s))" and bh: "busy (proto (tw s)) = hd_or None xs"
    by (auto simp: tx_ok_def)
  obtain x ys where xs: "xs = x # ys" using b bh by (cases xs) auto
  from fire_busy [OF pok, of x] bh xs f have a: "x = a" and p': "ok p'" "busy p' = None" "wire p' = wire (proto (tw s))"
    by auto
  have ok': "send_ok c ([] @ a # ys) ?w" using sok xs a by (simp add: send_ok_def)
  then have d: "a \<notin> set ys" by (auto simp: send_ok_def item_queue_def)
  from sok q xs a obtain v f' where v: "view (sheap (tw s)) a = Some v" "s_sent v = Some f'"
    by (fastforce simp: send_ok_def tx_ok_def)
  let ?o = "taps_sent h a ?w"
  have cn': "cheap ?w c = Some (Live cn)" using cn by simp
  from outcome_ok [OF ok' cn', of v OSent f' ?o h] v d
  have o: "send_ok c ys ?o" "send_frame ?w ?o" "\<And>x. x \<in> set ys \<Longrightarrow> view (sheap ?o) x = view (sheap (tw s)) x"
    "\<exists>cq. cheap ?o c = Some (Live cq) \<and> c_proto_ctx cq = pctx \<and> sendReady cq"
    "proto ?o = (case ys of [] \<Rightarrow> proto ?w | y # _ \<Rightarrow> snd (hand_over h pctx y ?w))"
    using cn(2,3) by auto
  have ms: "msgs ?o = msgs (tw s)" "faults ?o = faults (tw s)" using o(2) by (simp_all add: send_frame_def)
  have mp: "map (pieces_of ?o) zs = map (pieces_of (tw s)) zs" if "set zs \<subseteq> set ys" for zs
    using that by (intro map_cong refl pieces_of_cong o(3) ms(1)) auto
  have "ok (proto ?o) \<and> busy (proto ?o) = hd_or None ys \<and> tx_issued s = wire (proto ?o) @ map (pieces_of ?o) (tl ys)"
  proof (cases ys)
    case Nil
    then show ?thesis using o(5) p' q xs by (simp add: tx_ok_def)
  next
    case (Cons y zs)
    then obtain u m where u: "view (sheap (tw s)) y = Some u" "msgs (tw s) (s_message u) = Some (Live m)"
      using sok xs by (auto simp: send_ok_def allocated_def)
    obtain r where hs: "h_send h pctx y (msg_vec m) (iovcnt m) p' = (r, proto ?o)"
      using o(5) Cons u by (cases "h_send h pctx y (msg_vec m) (iovcnt m) p'") (simp add: hand_over_def)
    have "pieces_of (tw s) y = msg_pieces m" using u by (simp add: pieces_of_def)
    moreover have "map (pieces_of ?o) zs = map (pieces_of (tw s)) zs" using Cons by (intro mp) auto
    ultimately show ?thesis using accept [OF p'(1,2) hs] p'(3) q xs Cons
      by (simp add: tx_ok_def msg_pieces_def)
  qed
  moreover have "\<forall>x\<in>set ys. \<forall>v. view (sheap ?o) x = Some v \<longrightarrow> s_sent v \<noteq> None"
    using q xs o(3) by (auto simp: tx_ok_def)
  ultimately show ?thesis using o(1,4) ms q xs unfolding tx_ok_def by simp
qed

lemma tx_ok_step:
  "tx_step h busy fire c s t \<Longrightarrow> \<exists>xs. tx_ok pctx ok busy wire c xs s \<Longrightarrow> \<exists>xs. tx_ok pctx ok busy wire c xs t"
  by (induction rule: tx_step.induct) (blast intro: tx_ok_send tx_ok_done)+

lemma tx_ok_reaches:
  "reaches (tx_step h busy fire c) s t \<Longrightarrow> tx_ok pctx ok busy wire c [] s \<Longrightarrow> \<exists>xs. tx_ok pctx ok busy wire c xs t"
  by (induction rule: reaches.induct) (blast intro: tx_ok_step)+

end

end
