(* ===== verification/Taps_Receive.thy ===== *)
theory Taps_Receive
  imports Taps_Connection
begin

text \<open>
  The receive side of a connection, src/src/taps_connection.c: the scatter list that skips what
  has arrived, the minimum length, the queue of receives, and the promise of docs/protocols.md
  that the protocol has at most one receive per connection at a time.
\<close>

section \<open>Skipping the bytes that have arrived\<close>

lemma trunc_loop_within:
  assumes "0 < cnt" "nat cnt \<le> length vs" "unat len \<le> vec_total (take (nat cnt) vs)"
  shows "\<exists>pre v rest r. vs = pre @ v # rest \<and> int (length pre) < cnt \<and> r \<le> iov_len v \<and>
    vec_total pre + unat r = unat len \<and>
    trunc_loop vs cnt len = Inr (v # rest, cnt - int (length pre), r)"
  using assms
proof (induction vs cnt len rule: trunc_loop.induct)
  case (1 cnt remaining)
  then show ?case by simp
next
  case (2 u vs cnt remaining)
  show ?case
  proof (cases "iov_len u < remaining")
    case False
    with 2 show ?thesis by (intro exI [of _ "[]"]) (auto simp: not_less)
  next
    case True
    obtain k where k: "nat cnt = Suc k" using 2(2) by (cases "nat cnt") auto
    have k': "nat (cnt - 1) = k" using k by simp
    have sub: "unat (remaining - iov_len u) = unat remaining - unat (iov_len u)"
      "unat (iov_len u) < unat remaining"
      using unat_sub_less [OF True] by auto
    have "0 < vec_total (take k vs)" using 2(4) k sub by simp
    then have pos: "0 < cnt - 1" using k by (cases k) auto
    have prems: "nat (cnt - 1) \<le> length vs"
      "unat (remaining - iov_len u) \<le> vec_total (take (nat (cnt - 1)) vs)"
      using 2(3,4) k k' sub by simp_all
    obtain pre v rest r where "vs = pre @ v # rest" "int (length pre) < cnt - 1" "r \<le> iov_len v"
      "vec_total pre + unat r = unat (remaining - iov_len u)"
      "trunc_loop vs (cnt - 1) (remaining - iov_len u) = Inr (v # rest, cnt - 1 - int (length pre), r)"
      using 2(1) [OF True pos prems] by blast
    then show ?thesis using True sub by (intro exI [of _ "u # pre"] exI [of _ v] exI [of _ rest] exI [of _ r]) auto
  qed
qed

lemma trunc_loop_beyond:
  "vec_total vs < unat len \<Longrightarrow> trunc_loop vs cnt len = Inl OutOfBounds"
proof (induction vs cnt len rule: trunc_loop.induct)
  case (2 u vs cnt remaining)
  then have "iov_len u < remaining" by (simp add: word_less_nat_alt)
  with 2 show ?case using unat_sub_less [of "iov_len u" remaining] by simp
qed simp

lemma trunc_iovec_ok:
  assumes "0 < cnt" "nat cnt \<le> length vs" "unat len \<le> vec_total (take (nat cnt) vs)"
  shows "\<exists>ws cnt'. taps_trunc_iovec (Some a) vs cnt len = Inr (Some (a, ws), cnt') \<and>
    0 < cnt' \<and> cnt' \<le> cnt \<and> length ws = nat cnt' \<and>
    (\<forall>mem. vec_bytes mem ws = drop (unat len) (vec_bytes mem (take (nat cnt) vs)))"
proof -
  from trunc_loop_within [OF assms] obtain pre v rest r where
    vs: "vs = pre @ v # rest" and pre: "int (length pre) < cnt" and r: "r \<le> iov_len v"
    and len: "vec_total pre + unat r = unat len"
    and tl: "trunc_loop vs cnt len = Inr (v # rest, cnt - int (length pre), r)" by blast
  obtain k where k: "nat (cnt - int (length pre)) = Suc k" using pre by (cases "nat (cnt - int (length pre))") auto
  have tk: "take (nat cnt) vs = pre @ v # take k rest"
  proof -
    have "nat cnt = length pre + Suc k" using pre k by linarith
    then show ?thesis using vs by simp
  qed
  have krest: "k \<le> length rest" using assms(2) vs pre k by simp
  have "vec_bytes mem (v\<lparr>iov_base := iov_base v + unat r, iov_len := iov_len v - r\<rparr> # take k rest) =
      drop (unat len) (vec_bytes mem (take (nat cnt) vs))" for mem
    using r len [symmetric] unfolding tk by (simp add: iov_bytes_advance word_le_nat_alt)
  then show ?thesis using tl k krest pre
    by (simp add: taps_trunc_iovec_def)
qed

text \<open>
  \<open>_taps_trunc_iovec\<close>: when the counted pieces hold at least \<open>len\<close> bytes, the new
  array denotes exactly what the original denotes without its first \<open>len\<close> bytes, in any
  memory, and the new count is its length.
\<close>

theorem trunc_iovec_drops:
  assumes "0 < cnt" "nat cnt \<le> length vs" "unat len \<le> vec_total (take (nat cnt) vs)"
  shows "\<exists>ws cnt'. taps_trunc_iovec (Some a) vs cnt len = Inr (Some (a, ws), cnt') \<and>
    int (length ws) = cnt' \<and> 0 < cnt' \<and> cnt' \<le> cnt \<and>
    vec_bytes mem ws = drop (unat len) (vec_bytes mem (take (nat cnt) vs))"
  using trunc_iovec_ok [OF assms, of a] by fastforce

definition three_pieces :: "iovec list" where
  "three_pieces = [\<lparr>iov_base = 100, iov_len = 4\<rparr>, \<lparr>iov_base = 200, iov_len = 4\<rparr>, \<lparr>iov_base = 300, iov_len = 4\<rparr>]"

theorem trunc_iovec_drops_witness:
  "taps_trunc_iovec (Some 9) three_pieces 3 6 =
     Inr (Some (9, [\<lparr>iov_base = 202, iov_len = 2\<rparr>, \<lparr>iov_base = 300, iov_len = 4\<rparr>]), 2) \<and>
   (\<exists>ws cnt'. taps_trunc_iovec (Some 9) three_pieces 3 6 = Inr (Some (9, ws), cnt') \<and>
      vec_bytes (\<lambda>k. of_nat k) ws = drop 6 (vec_bytes (\<lambda>k. of_nat k) three_pieces))"
proof
  show "taps_trunc_iovec (Some 9) three_pieces 3 6 =
     Inr (Some (9, [\<lparr>iov_base = 202, iov_len = 2\<rparr>, \<lparr>iov_base = 300, iov_len = 4\<rparr>]), 2)"
    by (simp add: taps_trunc_iovec_def three_pieces_def)
  show "\<exists>ws cnt'. taps_trunc_iovec (Some 9) three_pieces 3 6 = Inr (Some (9, ws), cnt') \<and>
      vec_bytes (\<lambda>k. of_nat k) ws = drop 6 (vec_bytes (\<lambda>k. of_nat k) three_pieces)"
    using trunc_iovec_drops [of 3 three_pieces 6 9 "\<lambda>k. of_nat k"] by (auto simp: three_pieces_def)
qed

text \<open>
  The guard of \<open>_taps_trunc_iovec\<close> tests the pointer to the count, which is never null:
  when \<open>len\<close> exceeds what the array holds, the loop reads past its end whatever the count
  says, and the message about a too small array is never printed.
\<close>

theorem trunc_iovec_overrun:
  "vec_total vs < unat len \<Longrightarrow> taps_trunc_iovec alloc vs cnt len = Inl OutOfBounds"
  by (simp add: taps_trunc_iovec_def trunc_loop_beyond)

theorem trunc_iovec_overrun_witness: "taps_trunc_iovec (Some 9) three_pieces 3 13 = Inl OutOfBounds"
  by (rule trunc_iovec_overrun) (simp add: three_pieces_def)

section \<open>The receive queue\<close>

text \<open>
  A connection \<open>c\<close> with the receive queue \<open>xs\<close>: the items belong to it, can report, and
  their messages exist and are well formed.
\<close>

definition recv_item_ok :: "addr \<Rightarrow> 'p conn_world \<Rightarrow> addr \<Rightarrow> bool" where
  "recv_item_ok c w a \<longleftrightarrow> (\<exists>v m. view (rheap w) a = Some v \<and> r_connection v = c \<and>
     msgs w (r_message v) = Some (Live m) \<and> msg_ok m \<and>
     r_received v \<noteq> None \<and> r_receivedPartial v \<noteq> None \<and> r_receiveError v \<noteq> None)"

definition recv_ok :: "addr \<Rightarrow> addr list \<Rightarrow> 'p conn_world \<Rightarrow> bool" where
  "recv_ok c xs w \<longleftrightarrow>
     (\<exists>cn. cheap w c = Some (Live cn) \<and> c_handles cn \<noteq> None \<and> item_queue (rheap w) (rcvq cn) xs) \<and>
     (\<forall>a\<in>set xs. recv_item_ok c w a)"

text \<open>The call of the protocol's \<open>Receive\<close> for a queued item with its message's own array.\<close>

definition start_receive :: "'p proto_handles \<Rightarrow> ctx \<Rightarrow> addr \<Rightarrow> 'p conn_world \<Rightarrow> 'p" where
  "start_receive h pctx b w =
     (case view (rheap w) b of
        None \<Rightarrow> proto w
      | Some v \<Rightarrow> (case msgs w (r_message v) of
            Some (Live m) \<Rightarrow> h_receive h pctx b None (msg_vec m) (iovcnt m) (proto w)
          | _ \<Rightarrow> proto w))"

lemma recv_itemE:
  assumes "recv_ok c xs w" "a \<in> set xs"
  obtains it m where "rheap w a = Some (Live it)" "r_connection it = c"
    "msgs w (r_message it) = Some (Live m)" "msg_ok m"
    "view (rheap w) a = Some (it\<lparr>next_i := None, prev_i := None\<rparr>)"
proof -
  from assms obtain v m where v: "view (rheap w) a = Some v" "r_connection v = c"
    "msgs w (r_message v) = Some (Live m)" "msg_ok m"
    by (auto simp: recv_ok_def recv_item_ok_def)
  from v(1) obtain it where "rheap w a = Some (Live it)" "v = it\<lparr>next_i := None, prev_i := None\<rparr>"
    by (rule view_SomeE)
  with v that show thesis by simp
qed

lemma recv_ok_cong:
  assumes "recv_ok c xs w" "rheap w' = rheap w" "msgs w' = msgs w"
    "cheap w' c = Some (Live cn')" "c_handles cn' \<noteq> None"
    "\<exists>cn. cheap w c = Some (Live cn) \<and> rcvq cn' = rcvq cn"
  shows "recv_ok c xs w'"
  using assms by (auto simp: recv_ok_def recv_item_ok_def)

lemma recv_new_ok:
  assumes ok: "recv_ok c xs w" and cn: "cheap w c = Some (Live cn)"
    and a: "\<not> allocated (rheap w) a" and m: "msgs w msg = Some (Live m)" "msg_ok m"
    and cb: "cb_received cb \<noteq> None" "cb_receivedPartial cb \<noteq> None" "cb_receiveError cb \<noteq> None"
  shows "\<exists>w1. tapsConnectionReceive h (Some a) c app msg minl maxl (Some cb) w = (0, None, w1) \<and>
    recv_ok c (xs @ [a]) w1 \<and> trace w1 = trace w \<and> faults w1 = faults w \<and> msgs w1 = msgs w \<and>
    vheap w1 = vheap w \<and> sheap w1 = sheap w \<and> lst w1 = lst w \<and> freed_handles w1 = freed_handles w \<and>
    cheap w1 = hput (cheap w) c (cn\<lparr>rcvq := Some a, receiveReady := False\<rparr>) \<and>
    view (rheap w1) a = Some \<lparr>next_i = None, prev_i = None, r_message = msg, minLength = minl,
      maxLength = maxl, currLength = 0, r_connection = c, r_app_ctx = app, r_received = cb_received cb,
      r_receivedPartial = cb_receivedPartial cb, r_receiveError = cb_receiveError cb\<rparr> \<and>
    (\<forall>b. b \<noteq> a \<longrightarrow> view (rheap w1) b = view (rheap w) b) \<and>
    proto w1 = (if receiveReady cn then h_receive h (c_proto_ctx cn) a None (msg_vec m) (iovcnt m) (proto w)
      else proto w)"
proof -
  let ?new = "\<lparr>next_i = None, prev_i = None, r_message = msg, minLength = minl,
      maxLength = maxl, currLength = 0, r_connection = c, r_app_ctx = app, r_received = cb_received cb,
      r_receivedPartial = cb_receivedPartial cb, r_receiveError = cb_receiveError cb\<rparr>"
  from ok cn have q: "item_queue (rheap w) (rcvq cn) xs" and hd: "c_handles cn \<noteq> None"
    and items: "\<forall>b\<in>set xs. recv_item_ok c w b"
    by (auto simp: recv_ok_def)
  have axs: "a \<notin> set xs" using q a item_queue_live by (fastforce simp: allocated_def)
  obtain h' where h': "add_item a ?new (rheap w) (rcvq cn) = Inr (h', Some a)"
    "item_queue h' (Some a) (xs @ [a])" and p: "payload h' a = Some (dl_links.more ?new)"
    and v: "\<And>b. b \<noteq> a \<Longrightarrow> view h' b = view (rheap w) b"
    using add_item_queue [OF q a, of ?new] view_cong by blast
  have va: "view h' a = Some ?new" using p by (simp add: view_def dl_links.extend_def)
  have flag: "cn\<lparr>rcvq := q, receiveReady := False\<rparr> = cn\<lparr>rcvq := q\<rparr>" if "\<not> receiveReady cn" for q
    using that by (cases cn) simp
  define w1 where "w1 = snd (snd (tapsConnectionReceive h (Some a) c app msg minl maxl (Some cb) w))"
  have w1: "tapsConnectionReceive h (Some a) c app msg minl maxl (Some cb) w = (0, None, w1)"
    "rheap w1 = h'" "cheap w1 = hput (cheap w) c (cn\<lparr>rcvq := Some a, receiveReady := False\<rparr>)"
    "trace w1 = trace w" "faults w1 = faults w" "msgs w1 = msgs w" "vheap w1 = vheap w"
    "sheap w1 = sheap w" "lst w1 = lst w" "freed_handles w1 = freed_handles w"
    "proto w1 = (if receiveReady cn then h_receive h (c_proto_ctx cn) a None (msg_vec m) (iovcnt m) (proto w)
      else proto w)"
    using cn cb h' m(1) hd flag
    by (cases "receiveReady cn"; auto simp: w1_def tapsConnectionReceive_def call_receive_def
        tapsMessageGetIovec_def Let_def hput_def)+
  have "recv_item_ok c w1 b" if "b \<in> set (xs @ [a])" for b
    using that items va m cb w1 v [of b] axs by (cases "b = a") (auto simp: recv_item_ok_def)
  then have "recv_ok c (xs @ [a]) w1"
    using w1 h' hd by (auto simp: recv_ok_def)
  then show ?thesis using w1 va v by auto
qed

lemma view_hput:
  "view (hput h a n) b = (if b = a then Some (n\<lparr>next_i := None, prev_i := None\<rparr>) else view h b)"
  using view_live [of "hput h a n" a n] by (simp add: view_def)

lemma recv_ok_bump:
  assumes "recv_ok c xs w" "rheap w a = Some (Live it)" "a \<in> set xs"
  shows "recv_ok c xs (w\<lparr>rheap := hput (rheap w) a (it\<lparr>currLength := n\<rparr>)\<rparr>)"
proof -
  have "recv_item_ok c (w\<lparr>rheap := hput (rheap w) a (it\<lparr>currLength := n\<rparr>)\<rparr>) b" if "recv_item_ok c w b" for b
    using that view_live [of "rheap w", OF assms(2)] by (auto simp: recv_item_ok_def view_hput)
  with assms show ?thesis by (auto simp: recv_ok_def item_queue_touch [of "rheap w", OF assms(2)])
qed

lemma delete_recv_ok:
  assumes ok: "recv_ok c (xs @ a # ys) w" and cn: "cheap w c = Some (Live cn)"
    and it: "rheap w a = Some (Live it)"
  shows "\<exists>h' q. delete_recv c a w = Inr (set_conn c (cn\<lparr>rcvq := q\<rparr>) (w\<lparr>rheap := h'\<rparr>)) \<and>
    recv_ok c (xs @ ys) (set_conn c (cn\<lparr>rcvq := q\<rparr>) (w\<lparr>rheap := h'\<rparr>)) \<and>
    h' a = Some (Freed it) \<and> (\<forall>b. b \<noteq> a \<longrightarrow> view h' b = view (rheap w) b)"
proof -
  from ok cn have q: "item_queue (rheap w) (rcvq cn) (xs @ a # ys)" and hd: "c_handles cn \<noteq> None"
    by (auto simp: recv_ok_def)
  from q have d: "a \<notin> set (xs @ ys)" by (auto simp: item_queue_def)
  obtain h' q' where del: "delete_item a (rheap w) (rcvq cn) = Inr (h', q')" "item_queue h' q' (xs @ ys)"
    "h' a = Some (Freed it)" and v: "\<And>b. b \<noteq> a \<Longrightarrow> view h' b = view (rheap w) b"
    using delete_item_queue [OF q it] view_cong by blast
  let ?w = "set_conn c (cn\<lparr>rcvq := q'\<rparr>) (w\<lparr>rheap := h'\<rparr>)"
  have "recv_item_ok c ?w b" if "b \<in> set (xs @ ys)" for b
  proof -
    from that d have "b \<noteq> a" by auto
    then have "view h' b = view (rheap w) b" by (rule v)
    with ok that show ?thesis by (auto simp: recv_ok_def recv_item_ok_def)
  qed
  then have "recv_ok c (xs @ ys) ?w" using hd del(2) by (auto simp: recv_ok_def)
  moreover have "delete_recv c a w = Inr ?w" using cn del by (simp add: delete_recv_def)
  ultimately show ?thesis using del(3) v by blast
qed

lemma free_data_frame:
  "free_data data w = Inr w1 \<Longrightarrow> \<exists>vh. w1 = w\<lparr>vheap := vh\<rparr>"
  by (rule exI [of _ "vheap w1"]) (auto simp: free_data_def andthen_def split: option.splits sum.splits)

lemma next_receive_ok:
  assumes ok: "recv_ok c (xs @ a # ys) w" and cn: "cheap w c = Some (Live cn)"
    and it: "rheap w a = Some (Live it)"
  shows "next_receive h c it w =
    Inr (set_conn c (cn\<lparr>receiveReady := (ys = [] \<or> receiveReady cn)\<rparr>)
      (w\<lparr>proto := (case ys of [] \<Rightarrow> proto w | b # _ \<Rightarrow> start_receive h (c_proto_ctx cn) b w)\<rparr>))"
proof -
  from ok cn it have nx: "next_i it = hd_or None ys" and hd: "c_handles cn \<noteq> None"
    by (auto simp: recv_ok_def item_queue_def)
  have same: "set_conn c cn w' = w'" if "cheap w' c = Some (Live cn)" for w' :: "'a conn_world"
    using that by (simp add: set_conn_def hput_def fun_upd_idem)
  show ?thesis
  proof (cases ys)
    case Nil
    then show ?thesis using cn nx by (simp add: next_receive_def)
  next
    case (Cons b bs)
    then have "b \<in> set (xs @ a # ys)" by simp
    from recv_itemE [OF ok this] obtain nit m where "rheap w b = Some (Live nit)"
      "msgs w (r_message nit) = Some (Live m)"
      "view (rheap w) b = Some (nit\<lparr>next_i := None, prev_i := None\<rparr>)" by metis
    then show ?thesis using Cons cn nx hd
      by (auto simp: next_receive_def start_receive_def call_receive_def tapsMessageGetIovec_def same)
  qed
qed

lemma partial_enough:
  assumes ok: "recv_ok c (xs @ a # ys) w" and cn: "cheap w c = Some (Live cn)"
    and it: "rheap w a = Some (Live it)" and enough: "minLength it \<le> currLength it + n"
    and fd: "free_data data w = Inr w1" and f: "r_receivedPartial it = Some f"
    and op: "op = taps_received_partial h alloc a data n w"
  shows "recv_ok c (xs @ ys) op \<and> vheap op = vheap w1 \<and> msgs op = msgs w \<and>
    sheap op = sheap w \<and> lst op = lst w \<and> freed_handles op = freed_handles w \<and>
    trace op = trace w @ [(f, ReceivedPartial (c_app_ctx cn) (r_app_ctx it) (currLength it + n) False)] \<and>
    faults op = faults w @ [UseAfterFree] \<and> (\<forall>b. b \<noteq> a \<longrightarrow> view (rheap op) b = view (rheap w) b) \<and>
    (\<exists>q. cheap op = hput (cheap w) c (cn\<lparr>receiveReady := (ys = [] \<or> receiveReady cn), rcvq := q\<rparr>)) \<and>
    proto op = (case ys of [] \<Rightarrow> proto w | b # _ \<Rightarrow> start_receive h (c_proto_ctx cn) b w)"
proof -
  obtain vh where w1: "w1 = w\<lparr>vheap := vh\<rparr>" using free_data_frame [OF fd] by blast
  from recv_itemE [OF ok, of a] it obtain m where
    c: "r_connection it = c" and m: "msgs w (r_message it) = Some (Live m)" by fastforce
  let ?it = "it\<lparr>currLength := currLength it + n\<rparr>"
  let ?w2 = "w1\<lparr>rheap := hput (rheap w1) a ?it\<rparr>"
  have ok2: "recv_ok c (xs @ a # ys) ?w2"
    using recv_ok_bump [of c "xs @ a # ys" w1 a it] ok it w1 by (simp add: recv_ok_def recv_item_ok_def)
  let ?cn = "cn\<lparr>receiveReady := (ys = [] \<or> receiveReady cn)\<rparr>"
  let ?p = "case ys of [] \<Rightarrow> proto ?w2 | b # _ \<Rightarrow> start_receive h (c_proto_ctx cn) b ?w2"
  have sr: "start_receive h p b ?w2 = start_receive h p b w" if "b \<in> set ys" for b p
  proof -
    from that ok have "b \<noteq> a" by (auto simp: recv_ok_def item_queue_def)
    with w1 show ?thesis by (simp add: start_receive_def view_hput cong: option.case_cong cell.case_cong)
  qed
  then have p: "?p = (case ys of [] \<Rightarrow> proto w | b # _ \<Rightarrow> start_receive h (c_proto_ctx cn) b w)"
    using w1 by (simp split: list.split)
  let ?w3 = "set_conn c ?cn (?w2\<lparr>proto := ?p\<rparr>)"
  have nr: "next_receive h c ?it ?w2 = Inr ?w3"
    using next_receive_ok [OF ok2, of cn ?it h] cn w1 by (cases ys) simp_all
  have "recv_ok c (xs @ a # ys) ?w3"
    by (rule recv_ok_cong [OF ok2, where cn' = ?cn]) (use cn w1 ok in \<open>auto simp: recv_ok_def\<close>)
  from delete_recv_ok [OF this, of ?cn ?it] obtain h' q where
    del: "delete_recv c a ?w3 = Inr (set_conn c (?cn\<lparr>rcvq := q\<rparr>) (?w3\<lparr>rheap := h'\<rparr>))"
    and ok4: "recv_ok c (xs @ ys) (set_conn c (?cn\<lparr>rcvq := q\<rparr>) (?w3\<lparr>rheap := h'\<rparr>))"
    and h': "h' a = Some (Freed ?it)" "\<forall>b. b \<noteq> a \<longrightarrow> view h' b = view (rheap ?w3) b"
    by auto
  have "op = app_call (Some f) (ReceivedPartial (c_app_ctx cn) (r_app_ctx it) (currLength it + n) False)
      (add_fault UseAfterFree (set_conn c (?cn\<lparr>rcvq := q\<rparr>) (?w3\<lparr>rheap := h'\<rparr>)))"
    using op it c cn m fd enough nr del h'(1) f w1
    by (simp add: taps_received_partial_def tapsMessageGetIovec_def stale_currLength_def not_less Let_def)
  then show ?thesis using ok4 h'(2) w1 p
    by (auto simp: recv_ok_def recv_item_ok_def view_hput intro!: exI [of _ q])
qed

lemma partial_short:
  assumes ok: "recv_ok c xs w" and cn: "cheap w c = Some (Live cn)" and a: "a \<in> set xs"
    and it: "rheap w a = Some (Live it)" and short: "currLength it + n < minLength it"
    and fd: "free_data data w = Inr w1"
    and m: "msgs w (r_message it) = Some (Live m)" and room: "unat (currLength it + n) \<le> msg_total m"
  shows "\<exists>ws cnt. taps_received_partial h (Some v) a data n w =
      w1\<lparr>rheap := hput (rheap w) a (it\<lparr>currLength := currLength it + n\<rparr>),
         vheap := hput (vheap w1) v ws,
         proto := h_receive h (c_proto_ctx cn) a (Some v) ws cnt (proto w)\<rparr> \<and>
    int (length ws) = cnt \<and>
    (\<forall>mem. vec_bytes mem ws = drop (unat (currLength it + n)) (msg_bytes mem m))"
proof -
  obtain vh where w1: "w1 = w\<lparr>vheap := vh\<rparr>" using free_data_frame [OF fd] by blast
  from recv_itemE [OF ok a] it m have c: "r_connection it = c" and mok: "msg_ok m" by fastforce+
  have hd: "c_handles cn \<noteq> None" using ok cn by (auto simp: recv_ok_def)
  obtain ws cnt where ws: "taps_trunc_iovec (Some v) (msg_vec m) (iovcnt m) (currLength it + n) = Inr (Some (v, ws), cnt)"
    "int (length ws) = cnt"
    "\<forall>mem. vec_bytes mem ws = drop (unat (currLength it + n)) (vec_bytes mem (take (nat (iovcnt m)) (msg_vec m)))"
    using trunc_iovec_ok [of "iovcnt m" "msg_vec m" "currLength it + n" v] mok room
    by (auto simp: msg_ok_def msg_total_def)
  have "taps_received_partial h (Some v) a data n w =
      w1\<lparr>rheap := hput (rheap w) a (it\<lparr>currLength := currLength it + n\<rparr>),
         vheap := hput (vheap w1) v ws,
         proto := h_receive h (c_proto_ctx cn) a (Some v) ws cnt (proto w)\<rparr>"
    using it c cn m fd short ws(1) w1 hd
    by (auto simp: taps_received_partial_def tapsMessageGetIovec_def call_receive_def Let_def)
  with ws show ?thesis unfolding msg_bytes_def by blast
qed

text \<open>Without memory for the rest of the buffers the receive fails.\<close>

lemma trunc_iovec_nomem:
  "taps_trunc_iovec (Some v) orig cnt len = Inr (p, cnt') \<Longrightarrow> taps_trunc_iovec None orig cnt len = Inr (None, cnt')"
  by (auto simp: taps_trunc_iovec_def andthen_def split: sum.splits if_splits list.splits)

lemma partial_nomem:
  assumes ok: "recv_ok c xs w" and cn: "cheap w c = Some (Live cn)" and a: "a \<in> set xs"
    and it: "rheap w a = Some (Live it)" and short: "currLength it + n < minLength it"
    and fd: "free_data data w = Inr w1"
    and m: "msgs w (r_message it) = Some (Live m)" and room: "unat (currLength it + n) \<le> msg_total m"
  shows "taps_received_partial h None a data n w =
    taps_receive_error a None ''Internal error'' (w1\<lparr>rheap := hput (rheap w) a (it\<lparr>currLength := currLength it + n\<rparr>)\<rparr>)"
proof -
  obtain vh where w1: "w1 = w\<lparr>vheap := vh\<rparr>" using free_data_frame [OF fd] by blast
  from recv_itemE [OF ok a] it m have c: "r_connection it = c" and mok: "msg_ok m" by fastforce+
  obtain p cnt where "taps_trunc_iovec (Some 0) (msg_vec m) (iovcnt m) (currLength it + n) = Inr (p, cnt)"
    using trunc_iovec_ok [of "iovcnt m" "msg_vec m" "currLength it + n" 0] mok room
    by (auto simp: msg_ok_def msg_total_def)
  then show ?thesis using it c cn m fd short w1 trunc_iovec_nomem
    by (auto simp: taps_received_partial_def tapsMessageGetIovec_def Let_def)
qed

text \<open>The end of a receive that completes or fails: the item leaves, the protocol is not called.\<close>

lemma receive_error_ok:
  assumes ok: "recv_ok c (xs @ a # ys) w" and cn: "cheap w c = Some (Live cn)"
    and it: "rheap w a = Some (Live it)" and fd: "free_data data w = Inr w1"
    and f: "r_receiveError it = Some f"
  shows "\<exists>w2 q. taps_receive_error a data reason w =
      app_call (Some f) (ReceiveError (c_app_ctx cn) (r_app_ctx it) reason) w2 \<and>
    recv_ok c (xs @ ys) w2 \<and> cheap w2 = hput (cheap w) c (cn\<lparr>rcvq := q\<rparr>) \<and> sheap w2 = sheap w \<and> proto w2 = proto w \<and>
    trace w2 = trace w \<and> faults w2 = faults w \<and> msgs w2 = msgs w \<and> vheap w2 = vheap w1"
proof -
  obtain vh where w1: "w1 = w\<lparr>vheap := vh\<rparr>" using free_data_frame [OF fd] by blast
  from recv_itemE [OF ok, of a] it obtain m where
    c: "r_connection it = c" and m: "msgs w (r_message it) = Some (Live m)" by fastforce
  have "recv_ok c (xs @ a # ys) w1"
    by (rule recv_ok_cong [OF ok, where cn' = cn]) (use w1 cn ok in \<open>auto simp: recv_ok_def\<close>)
  from delete_recv_ok [OF this, of cn it] w1 cn it obtain h' q where
    "delete_recv c a w1 = Inr (set_conn c (cn\<lparr>rcvq := q\<rparr>) (w1\<lparr>rheap := h'\<rparr>))"
    "recv_ok c (xs @ ys) (set_conn c (cn\<lparr>rcvq := q\<rparr>) (w1\<lparr>rheap := h'\<rparr>))" by auto
  moreover from this have "taps_receive_error a data reason w =
      app_call (Some f) (ReceiveError (c_app_ctx cn) (r_app_ctx it) reason)
        (set_conn c (cn\<lparr>rcvq := q\<rparr>) (w1\<lparr>rheap := h'\<rparr>))"
    using it m cn fd f c by (simp add: taps_receive_error_def)
  ultimately show ?thesis using w1
    by (intro exI [of _ "set_conn c (cn\<lparr>rcvq := q\<rparr>) (w1\<lparr>rheap := h'\<rparr>)"] exI [of _ q]) simp
qed

lemma received_ok:
  assumes ok: "recv_ok c (xs @ a # ys) w" and cn: "cheap w c = Some (Live cn)"
    and it: "rheap w a = Some (Live it)" and fd: "free_data data w = Inr w1"
    and f: "r_received it = Some f" and fe: "r_receiveError it = Some fe"
  shows "\<exists>w2 q. taps_received a data n w = w2 \<and> recv_ok c (xs @ ys) w2 \<and>
    cheap w2 = hput (cheap w) c (cn\<lparr>rcvq := q\<rparr>) \<and> sheap w2 = sheap w \<and> proto w2 = proto w \<and> msgs w2 = msgs w \<and>
    (if currLength it + n < minLength it
     then trace w2 = trace w @ [(fe, ReceiveError (c_app_ctx cn) (r_app_ctx it) ''Message below minLength'')] \<and>
       faults w2 = faults w
     else trace w2 = trace w @ [(f, Received (c_app_ctx cn) (r_app_ctx it) (currLength it + n))] \<and>
       faults w2 = faults w @ [UseAfterFree])"
proof -
  obtain vh where w1: "w1 = w\<lparr>vheap := vh\<rparr>" using free_data_frame [OF fd] by blast
  from recv_itemE [OF ok, of a] it obtain m where
    c: "r_connection it = c" and m: "msgs w (r_message it) = Some (Live m)" by fastforce
  let ?it = "it\<lparr>currLength := currLength it + n\<rparr>"
  let ?w2 = "w1\<lparr>rheap := hput (rheap w1) a ?it\<rparr>"
  have ok2: "recv_ok c (xs @ a # ys) ?w2"
    using recv_ok_bump [of c "xs @ a # ys" w1 a it] ok it w1 by (simp add: recv_ok_def recv_item_ok_def)
  show ?thesis
  proof (cases "currLength it + n < minLength it")
    case True
    have "taps_received a data n w = taps_receive_error a None ''Message below minLength'' ?w2"
      using it m cn fd c True w1 by (simp add: taps_received_def Let_def)
    moreover have "free_data None ?w2 = Inr ?w2" by (simp add: free_data_def)
    ultimately show ?thesis
      using receive_error_ok [OF ok2, of cn ?it None ?w2 fe] cn w1 fe True
      by (fastforce simp: recv_ok_def recv_item_ok_def)
  next
    case False
    from delete_recv_ok [OF ok2, of cn ?it] w1 cn obtain h' q where
      del: "delete_recv c a ?w2 = Inr (set_conn c (cn\<lparr>rcvq := q\<rparr>) (?w2\<lparr>rheap := h'\<rparr>))"
      "recv_ok c (xs @ ys) (set_conn c (cn\<lparr>rcvq := q\<rparr>) (?w2\<lparr>rheap := h'\<rparr>))" "h' a = Some (Freed ?it)" by auto
    then have "taps_received a data n w =
        app_call (Some f) (Received (c_app_ctx cn) (r_app_ctx it) (currLength it + n))
          (add_fault UseAfterFree (set_conn c (cn\<lparr>rcvq := q\<rparr>) (?w2\<lparr>rheap := h'\<rparr>)))"
      using it m cn fd c False w1 f
      by (simp add: taps_received_def stale_currLength_def Let_def)
    with del w1 False show ?thesis by (auto simp: recv_ok_def recv_item_ok_def)
  qed
qed

section \<open>The machine\<close>

text \<open>
  The application posts receives and the protocol answers the one it was given last, with the
  array it was given, by \<open>_taps_received_partial\<close> (the only answer src/src/tcp/tcp.c gives).
  The protocol records the calls it gets; \<open>answered\<close> counts its callbacks and \<open>posted\<close>
  the contexts the application passed. An answer never claims more bytes than the message holds.
\<close>

record recv_state =
  rw :: "log_entry list conn_world"
  answered :: nat
  posted :: "ctx list"

fun is_receive :: "log_entry \<Rightarrow> bool" where
  "is_receive (LReceive _ _ _) = True"
| "is_receive (LSend _ _) = False"

definition receive_calls :: "log_entry list conn_world \<Rightarrow> log_entry list" where
  "receive_calls w = filter is_receive (proto w)"

fun partial_ctx :: "app_callback \<Rightarrow> ctx list" where
  "partial_ctx (ReceivedPartial _ a _ _) = [a]"
| "partial_ctx _ = []"

definition partials :: "app_event list \<Rightarrow> ctx list" where
  "partials tr = concat (map (partial_ctx \<circ> snd) tr)"

definition recv_callbacks :: "tapsCallbacks \<Rightarrow> bool" where
  "recv_callbacks cb \<longleftrightarrow> cb_received cb \<noteq> None \<and> cb_receivedPartial cb \<noteq> None \<and> cb_receiveError cb \<noteq> None"

definition recv_start :: "addr \<Rightarrow> recv_state \<Rightarrow> bool" where
  "recv_start c s \<longleftrightarrow> recv_ok c [] (rw s) \<and> (\<exists>cn. cheap (rw s) c = Some (Live cn) \<and> receiveReady cn) \<and>
     answered s = 0 \<and> posted s = [] \<and> proto (rw s) = [] \<and> trace (rw s) = [] \<and> faults (rw s) = []"

inductive recv_step :: "addr \<Rightarrow> recv_state \<Rightarrow> recv_state \<Rightarrow> bool" for c where
  recv_post: "\<not> allocated (rheap (rw s)) a \<Longrightarrow> msgs (rw s) msg = Some (Live m) \<Longrightarrow> msg_ok m \<Longrightarrow>
    recv_callbacks cb \<Longrightarrow>
    recv_step c s (s\<lparr>rw := snd (snd (tapsConnectionReceive recorder (Some a) c app msg minl maxl (Some cb) (rw s))),
      posted := posted s @ [app]\<rparr>)"
| recv_answer: "receive_calls (rw s) = calls @ [LReceive a data cnt] \<Longrightarrow> length calls = answered s \<Longrightarrow>
    rheap (rw s) a = Some (Live it) \<Longrightarrow> msgs (rw s) (r_message it) = Some (Live m) \<Longrightarrow>
    unat (currLength it + n) \<le> msg_total m \<Longrightarrow>
    recv_step c s (s\<lparr>rw := taps_received_partial recorder (Some v) a data n (rw s), answered := answered s + 1\<rparr>)"

definition recv_queue_ok :: "addr \<Rightarrow> addr list \<Rightarrow> recv_state \<Rightarrow> bool" where
  "recv_queue_ok c xs s \<longleftrightarrow> recv_ok c xs (rw s) \<and>
     (\<exists>cn. cheap (rw s) c = Some (Live cn) \<and> receiveReady cn = (xs = [])) \<and>
     length (receive_calls (rw s)) = answered s + (if xs = [] then 0 else 1) \<and>
     (xs \<noteq> [] \<longrightarrow> (\<exists>calls data cnt. receive_calls (rw s) = calls @ [LReceive (hd xs) data cnt] \<and>
        (\<forall>d. data = Some d \<longrightarrow> allocated (vheap (rw s)) d))) \<and>
     posted s = partials (trace (rw s)) @ map (\<lambda>a. r_app_ctx (the (view (rheap (rw s)) a))) xs \<and>
     faults (rw s) = replicate (length (partials (trace (rw s)))) UseAfterFree"

definition recv_inv :: "addr \<Rightarrow> recv_state \<Rightarrow> bool" where
  "recv_inv c s \<longleftrightarrow> (\<exists>xs. recv_queue_ok c xs s)"

lemma recorder_receive [simp]: "h_receive recorder pc a own vs n p = p @ [LReceive a own n]"
  by (simp add: recorder_def)

lemma recv_inv_post:
  assumes q: "recv_queue_ok c xs s" and a: "\<not> allocated (rheap (rw s)) a"
    and m: "msgs (rw s) msg = Some (Live m)" "msg_ok m" and cb: "recv_callbacks cb"
  shows "recv_queue_ok c (xs @ [a])
    (s\<lparr>rw := snd (snd (tapsConnectionReceive recorder (Some a) c app msg minl maxl (Some cb) (rw s))),
      posted := posted s @ [app]\<rparr>)"
proof -
  from q obtain cn where cn: "cheap (rw s) c = Some (Live cn)" "item_queue (rheap (rw s)) (rcvq cn) xs"
    and rdy: "receiveReady cn = (xs = [])" and ok: "recv_ok c xs (rw s)"
    by (auto simp: recv_queue_ok_def recv_ok_def)
  then have new: "x \<noteq> a" if "x \<in> set xs" for x
    using a item_queue_live that by (fastforce simp: allocated_def)
  from cb have cb': "cb_received cb \<noteq> None" "cb_receivedPartial cb \<noteq> None" "cb_receiveError cb \<noteq> None"
    by (simp_all add: recv_callbacks_def)
  obtain w1 where w1: "snd (snd (tapsConnectionReceive recorder (Some a) c app msg minl maxl (Some cb) (rw s))) = w1"
    "recv_ok c (xs @ [a]) w1" "trace w1 = trace (rw s)" "faults w1 = faults (rw s)" "vheap w1 = vheap (rw s)"
    "\<exists>cn'. cheap w1 c = Some (Live cn') \<and> \<not> receiveReady cn'"
    "r_app_ctx (the (view (rheap w1) a)) = app" "\<forall>b. b \<noteq> a \<longrightarrow> view (rheap w1) b = view (rheap (rw s)) b"
    "proto w1 = (if xs = [] then proto (rw s) @ [LReceive a None (iovcnt m)] else proto (rw s))"
    using recv_new_ok [OF ok cn(1) a m cb', of recorder app minl maxl] rdy by fastforce
  have mp: "map (\<lambda>a. r_app_ctx (the (view (rheap w1) a))) xs = map (\<lambda>a. r_app_ctx (the (view (rheap (rw s)) a))) xs"
    using w1(8) new by simp
  show ?thesis
  proof (cases "xs = []")
    case True
    then show ?thesis using q w1 unfolding recv_queue_ok_def by (auto simp: receive_calls_def)
  next
    case False
    then show ?thesis using q w1 mp unfolding recv_queue_ok_def by (auto simp: receive_calls_def)
  qed
qed

lemma free_data_live:
  "(\<forall>d. data = Some d \<longrightarrow> allocated (vheap w) d) \<Longrightarrow> \<exists>w1. free_data data w = Inr w1"
  by (cases data) (auto simp: free_data_def allocated_def)

lemma partials_snoc: "partials (tr @ [(f, ReceivedPartial conn a n e)]) = partials tr @ [a]"
  by (simp add: partials_def)

lemma recv_inv_short:
  assumes q: "recv_queue_ok c xs s" and xs: "xs = a # ys"
    and calls: "receive_calls (rw s) = calls @ [LReceive a data cnt]" "length calls = answered s"
    and it: "rheap (rw s) a = Some (Live it)" and m: "msgs (rw s) (r_message it) = Some (Live m)"
    and room: "unat (currLength it + n) \<le> msg_total m" and short: "currLength it + n < minLength it"
    and fd: "free_data data (rw s) = Inr w1"
  shows "recv_queue_ok c xs
    (s\<lparr>rw := taps_received_partial recorder (Some v) a data n (rw s), answered := answered s + 1\<rparr>)"
proof -
  let ?w = "taps_received_partial recorder (Some v) a data n (rw s)"
  from q obtain cn where cn: "cheap (rw s) c = Some (Live cn)" and rdy: "receiveReady cn = (xs = [])"
    and ok: "recv_ok c xs (rw s)" by (auto simp: recv_queue_ok_def)
  obtain vh where w1: "w1 = (rw s)\<lparr>vheap := vh\<rparr>" using free_data_frame [OF fd] by blast
  from partial_short [OF ok cn _ it short fd m room, of recorder v] xs obtain ws cnt' where
    w: "?w = w1\<lparr>rheap := hput (rheap (rw s)) a (it\<lparr>currLength := currLength it + n\<rparr>),
         vheap := hput (vheap w1) v ws, proto := proto (rw s) @ [LReceive a (Some v) cnt']\<rparr>" by auto
  have "recv_ok c xs ?w"
    using recv_ok_bump [OF ok it, of "currLength it + n"] xs w w1
    by (auto simp: recv_ok_def recv_item_ok_def)
  moreover have "map (\<lambda>b. r_app_ctx (the (view (rheap ?w) b))) xs =
      map (\<lambda>b. r_app_ctx (the (view (rheap (rw s)) b))) xs"
    using w view_live [of "rheap (rw s)", OF it] by (simp add: view_hput)
  moreover have "receive_calls ?w = receive_calls (rw s) @ [LReceive a (Some v) cnt']"
    "allocated (vheap ?w) v" "cheap ?w = cheap (rw s)" "trace ?w = trace (rw s)" "faults ?w = faults (rw s)"
    using w w1 by (simp_all add: receive_calls_def allocated_def)
  ultimately show ?thesis using q xs calls rdy unfolding recv_queue_ok_def by auto
qed

lemma recv_inv_enough:
  assumes q: "recv_queue_ok c xs s" and xs: "xs = a # ys"
    and calls: "receive_calls (rw s) = calls @ [LReceive a data cnt]" "length calls = answered s"
    and it: "rheap (rw s) a = Some (Live it)" and enough: "minLength it \<le> currLength it + n"
    and fd: "free_data data (rw s) = Inr w1"
  shows "recv_queue_ok c ys
    (s\<lparr>rw := taps_received_partial recorder alloc a data n (rw s), answered := answered s + 1\<rparr>)"
proof -
  let ?w = "taps_received_partial recorder alloc a data n (rw s)"
  from q obtain cn where cn: "cheap (rw s) c = Some (Live cn)" and rdy: "\<not> receiveReady cn"
    and ok: "recv_ok c ([] @ a # ys) (rw s)" using xs by (auto simp: recv_queue_ok_def)
  from ok have d: "a \<notin> set ys" by (auto simp: recv_ok_def item_queue_def)
  from recv_itemE [OF ok, of a] it have va: "view (rheap (rw s)) a = Some (it\<lparr>next_i := None, prev_i := None\<rparr>)"
    by fastforce
  with ok obtain f where f: "r_receivedPartial it = Some f" by (fastforce simp: recv_ok_def recv_item_ok_def)
  from partial_enough [OF ok cn it enough fd f refl, of recorder alloc] rdy have
    w: "recv_ok c ys ?w" "\<exists>cn'. cheap ?w c = Some (Live cn') \<and> receiveReady cn' = (ys = [])"
    "trace ?w = trace (rw s) @ [(f, ReceivedPartial (c_app_ctx cn) (r_app_ctx it) (currLength it + n) False)]"
    "faults ?w = faults (rw s) @ [UseAfterFree]"
    "\<And>b. b \<in> set ys \<Longrightarrow> view (rheap ?w) b = view (rheap (rw s)) b"
    "proto ?w = (case ys of [] \<Rightarrow> proto (rw s) | b # _ \<Rightarrow> start_receive recorder (c_proto_ctx cn) b (rw s))"
    using d by auto
  have p: "\<exists>k. proto ?w = proto (rw s) @ [LReceive b None k]" if "ys = b # bs" for b bs
    using that ok w(6) by (auto simp: start_receive_def recv_ok_def recv_item_ok_def)
  have "map (\<lambda>b. r_app_ctx (the (view (rheap ?w) b))) ys = map (\<lambda>b. r_app_ctx (the (view (rheap (rw s)) b))) ys"
    using w(5) by simp
  moreover have "faults ?w = replicate (length (partials (trace ?w))) UseAfterFree"
    using q w(3,4) by (simp add: recv_queue_ok_def partials_snoc replicate_append_same)
  moreover have "posted s = partials (trace ?w) @ map (\<lambda>b. r_app_ctx (the (view (rheap (rw s)) b))) ys"
    using q xs va w(3) by (simp add: recv_queue_ok_def partials_snoc)
  moreover have "length (receive_calls ?w) = answered s + 1 + (if ys = [] then 0 else 1) \<and>
      (ys \<noteq> [] \<longrightarrow> (\<exists>calls cnt. receive_calls ?w = calls @ [LReceive (hd ys) None cnt]))"
    using calls w(6) p by (cases ys) (fastforce simp: receive_calls_def)+
  ultimately show ?thesis using w(1,2) unfolding recv_queue_ok_def by auto
qed

lemma recv_inv_step: "recv_step c s t \<Longrightarrow> recv_inv c s \<Longrightarrow> recv_inv c t"
proof (induction rule: recv_step.induct)
  case (recv_post s a msg m cb app minl maxl)
  then show ?case unfolding recv_inv_def using recv_inv_post by blast
next
  case (recv_answer s calls a data cnt it m n v)
  from recv_answer.prems obtain xs where q: "recv_queue_ok c xs s" by (auto simp: recv_inv_def)
  with recv_answer(1,2) obtain ys where xs: "xs = a # ys"
    by (cases xs) (auto simp: recv_queue_ok_def)
  have "\<forall>d. data = Some d \<longrightarrow> allocated (vheap (rw s)) d"
    using q xs recv_answer(1) by (auto simp: recv_queue_ok_def)
  then obtain w1 where fd: "free_data data (rw s) = Inr w1" using free_data_live by blast
  show ?case
    using recv_inv_short [OF q xs recv_answer(1-5) _ fd] recv_inv_enough [OF q xs recv_answer(1-3) _ fd]
    unfolding recv_inv_def by (meson not_less)
qed

interpretation receiving: inv_system "recv_start c" "recv_step c" "recv_inv c"
proof
  fix s
  assume "recv_start c s"
  then have "recv_queue_ok c [] s"
    by (auto simp: recv_start_def recv_queue_ok_def receive_calls_def partials_def)
  then show "recv_inv c s" by (auto simp: recv_inv_def)
qed (rule recv_inv_step)

section \<open>Properties\<close>

text \<open>
  C5. Receives are serialised and answered in order, as docs/protocols.md promises: in every
  reachable state the protocol has been called once more than it has answered if a receive is
  queued and just as often otherwise, and the contexts the application posted are those already
  answered, in order, followed by those queued. Each answered receive has read its freed item once.
\<close>

theorem receive_one_outstanding:
  assumes "recv_start c s" "reaches (recv_step c) s t"
  shows "\<exists>xs cn. cheap (rw t) c = Some (Live cn) \<and> item_queue (rheap (rw t)) (rcvq cn) xs \<and>
    receiveReady cn = (xs = []) \<and>
    length (receive_calls (rw t)) = answered t + (if xs = [] then 0 else 1) \<and>
    posted t = partials (trace (rw t)) @ map (\<lambda>a. r_app_ctx (the (view (rheap (rw t)) a))) xs \<and>
    faults (rw t) = replicate (length (partials (trace (rw t)))) UseAfterFree"
  using receiving.inv_reachable [OF assms]
  by (fastforce simp: recv_inv_def recv_queue_ok_def recv_ok_def)

text \<open>A receive of at least 4 bytes is posted and the protocol answers with 3.\<close>

definition demo_post :: "recv_state \<Rightarrow> recv_state" where
  "demo_post s = s\<lparr>rw := snd (snd (tapsConnectionReceive recorder (Some 20) 1 (Some 90) 2 4 8 (Some all_callbacks) (rw s))),
     posted := posted s @ [Some 90]\<rparr>"

definition demo_idle :: recv_state where
  "demo_idle = \<lparr>rw = demo_world, answered = 0, posted = []\<rparr>"

definition demo_posted :: recv_state where
  "demo_posted = demo_post demo_idle"

definition demo_short :: recv_state where
  "demo_short = demo_posted\<lparr>rw := taps_received_partial recorder (Some 30) 20 None 3 (rw demo_posted), answered := 0 + 1\<rparr>"

definition demo_item :: recv_item where
  "demo_item = \<lparr>next_i = None, prev_i = None, r_message = 2, minLength = 4, maxLength = 8, currLength = 0,
     r_connection = 1, r_app_ctx = Some 90, r_received = Some 7, r_receivedPartial = Some 8, r_receiveError = Some 9\<rparr>"

lemma demo_posted_facts:
  "cheap (rw demo_posted) 1 = Some (Live (demo_conn\<lparr>rcvq := Some 20, receiveReady := False\<rparr>))"
  "rheap (rw demo_posted) 20 = Some (Live demo_item)" "item_queue (rheap (rw demo_posted)) (Some 20) [20]"
  "msgs (rw demo_posted) = msgs demo_world" "proto (rw demo_posted) = [LReceive 20 None 1]"
  "answered demo_posted = 0" "trace (rw demo_posted) = []" "faults (rw demo_posted) = []"
  by (simp_all add: demo_posted_def demo_post_def demo_idle_def tapsConnectionReceive_def call_receive_def
      item_queue_def tapsMessageGetIovec_def add_item_def Let_def demo_defs demo_item_def)

lemma demo_messages:
  "msgs demo_world 2 = Some (Live (demo_message 1000))" "msg_ok (demo_message 1000)" "msg_total (demo_message 1000) = 8"
  by (simp_all add: demo_defs msg_ok_def msg_vec_def msg_total_def)

lemma demo_posted_ok: "recv_ok 1 ([] @ 20 # []) (rw demo_posted)"
  using demo_posted_facts demo_messages view_live [of "rheap (rw demo_posted)", OF demo_posted_facts(2)]
  by (auto simp: recv_ok_def recv_item_ok_def demo_item_def demo_conn_def)

lemma demo_idle_start: "recv_start 1 demo_idle"
  by (auto simp: recv_start_def recv_ok_def demo_idle_def demo_defs)

lemma demo_short_steps: "reaches (recv_step 1) demo_idle demo_short"
proof -
  have 1: "recv_step 1 demo_idle demo_posted"
    unfolding demo_posted_def demo_post_def
    by (rule recv_post [where m = "demo_message 1000"])
      (simp_all add: recv_callbacks_def demo_idle_def demo_messages, simp_all add: demo_defs allocated_def)
  have "recv_step 1 demo_posted
      (demo_posted\<lparr>rw := taps_received_partial recorder (Some 30) 20 None 3 (rw demo_posted),
        answered := answered demo_posted + 1\<rparr>)"
    by (rule recv_answer [where calls = "[]" and cnt = 1 and it = demo_item and m = "demo_message 1000"])
      (simp_all add: demo_posted_facts receive_calls_def demo_item_def demo_messages)
  then have 2: "recv_step 1 demo_posted demo_short"
    by (simp only: demo_short_def demo_posted_facts)
  show ?thesis by (rule reaches_step [of "recv_step 1", OF reaches_single [of "recv_step 1", OF 1] 2])
qed

theorem receive_one_outstanding_witness:
  "\<exists>xs cn. cheap (rw demo_short) 1 = Some (Live cn) \<and> item_queue (rheap (rw demo_short)) (rcvq cn) xs \<and>
    receiveReady cn = (xs = []) \<and>
    length (receive_calls (rw demo_short)) = answered demo_short + (if xs = [] then 0 else 1) \<and>
    posted demo_short = partials (trace (rw demo_short)) @ map (\<lambda>a. r_app_ctx (the (view (rheap (rw demo_short)) a))) xs \<and>
    faults (rw demo_short) = replicate (length (partials (trace (rw demo_short)))) UseAfterFree"
  by (rule receive_one_outstanding [OF demo_idle_start demo_short_steps])

text \<open>
  C15. Below the minimum length nothing reaches the application: the item keeps its place and the
  sum of what has arrived, the array the protocol returned is released, and the protocol is called
  again for the same item with a new array that denotes the message without the bytes that have
  arrived so far, in any memory.
\<close>

theorem partial_below_min_continues:
  assumes "recv_ok c xs w" "cheap w c = Some (Live cn)" "a \<in> set xs" "rheap w a = Some (Live it)"
    "currLength it + n < minLength it" "free_data data w = Inr w1"
    "msgs w (r_message it) = Some (Live m)" "unat (currLength it + n) \<le> msg_total m"
  shows "\<exists>ws. taps_received_partial h (Some v) a data n w =
      w1\<lparr>rheap := hput (rheap w) a (it\<lparr>currLength := currLength it + n\<rparr>),
         vheap := hput (vheap w1) v ws,
         proto := h_receive h (c_proto_ctx cn) a (Some v) ws (int (length ws)) (proto w)\<rparr> \<and>
    (\<forall>mem. vec_bytes mem ws = drop (unat (currLength it + n)) (msg_bytes mem m))"
  using partial_short [OF assms, of h v] by auto

theorem partial_below_min_continues_witness:
  "\<exists>ws. proto (rw demo_short) = [LReceive 20 None 1, LReceive 20 (Some 30) (int (length ws))] \<and>
    vec_bytes (\<lambda>k. of_nat k) ws = drop 3 (msg_bytes (\<lambda>k. of_nat k) (demo_message 1000))"
proof -
  have "\<exists>ws. taps_received_partial recorder (Some 30) 20 None 3 (rw demo_posted) =
      (rw demo_posted)\<lparr>rheap := hput (rheap (rw demo_posted)) 20 (demo_item\<lparr>currLength := currLength demo_item + 3\<rparr>),
         vheap := hput (vheap (rw demo_posted)) 30 ws,
         proto := h_receive recorder (c_proto_ctx (demo_conn\<lparr>rcvq := Some 20, receiveReady := False\<rparr>)) 20 (Some 30) ws
           (int (length ws)) (proto (rw demo_posted))\<rparr> \<and>
    (\<forall>mem. vec_bytes mem ws = drop (unat (currLength demo_item + 3)) (msg_bytes mem (demo_message 1000)))"
    by (rule partial_below_min_continues [OF demo_posted_ok demo_posted_facts(1) _ demo_posted_facts(2)])
      (simp_all add: demo_item_def demo_posted_facts demo_messages free_data_def)
  then show ?thesis by (fastforce simp: demo_short_def demo_posted_facts demo_item_def)
qed

text \<open>
  C16. At or above the minimum length the application gets one ReceivedPartial event with the
  total of all pieces of this receive, the item leaves the queue, and the next queued receive is
  given to the protocol or the connection becomes ready. The length passed to the application is
  read from the item after the item was freed.
\<close>

theorem partial_above_min_delivers:
  assumes "recv_ok c (xs @ a # ys) w" "cheap w c = Some (Live cn)" "rheap w a = Some (Live it)"
    "minLength it \<le> currLength it + n" "free_data data w = Inr w1" "r_receivedPartial it = Some f"
  shows "let w' = taps_received_partial h alloc a data n w in
    recv_ok c (xs @ ys) w' \<and>
    trace w' = trace w @ [(f, ReceivedPartial (c_app_ctx cn) (r_app_ctx it) (currLength it + n) False)] \<and>
    faults w' = faults w @ [UseAfterFree] \<and>
    (case ys of
       [] \<Rightarrow> proto w' = proto w \<and> (\<exists>cn'. cheap w' c = Some (Live cn') \<and> receiveReady cn')
     | b # _ \<Rightarrow> (\<exists>u m. view (rheap w) b = Some u \<and> msgs w (r_message u) = Some (Live m) \<and>
         proto w' = h_receive h (c_proto_ctx cn) b None (msg_vec m) (iovcnt m) (proto w)))"
proof -
  have next_item: "\<exists>u m. view (rheap w) b = Some u \<and> msgs w (r_message u) = Some (Live m)"
    if "ys = b # bs" for b bs
    using assms(1) that by (auto simp: recv_ok_def recv_item_ok_def)
  from partial_enough [OF assms refl, of h alloc] next_item show ?thesis
    by (cases ys) (fastforce simp: start_receive_def Let_def)+
qed

theorem partial_above_min_delivers_witness:
  "let w' = taps_received_partial recorder None 20 None 5 (rw demo_posted) in
    trace w' = [(8, ReceivedPartial (Some 60) (Some 90) 5 False)] \<and> faults w' = [UseAfterFree] \<and>
    recv_ok 1 [] w'"
  using partial_above_min_delivers [OF demo_posted_ok demo_posted_facts(1,2), of 5 None "rw demo_posted" 8 recorder None]
  by (simp add: demo_posted_facts demo_item_def demo_conn_def free_data_def Let_def)

text \<open>
  A receive that ends with Received or ReceiveError stalls the connection: the next queued
  receive is not given to the protocol and the ready flag stays down, so the receives that are
  queued and every one posted later only wait.
\<close>

theorem receive_stalls_after_complete:
  assumes "recv_ok c (a # ys) w" "cheap w c = Some (Live cn)" "\<not> receiveReady cn"
    "rheap w a = Some (Live it)" "free_data data w = Inr w1"
    "w' = taps_received a data n w \<or> w' = taps_receive_error a data reason w"
    "\<not> allocated (rheap w') b" "msgs w' msg = Some (Live m)" "msg_ok m" "recv_callbacks cb"
  shows "\<exists>w2 cn2. tapsConnectionReceive h (Some b) c app msg minl maxl (Some cb) w' = (0, None, w2) \<and>
    proto w2 = proto w \<and> recv_ok c (ys @ [b]) w2 \<and> cheap w2 c = Some (Live cn2) \<and> \<not> receiveReady cn2"
proof -
  from recv_itemE [OF assms(1), of a] assms(4)
  have "view (rheap w) a = Some (it\<lparr>next_i := None, prev_i := None\<rparr>)" by fastforce
  with assms(1) obtain f fe where f: "r_received it = Some f" "r_receiveError it = Some fe"
    by (fastforce simp: recv_ok_def recv_item_ok_def)
  have ok: "recv_ok c ([] @ a # ys) w" using assms(1) by simp
  obtain q where w': "recv_ok c ys w'" "cheap w' c = Some (Live (cn\<lparr>rcvq := q\<rparr>))" "proto w' = proto w"
    using assms(6) received_ok [OF ok assms(2,4,5) f, of n]
      receive_error_ok [OF ok assms(2,4,5) f(2), of reason]
    by (auto simp: recv_ok_def recv_item_ok_def)
  from recv_new_ok [OF w'(1,2) assms(7-9), of cb h app minl maxl] assms(3,10) w'(3)
  show ?thesis by (auto simp: recv_callbacks_def)
qed

theorem receive_stalls_after_complete_witness:
  "\<exists>w2 cn2. tapsConnectionReceive recorder (Some 40) 1 None 3 1 8 (Some all_callbacks)
      (taps_received 20 None 8 (rw demo_posted)) = (0, None, w2) \<and>
    proto w2 = proto (rw demo_posted) \<and> recv_ok 1 ([] @ [40]) w2 \<and>
    cheap w2 1 = Some (Live cn2) \<and> \<not> receiveReady cn2"
proof (rule receive_stalls_after_complete [where n = 8 and reason = "[]" and data = None, OF _ demo_posted_facts(1) _ demo_posted_facts(2)])
  show "recv_ok 1 [20] (rw demo_posted)" using demo_posted_ok by simp
  show "\<not> allocated (rheap (taps_received 20 None 8 (rw demo_posted))) 40"
    "msgs (taps_received 20 None 8 (rw demo_posted)) 3 = Some (Live (demo_message 2000))"
    by (simp_all add: demo_posted_def demo_post_def demo_idle_def tapsConnectionReceive_def call_receive_def
      tapsMessageGetIovec_def add_item_def Let_def demo_defs taps_received_def free_data_def delete_recv_def
      delete_item_def unlink_prev_def unlink_next_def stale_currLength_def allocated_def)
qed (simp_all add: free_data_def recv_callbacks_def all_callbacks_def demo_message_def msg_ok_def msg_vec_def)

end
