(* ===== verification/Taps_Lifecycle.thy ===== *)
theory Taps_Lifecycle
  imports Taps_Send Taps_Receive
begin

text \<open>
  How a connection begins and ends: the listener's handler for new connections
  (src/src/taps_listener.c, \<open>_taps_connection_received\<close>), the two ways the protocol ends a
  connection, and \<open>tapsConnectionFree\<close>.
\<close>

section \<open>Accepting and closing\<close>

definition new_conn :: "ctx \<Rightarrow> addr \<Rightarrow> addr \<Rightarrow> tapsConnection" where
  "new_conn pctx hs l = \<lparr>c_proto_ctx = pctx, c_app_ctx = None, c_handles = Some hs, sndq = None,
     rcvq = None, c_closed = None, c_connectionError = None, sendReady = True, receiveReady = True,
     c_listener = Some l\<rparr>"

lemma set_conn_twice [simp]: "set_conn c x (set_conn c y w) = set_conn c x w"
  by (simp add: set_conn_def hput_def)

lemma listener_ref_conn [simp]:
  "cheap (listener_ref w) = cheap w" "trace (listener_ref w) = trace w" "faults (listener_ref w) = faults w"
  "lst (listener_ref w) = (lst w)\<lparr>ref_count := ref_count (lst w) + 1\<rparr>"
  by (simp_all add: listener_ref_def)

lemma deref_conn [simp]:
  "cheap (tapsListenerDeref w) = cheap w" "freed_handles (tapsListenerDeref w) = freed_handles w"
  "sheap (tapsListenerDeref w) = sheap w" "rheap (tapsListenerDeref w) = rheap w"
  "proto (tapsListenerDeref w) = proto w"
  by (simp_all add: tapsListenerDeref_def Let_def)

lemma deref_not_ready:
  "\<not> readyToStop (lst w) \<Longrightarrow> tapsListenerDeref w = w\<lparr>lst := (lst w)\<lparr>ref_count := ref_count (lst w) - 1\<rparr>\<rparr>"
  by (simp add: tapsListenerDeref_def Let_def)

lemma closed_with_listener:
  assumes "cheap w c = Some (Live cn)" "c_listener cn \<noteq> None"
  shows "taps_closed c w =
    (let w1 = set_conn c (cn\<lparr>c_listener := None, c_proto_ctx := None\<rparr>) (tapsListenerDeref w) in
     if c_closed cn \<noteq> None then app_call (c_closed cn) (Closed (c_app_ctx cn)) w1 else w1)"
  using assms by (auto simp: taps_closed_def drop_listener_def Let_def)

lemma connection_received_unfold:
  assumes "l_connectionReceived (lst w) = Some f" "accept (l_app_ctx (lst w)) c = (app, cbs)"
    "w3 = app_call (Some f) (ConnectionReceived (l_app_ctx (lst w)) c) (listener_ref (set_conn c (new_conn pctx hs l) w))"
  shows "taps_connection_received accept (Some c) l hs pctx w =
    (case cbs of None \<Rightarrow> (None, taps_closed c w3)
     | Some cb \<Rightarrow> if cb_closed cb = None \<or> cb_connectionError cb = None then (None, taps_closed c w3)
       else (Some c, set_conn c ((new_conn pctx hs l)\<lparr>c_app_ctx := (case app of None \<Rightarrow> Some c | Some a \<Rightarrow> Some a),
         c_closed := cb_closed cb, c_connectionError := cb_connectionError cb\<rparr>) w3))"
  using assms
  by (simp add: taps_connection_received_def taps_connection_received_begin_def
      taps_connection_received_end_def tapsConnectionNew_def new_conn_def [symmetric]
      tapsConnectionInitialize_def Let_def split: option.split)

lemma connection_rejected:
  assumes "\<not> readyToStop (lst w)" 
    "w3 = app_call (Some f) e (listener_ref (set_conn c (new_conn pctx hs l) w))"
  shows "trace (taps_closed c w3) = trace w @ [(f, e)]" "faults (taps_closed c w3) = faults w"
    "ref_count (lst (taps_closed c w3)) = ref_count (lst w)"
  using assms closed_with_listener [of w3 c "new_conn pctx hs l"] deref_not_ready [of w3]
  by (simp_all add: new_conn_def Let_def)

text \<open>
  C17. A new connection is all or nothing for the listener's count. If the application answers the
  event with usable callbacks, the connection exists with empty queues, ready to send and receive,
  and the count went up by one; if it does not, the count is what it was, no callback of the
  connection was called, and the protocol is told (\<open>NULL\<close>) to drop its side.
\<close>

theorem connection_received_balanced:
  assumes "\<not> readyToStop (lst w)" "l_connectionReceived (lst w) = Some f"
    "accept (l_app_ctx (lst w)) c = (app, cbs)"
  shows "case taps_connection_received accept (Some c) l hs pctx w of (res, w') \<Rightarrow>
    trace w' = trace w @ [(f, ConnectionReceived (l_app_ctx (lst w)) c)] \<and> faults w' = faults w \<and>
    (if \<exists>cb. cbs = Some cb \<and> cb_closed cb \<noteq> None \<and> cb_connectionError cb \<noteq> None
     then res = Some c \<and> ref_count (lst w') = ref_count (lst w) + 1 \<and>
       send_ok c [] w' \<and> recv_ok c [] w' \<and>
       (\<exists>cn. cheap w' c = Some (Live cn) \<and> sendReady cn \<and> receiveReady cn \<and> c_proto_ctx cn = pctx \<and>
          c_listener cn = Some l \<and> c_app_ctx cn = (if app = None then Some c else app))
     else res = None \<and> ref_count (lst w') = ref_count (lst w))"
proof -
  let ?w = "app_call (Some f) (ConnectionReceived (l_app_ctx (lst w)) c) (listener_ref (set_conn c (new_conn pctx hs l) w))"
  note rej = connection_rejected [OF assms(1), of ?w f "ConnectionReceived (l_app_ctx (lst w)) c" c pctx hs l]
  show ?thesis
    unfolding connection_received_unfold [of w f accept c app cbs ?w pctx hs l, OF assms(2,3) refl]
    using rej by (cases cbs; cases app) (auto simp: send_ok_def recv_ok_def new_conn_def)
qed

theorem connection_received_balanced_witness:
  "fst (taps_connection_received (\<lambda>_ _. (None, Some all_callbacks)) (Some 200) 80 70 (Some 51) demo_world) = Some 200 \<and>
   fst (taps_connection_received (\<lambda>_ _. (None, None)) (Some 200) 80 70 (Some 51) demo_world) = None"
  using connection_received_balanced [where w = demo_world and f = 1 and accept = "\<lambda>_ _. (None, Some all_callbacks)" and c = 200 and l = 80 and hs = 70 and pctx = "Some 51"]
    connection_received_balanced [where w = demo_world and f = 1 and accept = "\<lambda>_ _. (None, None)" and c = 200 and l = 80 and hs = 70 and pctx = "Some 51"]
  by (auto simp: demo_world_def zero_listener_def all_callbacks_def split: prod.splits)

text \<open>
  The protocol's Closed report gives the listener's reference back once and tells the
  application once. A second report for the same connection finds no listener and passes the
  listener's own table of symbols, which was never allocated on its own, to \<open>free\<close>.
\<close>

theorem closed_twice_frees_table:
  assumes "cheap w c = Some (Live cn)" "c_listener cn \<noteq> None" "c_handles cn = Some hs"
    "c_closed cn = Some f" "\<not> readyToStop (lst w)"
  shows "ref_count (lst (taps_closed c w)) = ref_count (lst w) - 1 \<and>
    trace (taps_closed c w) = trace w @ [(f, Closed (c_app_ctx cn))] \<and>
    freed_handles (taps_closed c w) = freed_handles w \<and>
    ref_count (lst (taps_closed c (taps_closed c w))) = ref_count (lst w) - 1 \<and>
    freed_handles (taps_closed c (taps_closed c w)) = freed_handles w @ [hs]"
  using closed_with_listener [OF assms(1,2)] assms deref_not_ready [of w]
  by (simp add: taps_closed_def drop_listener_def Let_def)

theorem closed_twice_frees_table_witness:
  "freed_handles (taps_closed 1 (taps_closed 1 demo_world)) = [70] \<and>
   ref_count (lst (taps_closed 1 demo_world)) = 0"
  using closed_twice_frees_table [of demo_world 1 demo_conn 70 10]
  by (simp add: demo_world_def demo_conn_def zero_listener_def)

section \<open>Release\<close>

lemma flush_single:
  assumes "item_queue h (Some t) [t]" "h t = Some (Live it)"
  shows "flush_queue h (Some t) = ([it], h, None)"
  using assms by (auto simp: item_queue_def delete_tail_def unlink_prev_def unlink_next_def)

lemma flush_many:
  assumes "item_queue h (Some t) (xs @ [p, t])" "h t = Some (Live it)"
  shows "\<exists>h'. flush_queue h (Some t) = ([it], h', Some UseAfterFree)"
  using assms
  by (auto simp: item_queue_def delete_tail_def unlink_prev_def unlink_next_def split: prod.splits)

text \<open>
  C34. \<open>tapsConnectionFree\<close> is right only for a connection with nothing queued: then it releases
  the connection and does nothing else. With one send queued it reports the error and releases the
  connection but leaks the item; with two or more it frees the wrong item and then reads it. The
  macro that removes an item evaluates its argument again after moving the tail pointer.
\<close>

theorem connection_free_queues:
  assumes "cheap w c = Some (Live cn)" "item_queue (sheap w) (sndq cn) xs" "rcvq cn = None"
    "\<forall>a\<in>set xs. \<forall>it. sheap w a = Some (Live it) \<longrightarrow> s_sendError it \<noteq> None"
  shows "case length xs of
      0 \<Rightarrow> tapsConnectionFree c w = w\<lparr>cheap := (cheap w)(c := Some (Freed cn))\<rparr>
    | Suc 0 \<Rightarrow> (let w' = tapsConnectionFree c w in
        cheap w' c = Some (Freed cn) \<and> length (trace w') = length (trace w) + 1 \<and> faults w' = faults w \<and>
        allocated (sheap w') (hd xs))
    | _ \<Rightarrow> (let w' = tapsConnectionFree c w in
        cheap w' c = Some (Live cn) \<and> faults w' = faults w @ [UseAfterFree])"
proof (cases xs rule: rev_cases)
  case Nil
  then show ?thesis using assms
    by (simp add: tapsConnectionFree_def call_all_def item_queue_def)
next
  case (snoc ys t)
  then have t: "sndq cn = Some t" using assms(2) by (simp add: item_queue_def)
  from assms(2) snoc obtain it where it: "sheap w t = Some (Live it)"
    using item_queue_live [of "sheap w"] by fastforce
  then obtain f where f: "s_sendError it = Some f" using assms(4) snoc by fastforce
  show ?thesis
  proof (cases ys rule: rev_cases)
    case Nil
    then have "flush_queue (sheap w) (Some t) = ([it], sheap w, None)"
      using flush_single [of "sheap w" t it] assms(2) snoc t it by simp
    then show ?thesis using assms(1,3) t it f snoc Nil
      by (simp add: tapsConnectionFree_def call_all_def allocated_def)
  next
    case (snoc zs p)
    then obtain h' where "flush_queue (sheap w) (Some t) = ([it], h', Some UseAfterFree)"
      using flush_many [of "sheap w" t zs p it] assms(2) \<open>xs = ys @ [t]\<close> t it by auto
    then show ?thesis using assms(1) t f snoc \<open>xs = ys @ [t]\<close>
      by (simp add: tapsConnectionFree_def call_all_def)
  qed
qed

lemma view_sendError: "view h a = Some v \<Longrightarrow> h a = Some (Live it) \<Longrightarrow> s_sendError it = s_sendError v"
  using view_live [of h a it] by auto

theorem connection_free_queues_witness:
  "faults (tapsConnectionFree 1 (sw demo_sends)) = [UseAfterFree] \<and>
   cheap (tapsConnectionFree 1 demo_world) 1 = Some (Freed demo_conn)"
proof
  have "\<forall>a\<in>set [20, 21]. \<forall>it. sheap (sw demo_sends) a = Some (Live it) \<longrightarrow> s_sendError it \<noteq> None"
    using view_sendError [OF demo_sends_facts(3)] view_sendError [OF demo_sends_facts(4)] by auto
  then show "faults (tapsConnectionFree 1 (sw demo_sends)) = [UseAfterFree]"
    using connection_free_queues [OF demo_sends_facts(1), of "[20, 21]"] demo_sends_facts
    by (simp add: demo_conn_def Let_def)
  show "cheap (tapsConnectionFree 1 demo_world) 1 = Some (Freed demo_conn)"
    using connection_free_queues [of demo_world 1 demo_conn "[]"]
    by (simp add: demo_world_def demo_conn_def item_queue_def)
qed

end
