(* ===== verification/Taps_Conn_Inv.thy ===== *)
theory Taps_Conn_Inv
  imports Taps_Lifecycle
begin

text \<open>
  Both queues of a connection together: every operation of src/src/taps_connection.c but the release
  keeps the connection well formed, whatever the order in which the application and the protocol
  call them.
\<close>

section \<open>Well-formed connections\<close>

definition conn_wf :: "addr \<Rightarrow> 'p conn_world \<Rightarrow> bool" where
  "conn_wf c w \<longleftrightarrow> (\<exists>xs ys. send_ok c xs w \<and> recv_ok c ys w)"

text \<open>
  The calls a connection gets: sends and receives of the application with messages that exist,
  reports of the protocol for items that are queued and whose callbacks the application set. A
  report of received data never claims more than the message holds.
\<close>

inductive conn_step :: "'p proto_handles \<Rightarrow> addr \<Rightarrow> 'p conn_world \<Rightarrow> 'p conn_world \<Rightarrow> bool" for h c where
  cs_send: "\<not> allocated (sheap w) a \<Longrightarrow> allocated (msgs w) msg \<Longrightarrow>
    tapsConnectionSend h (Some a) c msg app (Some cb) w = (r, er, w') \<Longrightarrow> conn_step h c w w'"
| cs_send_nomem: "tapsConnectionSend h None c msg app cb w = (r, er, w') \<Longrightarrow> conn_step h c w w'"
| cs_outcome: "cheap w c = Some (Live cn) \<Longrightarrow> item_queue (sheap w) (sndq cn) xs \<Longrightarrow> a \<in> set xs \<Longrightarrow>
    view (sheap w) a = Some v \<Longrightarrow> outcome_fn oc v \<noteq> None \<Longrightarrow> conn_step h c w (outcome_op h oc a w)"
| cs_receive: "\<not> allocated (rheap w) a \<Longrightarrow> msgs w msg = Some (Live m) \<Longrightarrow> msg_ok m \<Longrightarrow>
    tapsConnectionReceive h (Some a) c app msg mn mx cb w = (r, er, w') \<Longrightarrow> conn_step h c w w'"
| cs_partial: "cheap w c = Some (Live cn) \<Longrightarrow> item_queue (rheap w) (rcvq cn) xs \<Longrightarrow> a \<in> set xs \<Longrightarrow>
    rheap w a = Some (Live it) \<Longrightarrow> msgs w (r_message it) = Some (Live m) \<Longrightarrow>
    unat (currLength it + n) \<le> msg_total m \<Longrightarrow> free_data data w = Inr w1 \<Longrightarrow>
    conn_step h c w (taps_received_partial h alloc a data n w)"
| cs_received: "cheap w c = Some (Live cn) \<Longrightarrow> item_queue (rheap w) (rcvq cn) xs \<Longrightarrow> a \<in> set xs \<Longrightarrow>
    free_data data w = Inr w1 \<Longrightarrow> conn_step h c w (taps_received a data n w)"
| cs_receive_error: "cheap w c = Some (Live cn) \<Longrightarrow> item_queue (rheap w) (rcvq cn) xs \<Longrightarrow> a \<in> set xs \<Longrightarrow>
    free_data data w = Inr w1 \<Longrightarrow> conn_step h c w (taps_receive_error a data reason w)"

section \<open>Each operation\<close>

text \<open>An operation of one side leaves the other side alone.\<close>

lemma send_side_kept:
  assumes "send_ok c xs w" "sheap w' = sheap w" "msgs w' = msgs w" "cheap w c = Some (Live cn)"
    "cheap w' = hput (cheap w) c cn'" "sndq cn' = sndq cn" "c_handles cn' = c_handles cn"
  shows "send_ok c xs w'"
  using assms by (auto simp: send_ok_def)

lemma recv_side_kept:
  assumes "recv_ok c ys w" "rheap w' = rheap w" "msgs w' = msgs w" "cheap w c = Some (Live cn)"
    "cheap w' = hput (cheap w) c cn'" "rcvq cn' = rcvq cn" "c_handles cn' = c_handles cn"
  shows "recv_ok c ys w'"
  using assms by (auto simp: recv_ok_def recv_item_ok_def)

lemma wf_send:
  assumes "send_ok c xs w" "recv_ok c ys w" "\<not> allocated (sheap w) a" "allocated (msgs w) msg"
    "tapsConnectionSend h (Some a) c msg app (Some cb) w = (r, er, w')"
  shows "send_ok c (xs @ [a]) w' \<and> recv_ok c ys w' \<and> faults w' = faults w"
proof -
  from assms(1) obtain cn where cn: "cheap w c = Some (Live cn)" by (auto simp: send_ok_def)
  from assms(4) obtain m where m: "msgs w msg = Some (Live m)" by (auto simp: allocated_def)
  from send_new_ok [OF assms(1) cn assms(3) m, of h app cb] assms(5)
  have s: "send_ok c (xs @ [a]) w'" "send_frame w w'" "cheap w' = hput (cheap w) c (cn\<lparr>sndq := Some a\<rparr>)" by auto
  from recv_side_kept [OF assms(2) _ _ cn s(3)] s(2) have "recv_ok c ys w'" by (simp add: send_frame_def)
  with s show ?thesis by (simp add: send_frame_def)
qed

lemma wf_outcome:
  assumes "send_ok c (xs @ a # zs) w" "recv_ok c ys w" "view (sheap w) a = Some v" "outcome_fn oc v = Some f"
    "w' = outcome_op h oc a w"
  shows "send_ok c (xs @ zs) w' \<and> recv_ok c ys w' \<and> faults w' = faults w"
proof -
  from assms(1) obtain cn where cn: "cheap w c = Some (Live cn)" by (auto simp: send_ok_def)
  from outcome_ok [OF assms(1) cn assms(3,4,5)]
  have s: "send_ok c (xs @ zs) w'" "send_frame w w'"
    and "\<exists>q. cheap w' = hput (cheap w) c (cn\<lparr>sndq := q, sendReady := (zs = [] \<or> sendReady cn)\<rparr>)" by auto
  then obtain q where q: "cheap w' = hput (cheap w) c (cn\<lparr>sndq := q, sendReady := (zs = [] \<or> sendReady cn)\<rparr>)" by blast
  from recv_side_kept [OF assms(2) _ _ cn q] s(2) have "recv_ok c ys w'" by (simp add: send_frame_def)
  with s show ?thesis by (simp add: send_frame_def)
qed

lemma wf_receive:
  assumes "send_ok c xs w" "recv_ok c ys w" "\<not> allocated (rheap w) a" "msgs w msg = Some (Live m)" "msg_ok m"
    "tapsConnectionReceive h (Some a) c app msg mn mx cb w = (r, er, w')"
  shows "\<exists>zs. send_ok c xs w' \<and> recv_ok c zs w' \<and> faults w' = faults w"
proof (cases "\<exists>b. cb = Some b \<and> cb_received b \<noteq> None \<and> cb_receivedPartial b \<noteq> None \<and> cb_receiveError b \<noteq> None")
  case False
  then have "w' = w" using assms(6) by (auto simp: tapsConnectionReceive_def split: option.splits if_splits)
  with assms show ?thesis by blast
next
  case True
  then obtain b where b: "cb = Some b" "cb_received b \<noteq> None" "cb_receivedPartial b \<noteq> None" "cb_receiveError b \<noteq> None" by blast
  from assms(2) obtain cn where cn: "cheap w c = Some (Live cn)" by (auto simp: recv_ok_def)
  from recv_new_ok [OF assms(2) cn assms(3-5) b(2-4), of h app mn mx] assms(6) b(1)
  have r: "recv_ok c (ys @ [a]) w'" "faults w' = faults w" "msgs w' = msgs w" "sheap w' = sheap w"
    "cheap w' = hput (cheap w) c (cn\<lparr>rcvq := Some a, receiveReady := False\<rparr>)" by auto
  from send_side_kept [OF assms(1) r(4,3) cn r(5)] have "send_ok c xs w'" by simp
  with r show ?thesis by blast
qed

lemma recv_item_callbacks:
  assumes "recv_ok c (ys @ a # zs) w" "rheap w a = Some (Live it)"
  shows "r_received it \<noteq> None" "r_receivedPartial it \<noteq> None" "r_receiveError it \<noteq> None"
  using assms view_live [of "rheap w" a it] by (auto simp: recv_ok_def recv_item_ok_def)

lemma wf_receive_end:
  assumes s: "send_ok c xs w" and r: "recv_ok c (ys @ a # zs) w" and fd: "free_data data w = Inr w1"
    and w': "w' = taps_received a data n w \<or> w' = taps_receive_error a data reason w"
  shows "\<exists>us. send_ok c xs w' \<and> recv_ok c us w' \<and> set (faults w') \<subseteq> set (faults w) \<union> {UseAfterFree}"
proof -
  from s obtain cn where cn: "cheap w c = Some (Live cn)" by (auto simp: send_ok_def)
  from r obtain it where it: "rheap w a = Some (Live it)" by (auto simp: recv_ok_def dest!: item_queue_live)
  obtain f g where cb: "r_received it = Some f" "r_receiveError it = Some g" using recv_item_callbacks [OF r it] by blast
  have "\<exists>q. recv_ok c (ys @ zs) w' \<and> cheap w' = hput (cheap w) c (cn\<lparr>rcvq := q\<rparr>) \<and> sheap w' = sheap w \<and>
      msgs w' = msgs w \<and> set (faults w') \<subseteq> set (faults w) \<union> {UseAfterFree}"
    using w'
  proof
    assume "w' = taps_received a data n w"
    with received_ok [OF r cn it fd cb, of n] show ?thesis by (auto split: if_splits)
  next
    assume "w' = taps_receive_error a data reason w"
    with receive_error_ok [OF r cn it fd cb(2), of reason] show ?thesis by (fastforce simp: recv_ok_def recv_item_ok_def)
  qed
  then obtain q where p: "recv_ok c (ys @ zs) w'" "cheap w' = hput (cheap w) c (cn\<lparr>rcvq := q\<rparr>)" "sheap w' = sheap w"
      "msgs w' = msgs w" "set (faults w') \<subseteq> set (faults w) \<union> {UseAfterFree}" by blast
  from send_side_kept [OF s p(3,4) cn p(2)] have "send_ok c xs w'" by simp
  with p show ?thesis by blast
qed

lemma wf_partial:
  assumes s: "send_ok c xs w" and r: "recv_ok c (ys @ a # zs) w" and it: "rheap w a = Some (Live it)"
    and m: "msgs w (r_message it) = Some (Live m)" "unat (currLength it + n) \<le> msg_total m"
    and fd: "free_data data w = Inr w1" and w': "w' = taps_received_partial h alloc a data n w"
  shows "\<exists>us. send_ok c xs w' \<and> recv_ok c us w' \<and> set (faults w') \<subseteq> set (faults w) \<union> {UseAfterFree}"
proof -
  from s obtain cn where cn: "cheap w c = Some (Live cn)" by (auto simp: send_ok_def)
  obtain vh where w1: "w1 = w\<lparr>vheap := vh\<rparr>" using free_data_frame [OF fd] by blast
  show ?thesis
  proof (cases "currLength it + n < minLength it")
    case True
    let ?w = "w\<lparr>vheap := vh, rheap := hput (rheap w) a (it\<lparr>currLength := currLength it + n\<rparr>)\<rparr>"
    have bump: "recv_ok c (ys @ a # zs) ?w"
      using recv_ok_bump [of c "ys @ a # zs" "w\<lparr>vheap := vh\<rparr>" a it] r it by (simp add: recv_ok_def recv_item_ok_def)
    have sw: "send_ok c xs ?w" using s by (simp add: send_ok_def)
    show ?thesis
    proof (cases alloc)
      case None
      have "w' = taps_receive_error a None ''Internal error'' ?w"
        using partial_nomem [OF r cn _ it True fd m, of h] w' w1 None by simp
      moreover have "free_data None ?w = Inr ?w" by (simp add: free_data_def)
      ultimately show ?thesis using wf_receive_end [OF sw bump, of None] by fastforce
    next
      case (Some v)
      from partial_short [OF r cn _ it True fd m, of h v] w' w1 Some
      have w2: "rheap w' = rheap ?w" "cheap w' = cheap w" "sheap w' = sheap w" "msgs w' = msgs w" "faults w' = faults w" by auto
      have "recv_ok c (ys @ a # zs) w'" using bump by (simp add: w2 recv_ok_def recv_item_ok_def)
      moreover have "send_ok c xs w'" using s by (simp add: w2 send_ok_def)
      ultimately show ?thesis by (auto simp: w2)
    qed
  next
    case False
    obtain f where f: "r_receivedPartial it = Some f" using recv_item_callbacks [OF r it] by blast
    from partial_enough [OF r cn it _ fd f w'] False
    have p: "recv_ok c (ys @ zs) w'" "sheap w' = sheap w" "msgs w' = msgs w" "faults w' = faults w @ [UseAfterFree]"
      and "\<exists>q. cheap w' = hput (cheap w) c (cn\<lparr>receiveReady := (zs = [] \<or> receiveReady cn), rcvq := q\<rparr>)" by auto
    then obtain q where q: "cheap w' = hput (cheap w) c (cn\<lparr>receiveReady := (zs = [] \<or> receiveReady cn), rcvq := q\<rparr>)" by blast
    from send_side_kept [OF s p(2,3) cn q] have "send_ok c xs w'" by simp
    with p show ?thesis by auto
  qed
qed

section \<open>All interleavings\<close>

definition conn_inv :: "fault set \<Rightarrow> addr \<Rightarrow> 'p conn_world \<Rightarrow> bool" where
  "conn_inv F c w \<longleftrightarrow> conn_wf c w \<and> set (faults w) \<subseteq> F \<union> {UseAfterFree}"

lemma send_ok_queue:
  "send_ok c xs w \<Longrightarrow> cheap w c = Some (Live cn) \<Longrightarrow> item_queue (sheap w) (sndq cn) ys \<Longrightarrow> xs = ys"
  using item_queue_unique [of "sheap w"] by (auto simp: send_ok_def)

lemma recv_ok_queue:
  "recv_ok c xs w \<Longrightarrow> cheap w c = Some (Live cn) \<Longrightarrow> item_queue (rheap w) (rcvq cn) ys \<Longrightarrow> xs = ys"
  using item_queue_unique [of "rheap w"] by (auto simp: recv_ok_def)

lemma conn_inv_step:
  assumes step: "conn_step h c w w'" and inv: "conn_inv F c w"
  shows "conn_inv F c w'"
proof -
  from inv obtain xs ys where ok: "send_ok c xs w" "recv_ok c ys w" and F: "set (faults w) \<subseteq> F \<union> {UseAfterFree}"
    by (auto simp: conn_inv_def conn_wf_def)
  from step have "\<exists>us vs. send_ok c us w' \<and> recv_ok c vs w' \<and> set (faults w') \<subseteq> set (faults w) \<union> {UseAfterFree}"
  proof cases
    case (cs_send a msg app cb r er)
    from wf_send [OF ok this] show ?thesis by auto
  next
    case (cs_send_nomem msg app cb r er)
    then have "w' = w" by (simp add: tapsConnectionSend_def)
    with ok show ?thesis by auto
  next
    case (cs_outcome cn us a v oc)
    then obtain ps qs f where "xs = ps @ a # qs" "outcome_fn oc v = Some f"
      using send_ok_queue [OF ok(1)] by (metis split_list not_None_eq)
    with wf_outcome [of c ps a qs w ys v oc f w' h] ok cs_outcome show ?thesis by auto
  next
    case (cs_receive a msg m app mn mx cb r er)
    from wf_receive [OF ok this] show ?thesis by auto
  next
    case (cs_partial cn us a it m n data w1 alloc)
    then obtain ps qs where "ys = ps @ a # qs" using recv_ok_queue [OF ok(2)] by (metis split_list)
    with wf_partial [OF ok(1), of ps a qs it m n data w1 w' h alloc] ok cs_partial show ?thesis by blast
  next
    case (cs_received cn us a data w1 n)
    then obtain ps qs where "ys = ps @ a # qs" using recv_ok_queue [OF ok(2)] by (metis split_list)
    with wf_receive_end [OF ok(1), of ps a qs data w1 w' n] ok cs_received show ?thesis by blast
  next
    case (cs_receive_error cn us a data w1 reason)
    then obtain ps qs where "ys = ps @ a # qs" using recv_ok_queue [OF ok(2)] by (metis split_list)
    with wf_receive_end [OF ok(1), of ps a qs data w1 w'] ok cs_receive_error show ?thesis by blast
  qed
  with F show ?thesis unfolding conn_inv_def conn_wf_def by blast
qed

interpretation conn: inv_system "conn_inv F c" "conn_step h c" "conn_inv F c"
  by unfold_locales (auto intro: conn_inv_step)

text \<open>
  A connection stays well formed: in every sequence of sends, receives and reports of the
  protocol, in any order, both queues remain chains of live items that belong to the connection and
  whose messages exist, so no operation follows a dangling or null pointer; the only fault there is
  is the read of a freed item's length when a receive is delivered.
\<close>

theorem connection_well_formed:
  assumes "conn_wf c w" "reaches (conn_step h c) w w'"
  shows "conn_wf c w' \<and> set (faults w') \<subseteq> set (faults w) \<union> {UseAfterFree}"
proof -
  have "conn_inv (set (faults w)) c w" using assms(1) by (auto simp: conn_inv_def)
  from conn.inv_reachable [OF this assms(2)] show ?thesis by (simp add: conn_inv_def)
qed

theorem connection_well_formed_witness:
  "conn_wf 1 (snd (snd (tapsConnectionSend recorder (Some 20) 1 2 None (Some all_callbacks) demo_world)))"
proof -
  have wf: "conn_wf 1 demo_world"
    by (auto simp: conn_wf_def send_ok_def recv_ok_def demo_world_def demo_conn_def item_queue_def intro!: exI [of _ "[]"])
  obtain r er w' where s: "tapsConnectionSend recorder (Some 20) 1 2 None (Some all_callbacks) demo_world = (r, er, w')"
    by (cases "tapsConnectionSend recorder (Some 20) 1 2 None (Some all_callbacks) demo_world") auto
  have "conn_step recorder 1 demo_world w'"
    by (rule cs_send [OF _ _ s]) (simp_all add: demo_world_def allocated_def)
  from connection_well_formed [OF wf reaches_single [of "conn_step recorder 1", OF this]] s show ?thesis by simp
qed

end
