(* ===== verification/Taps_Conn_Frame.thy ===== *)
theory Taps_Conn_Frame
  imports Taps_Conn_Inv
begin

text \<open>
  What an operation on one connection leaves alone: the other connections with their queues, the
  messages and the listener. An item names the connection it belongs to, so the queues of two
  connections have no item in common.
\<close>

section \<open>Frames\<close>

definition is_stop :: "app_event \<Rightarrow> bool" where
  "is_stop x \<longleftrightarrow> (case snd x of Stopped _ \<Rightarrow> True | _ \<Rightarrow> False)"

text \<open>
  \<open>apart T c\<close>: of connections, items and messages only the connection \<open>c\<close>, the items that belong
  to it and the messages \<open>T\<close> have changed. \<open>only_conn\<close>: nor has anything else, and of the connection
  neither its listener nor its callback for errors.
\<close>

definition apart :: "addr set \<Rightarrow> addr \<Rightarrow> 'p conn_world \<Rightarrow> 'p conn_world \<Rightarrow> bool" where
  "apart T c w w' \<longleftrightarrow>
     (\<forall>d. d \<noteq> c \<longrightarrow> cheap w' d = cheap w d) \<and>
     (\<forall>b it. sheap w b = Some (Live it) \<longrightarrow> s_connection it \<noteq> c \<longrightarrow> sheap w' b = sheap w b) \<and>
     (\<forall>b it. rheap w b = Some (Live it) \<longrightarrow> r_connection it \<noteq> c \<longrightarrow> rheap w' b = rheap w b) \<and>
     (\<forall>t. t \<notin> T \<longrightarrow> msgs w' t = msgs w t)"

definition only_conn :: "addr \<Rightarrow> 'p conn_world \<Rightarrow> 'p conn_world \<Rightarrow> bool" where
  "only_conn c w w' \<longleftrightarrow> apart {} c w w' \<and>
     (\<forall>cn. cheap w c = Some (Live cn) \<longrightarrow> (\<exists>cn'. cheap w' c = Some (Live cn') \<and>
        c_listener cn' = c_listener cn \<and> c_connectionError cn' = c_connectionError cn)) \<and>
     lst w' = lst w \<and> freed_handles w' = freed_handles w \<and>
     filter is_stop (trace w') = filter is_stop (trace w)"

lemma only_conn_refl: "only_conn c w w"
  by (auto simp: only_conn_def apart_def)

lemma item_queue_cong:
  "(\<And>b. b \<in> set xs \<Longrightarrow> h' b = h b) \<Longrightarrow> item_queue h' tail xs = item_queue h tail xs"
  by (simp add: item_queue_def cong: dl_cong)

lemma view_eq: "h' b = h b \<Longrightarrow> view h' b = view h b"
  by (simp add: view_def payload_def)

lemma apart_conn: "only_conn c w w' \<Longrightarrow> apart T c w w'"
  by (simp add: only_conn_def apart_def)

lemma apart_heaps:
  "(\<And>d. d \<noteq> c \<Longrightarrow> cheap w' d = cheap w d) \<Longrightarrow> sheap w' = sheap w \<Longrightarrow> rheap w' = rheap w \<Longrightarrow>
    (\<And>t. t \<notin> T \<Longrightarrow> msgs w' t = msgs w t) \<Longrightarrow> apart T c w w'"
  by (simp add: apart_def)

lemma apart_trans: "apart T c w w' \<Longrightarrow> apart T c w' w'' \<Longrightarrow> apart T c w w''"
  unfolding apart_def by (intro conjI allI impI) (metis, metis, metis, metis)

lemma apart_mono: "apart T c w w' \<Longrightarrow> T \<subseteq> U \<Longrightarrow> apart U c w w'"
  by (auto simp: apart_def)

lemma apart_cong:
  "apart T c w w' \<Longrightarrow> cheap v = cheap w \<Longrightarrow> sheap v = sheap w \<Longrightarrow> rheap v = rheap w \<Longrightarrow> msgs v = msgs w \<Longrightarrow> apart T c v w'"
  by (simp add: apart_def)

text \<open>The queues of another connection, whose messages are not in \<open>T\<close>, stay: its items name it.\<close>

lemma apart_sheap:
  assumes "apart T c w w'" "d \<noteq> c" "view (sheap w) b = Some v" "s_connection v = d"
  shows "sheap w' b = sheap w b"
proof -
  from assms(3) obtain it where "sheap w b = Some (Live it)" "v = it\<lparr>next_i := None, prev_i := None\<rparr>" by (rule view_SomeE)
  with assms show ?thesis by (auto simp: apart_def)
qed

lemma apart_rheap:
  assumes "apart T c w w'" "d \<noteq> c" "view (rheap w) b = Some v" "r_connection v = d"
  shows "rheap w' b = rheap w b"
proof -
  from assms(3) obtain it where "rheap w b = Some (Live it)" "v = it\<lparr>next_i := None, prev_i := None\<rparr>" by (rule view_SomeE)
  with assms show ?thesis by (auto simp: apart_def)
qed

lemma send_ok_apart:
  assumes ap: "apart T c w w'" "d \<noteq> c" and ok: "send_ok d xs w"
    and t: "\<And>b v. b \<in> set xs \<Longrightarrow> view (sheap w) b = Some v \<Longrightarrow> s_message v \<notin> T"
  shows "send_ok d xs w'"
proof -
  have same: "sheap w' b = sheap w b" if "b \<in> set xs" for b
    using ok that apart_sheap [OF ap] by (auto simp: send_ok_def)
  have "item_queue (sheap w') q xs = item_queue (sheap w) q xs" for q by (rule item_queue_cong) (rule same)
  moreover have "\<exists>v. view (sheap w') b = Some v \<and> s_connection v = d \<and> allocated (msgs w') (s_message v)" if b: "b \<in> set xs" for b
  proof -
    from ok b obtain v where v: "view (sheap w) b = Some v" "s_connection v = d" "allocated (msgs w) (s_message v)"
      by (auto simp: send_ok_def)
    moreover have "msgs w' (s_message v) = msgs w (s_message v)" using ap(1) t [OF b v(1)] by (simp add: apart_def)
    ultimately show ?thesis using view_eq [of "sheap w'" b "sheap w", OF same [OF b]] by (simp add: allocated_def)
  qed
  moreover have "cheap w' d = cheap w d" using ap by (simp add: apart_def)
  ultimately show ?thesis using ok by (simp add: send_ok_def)
qed

lemma recv_ok_apart:
  assumes ap: "apart T c w w'" "d \<noteq> c" and ok: "recv_ok d xs w"
    and t: "\<And>b v. b \<in> set xs \<Longrightarrow> view (rheap w) b = Some v \<Longrightarrow> r_message v \<notin> T"
  shows "recv_ok d xs w'"
proof -
  have same: "rheap w' b = rheap w b" if "b \<in> set xs" for b
    using ok that apart_rheap [OF ap] by (auto simp: recv_ok_def recv_item_ok_def)
  have "item_queue (rheap w') q xs = item_queue (rheap w) q xs" for q by (rule item_queue_cong) (rule same)
  moreover have "recv_item_ok d w' b" if b: "b \<in> set xs" for b
  proof -
    from ok b obtain v m where v: "view (rheap w) b = Some v" "r_connection v = d" "msgs w (r_message v) = Some (Live m)"
      "msg_ok m" "r_received v \<noteq> None" "r_receivedPartial v \<noteq> None" "r_receiveError v \<noteq> None"
      by (auto simp: recv_ok_def recv_item_ok_def)
    moreover have "msgs w' (r_message v) = msgs w (r_message v)" using ap(1) t [OF b v(1)] by (simp add: apart_def)
    ultimately show ?thesis using view_eq [of "rheap w'" b "rheap w", OF same [OF b]] by (simp add: recv_item_ok_def)
  qed
  moreover have "cheap w' d = cheap w d" using ap by (simp add: apart_def)
  ultimately show ?thesis using ok by (simp add: recv_ok_def)
qed

lemma conn_wf_apart: "apart {} c w w' \<Longrightarrow> d \<noteq> c \<Longrightarrow> conn_wf d w \<Longrightarrow> conn_wf d w'"
  unfolding conn_wf_def using send_ok_apart recv_ok_apart by (metis empty_iff)

section \<open>Every operation of a connection has this frame\<close>

lemma send_ok_items:
  assumes "send_ok c xs w" "b \<in> set xs" "sheap w b = Some (Live it)"
  shows "s_connection it = c"
  using assms view_live [of "sheap w" b it] by (auto simp: send_ok_def)

lemma recv_ok_items:
  assumes "recv_ok c xs w" "b \<in> set xs" "rheap w b = Some (Live it)"
  shows "r_connection it = c"
  using assms recv_itemE [OF assms(1,2)] by auto

lemma send_local:
  assumes ok: "send_ok c xs w" and cn: "cheap w c = Some (Live cn)" and a: "\<not> allocated (sheap w) a"
    and m: "msgs w msg = Some (Live m)" and op: "tapsConnectionSend h (Some a) c msg app (Some cb) w = (r, er, w')"
    and b: "b \<noteq> a" "b \<notin> set xs"
  shows "sheap w' b = sheap w b"
proof -
  let ?new = "\<lparr>next_i = None, prev_i = None, s_message = msg, s_connection = c,
      s_app_ctx = app, s_sent = cb_sent cb, s_expired = cb_expired cb, s_sendError = cb_sendError cb\<rparr>"
  from ok cn have q: "item_queue (sheap w) (sndq cn) xs" and hd: "c_handles cn \<noteq> None" by (auto simp: send_ok_def)
  obtain h' where h': "add_item a ?new (sheap w) (sndq cn) = Inr (h', Some a)" "h' b = sheap w b"
    using add_item_queue [OF q a, of ?new] b by blast
  have "snd (snd (tapsConnectionSend h (Some a) c msg app (Some cb) w)) = w' \<longrightarrow> sheap w' b = h' b"
    using cn h' hd m by (auto simp: tapsConnectionSend_def call_send_ok Let_def split: prod.splits)
  with op h'(2) show ?thesis by simp
qed

lemma send_common_local:
  assumes ok: "send_ok c (xs @ a # ys) w" and cn: "cheap w c = Some (Live cn)"
    and op: "taps_send_common h c a w = Inr (r, w')" and b: "b \<notin> set (xs @ a # ys)"
  shows "sheap w' b = sheap w b"
proof -
  from ok cn have q: "item_queue (sheap w) (sndq cn) (xs @ a # ys)" by (auto simp: send_ok_def)
  then obtain it where it: "sheap w a = Some (Live it)" using item_queue_live by fastforce
  obtain h' q' where "delete_item a (sheap w) (sndq cn) = Inr (h', q')" "h' b = sheap w b"
    using delete_item_queue [OF q it] b by blast
  with it cn op show ?thesis
    by (auto simp: taps_send_common_def call_send_def andthen_def Let_def split: option.splits sum.splits prod.splits if_splits)
qed

lemma outcome_local:
  assumes ok: "send_ok c (xs @ a # ys) w" and b: "b \<notin> set (xs @ a # ys)"
  shows "sheap (outcome_op h oc a w) b = sheap w b"
proof -
  from ok obtain cn it where cn: "cheap w c = Some (Live cn)" and it: "sheap w a = Some (Live it)"
    using item_queue_live by (fastforce simp: send_ok_def)
  have c: "s_connection it = c" using send_ok_items [OF ok _ it] by simp
  obtain r w1 where w1: "taps_send_common h c a w = Inr (r, w1)" using send_common_ok [OF ok cn, of h] by blast
  from send_common_local [OF ok cn w1 b] have "sheap w1 b = sheap w b" .
  then show ?thesis using it c w1
    by (cases oc) (auto simp: taps_sent_def taps_expired_def taps_send_error_def log_fault_def andthen_def
        split: sum.splits)
qed

lemma receive_local:
  assumes ok: "recv_ok c xs w" and cn: "cheap w c = Some (Live cn)" and a: "\<not> allocated (rheap w) a"
    and m: "msgs w msg = Some (Live m)" and op: "tapsConnectionReceive h (Some a) c app msg mn mx cb w = (r, er, w')"
    and b: "b \<noteq> a" "b \<notin> set xs"
  shows "rheap w' b = rheap w b"
proof -
  from ok cn have q: "item_queue (rheap w) (rcvq cn) xs" and hd: "c_handles cn \<noteq> None" by (auto simp: recv_ok_def)
  have add: "\<exists>h'. add_item a new (rheap w) (rcvq cn) = Inr (h', Some a) \<and> h' b = rheap w b" for new :: recv_item
    using add_item_queue [OF q a, of new] b by blast
  show ?thesis
  proof (cases "\<exists>x. cb = Some x \<and> cb_received x \<noteq> None \<and> cb_receivedPartial x \<noteq> None \<and> cb_receiveError x \<noteq> None")
    case False
    then show ?thesis using op by (auto simp: tapsConnectionReceive_def split: option.splits if_splits)
  next
    case True
    then obtain x where x: "cb = Some x" "cb_received x \<noteq> None" "cb_receivedPartial x \<noteq> None" "cb_receiveError x \<noteq> None" by blast
    from add [of "\<lparr>next_i = None, prev_i = None, r_message = msg, minLength = mn, maxLength = mx, currLength = 0,
        r_connection = c, r_app_ctx = app, r_received = cb_received x, r_receivedPartial = cb_receivedPartial x,
        r_receiveError = cb_receiveError x\<rparr>"] obtain h' where
      "add_item a \<lparr>next_i = None, prev_i = None, r_message = msg, minLength = mn, maxLength = mx, currLength = 0,
        r_connection = c, r_app_ctx = app, r_received = cb_received x, r_receivedPartial = cb_receivedPartial x,
        r_receiveError = cb_receiveError x\<rparr> (rheap w) (rcvq cn) = Inr (h', Some a)" "h' b = rheap w b" by blast
    then show ?thesis using op x cn hd m
      by (auto simp: tapsConnectionReceive_def call_receive_def tapsMessageGetIovec_def Let_def split: if_splits)
  qed
qed

lemma delete_recv_local:
  assumes ok: "recv_ok c (xs @ a # ys) w" and op: "delete_recv c a w = Inr w'" and b: "b \<notin> set (xs @ a # ys)"
  shows "rheap w' b = rheap w b"
proof -
  from ok obtain cn where cn: "cheap w c = Some (Live cn)" and q: "item_queue (rheap w) (rcvq cn) (xs @ a # ys)"
    by (auto simp: recv_ok_def)
  then obtain it where it: "rheap w a = Some (Live it)" using item_queue_live by fastforce
  obtain h' q' where "delete_item a (rheap w) (rcvq cn) = Inr (h', q')" "h' b = rheap w b"
    using delete_item_queue [OF q it] b by blast
  with cn op show ?thesis by (auto simp: delete_recv_def)
qed

lemma receive_error_local:
  assumes ok: "recv_ok c (xs @ a # ys) w" and fd: "free_data data w = Inr w1" and b: "b \<notin> set (xs @ a # ys)"
  shows "rheap (taps_receive_error a data reason w) b = rheap w b"
proof -
  obtain vh where w1: "w1 = w\<lparr>vheap := vh\<rparr>" using free_data_frame [OF fd] by blast
  obtain it m where it: "rheap w a = Some (Live it)" "r_connection it = c" "msgs w (r_message it) = Some (Live m)"
    by (rule recv_itemE [OF ok, of a]) auto
  from ok obtain cn where cn: "cheap w c = Some (Live cn)" by (auto simp: recv_ok_def)
  have ok1: "recv_ok c (xs @ a # ys) w1" using ok by (simp add: w1 recv_ok_def recv_item_ok_def)
  obtain w2 where w2: "delete_recv c a w1 = Inr w2" using delete_recv_ok [OF ok1] cn it w1 by fastforce
  from delete_recv_local [OF ok1 w2 b] have "rheap w2 b = rheap w b" by (simp add: w1)
  then show ?thesis using it cn fd w2 by (simp add: taps_receive_error_def)
qed

text \<open>The first step of every report of data: the length of the item is brought up to date.\<close>

lemma recv_bump:
  assumes "recv_ok c (xs @ a # ys) w" "rheap w a = Some (Live it)" "free_data data w = Inr w1"
  shows "recv_ok c (xs @ a # ys) (w1\<lparr>rheap := hput (rheap w1) a (it\<lparr>currLength := n\<rparr>)\<rparr>)" "rheap w1 = rheap w"
    "cheap w1 = cheap w" "msgs w1 = msgs w"
proof -
  obtain vh where w1: "w1 = w\<lparr>vheap := vh\<rparr>" using free_data_frame [OF assms(3)] by blast
  then have "recv_ok c (xs @ a # ys) w1" using assms(1) by (simp add: recv_ok_def recv_item_ok_def)
  then show "recv_ok c (xs @ a # ys) (w1\<lparr>rheap := hput (rheap w1) a (it\<lparr>currLength := n\<rparr>)\<rparr>)"
    by (rule recv_ok_bump) (simp_all add: w1 assms(2))
  show "rheap w1 = rheap w" "cheap w1 = cheap w" "msgs w1 = msgs w" by (simp_all add: w1)
qed

lemma received_local:
  assumes ok: "recv_ok c (xs @ a # ys) w" and fd: "free_data data w = Inr w1" and b: "b \<notin> set (xs @ a # ys)"
  shows "rheap (taps_received a data n w) b = rheap w b"
proof -
  obtain it m where it: "rheap w a = Some (Live it)" "r_connection it = c" "msgs w (r_message it) = Some (Live m)"
    by (rule recv_itemE [OF ok, of a]) auto
  from ok obtain cn where cn: "cheap w c = Some (Live cn)" by (auto simp: recv_ok_def)
  let ?it = "it\<lparr>currLength := currLength it + n\<rparr>"
  let ?w2 = "w1\<lparr>rheap := hput (rheap w1) a ?it\<rparr>"
  note bump = recv_bump(1) [OF ok it(1) fd, of "currLength it + n"] recv_bump(2-4) [OF ok it(1) fd]
  have nb: "b \<noteq> a" using b by simp
  obtain w3 where w3: "delete_recv c a ?w2 = Inr w3" using delete_recv_ok [OF bump(1)] cn bump(3) by fastforce
  from delete_recv_local [OF bump(1) w3 b] have l3: "rheap w3 b = rheap w b" using nb bump(2) by simp
  have le: "rheap (taps_receive_error a None ''Message below minLength'' ?w2) b = rheap w b"
    using receive_error_local [OF bump(1) _ b, of None ?w2] nb bump(2) by (simp add: free_data_def)
  show ?thesis
    using it cn fd w3 l3 le
    by (auto simp: taps_received_def stale_currLength_def log_fault_def andthen_def Let_def
        split: sum.splits option.splits cell.splits)
qed

lemma partial_enough_local:
  assumes ok: "recv_ok c (xs @ a # ys) w" and it: "rheap w a = Some (Live it)" "\<not> currLength it + n < minLength it"
    and fd: "free_data data w = Inr w1" and b: "b \<notin> set (xs @ a # ys)"
  shows "rheap (taps_received_partial h alloc a data n w) b = rheap w b"
proof -
  from ok obtain cn where cn: "cheap w c = Some (Live cn)" by (auto simp: recv_ok_def)
  obtain m where m: "r_connection it = c" "msgs w (r_message it) = Some (Live m)"
    by (rule recv_itemE [OF ok, of a]) (use it(1) in auto)
  let ?it = "it\<lparr>currLength := currLength it + n\<rparr>"
  let ?w2 = "w1\<lparr>rheap := hput (rheap w1) a ?it\<rparr>"
  note bump = recv_bump(1) [OF ok it(1) fd, of "currLength it + n"] recv_bump(2-4) [OF ok it(1) fd]
  have nb: "b \<noteq> a" using b by simp
  let ?p = "case ys of [] \<Rightarrow> proto ?w2 | z # _ \<Rightarrow> start_receive h (c_proto_ctx cn) z ?w2"
  let ?w3 = "set_conn c (cn\<lparr>receiveReady := (ys = [] \<or> receiveReady cn)\<rparr>) (?w2\<lparr>proto := ?p\<rparr>)"
  have nr: "next_receive h c ?it ?w2 = Inr ?w3"
    using next_receive_ok [OF bump(1), of cn ?it h] cn bump(3) by simp
  have ok3: "recv_ok c (xs @ a # ys) ?w3"
    by (rule recv_ok_cong [OF bump(1), where cn' = "cn\<lparr>receiveReady := (ys = [] \<or> receiveReady cn)\<rparr>"])
      (use cn bump(3) ok in \<open>auto simp: recv_ok_def\<close>)
  obtain w4 where w4: "delete_recv c a ?w3 = Inr w4" using delete_recv_ok [OF ok3] by fastforce
  from delete_recv_local [OF ok3 w4 b] have l4: "rheap w4 b = rheap w b" using nb bump(2) by simp
  show ?thesis
    using it m cn fd nr w4 l4
    by (auto simp: taps_received_partial_def tapsMessageGetIovec_def stale_currLength_def log_fault_def andthen_def Let_def
        split: sum.splits option.splits cell.splits)
qed

lemma partial_local:
  assumes ok: "recv_ok c (xs @ a # ys) w" and it: "rheap w a = Some (Live it)"
    and m: "msgs w (r_message it) = Some (Live m)" "unat (currLength it + n) \<le> msg_total m"
    and fd: "free_data data w = Inr w1" and b: "b \<notin> set (xs @ a # ys)"
  shows "rheap (taps_received_partial h alloc a data n w) b = rheap w b"
proof (cases "currLength it + n < minLength it")
  case True
  from ok obtain cn where cn: "cheap w c = Some (Live cn)" by (auto simp: recv_ok_def)
  let ?w2 = "w1\<lparr>rheap := hput (rheap w1) a (it\<lparr>currLength := currLength it + n\<rparr>)\<rparr>"
  note bump = recv_bump(1) [OF ok it fd, of "currLength it + n"] recv_bump(2) [OF ok it fd]
  have nb: "b \<noteq> a" using b by simp
  show ?thesis
  proof (cases alloc)
    case None
    then show ?thesis
      using partial_nomem [OF ok cn _ it True fd m, of h] receive_error_local [OF bump(1) _ b, of None ?w2] nb bump(2)
      by (simp add: free_data_def)
  next
    case (Some v)
    from partial_short [OF ok cn _ it True fd m, of h v] Some show ?thesis using nb by auto
  qed
next
  case False
  then show ?thesis by (rule partial_enough_local [OF ok it _ fd b])
qed

lemma only_connI:
  assumes "send_ok c xs w" "recv_ok c ys w" "cheap w c = Some (Live cn)" "cheap w' = hput (cheap w) c cn'"
    "c_listener cn' = c_listener cn" "c_connectionError cn' = c_connectionError cn"
    "\<And>b. b \<notin> set xs \<Longrightarrow> allocated (sheap w) b \<Longrightarrow> sheap w' b = sheap w b"
    "\<And>b. b \<notin> set ys \<Longrightarrow> allocated (rheap w) b \<Longrightarrow> rheap w' b = rheap w b"
    "msgs w' = msgs w" "lst w' = lst w" "freed_handles w' = freed_handles w"
    "filter is_stop (trace w') = filter is_stop (trace w)"
  shows "only_conn c w w'"
proof -
  have "sheap w' b = sheap w b" if "sheap w b = Some (Live it)" "s_connection it \<noteq> c" for b it
    using that assms(7) [of b] send_ok_items [OF assms(1) _ that(1)] by (auto simp: allocated_def)
  moreover have "rheap w' b = rheap w b" if "rheap w b = Some (Live it)" "r_connection it \<noteq> c" for b it
    using that assms(8) [of b] recv_ok_items [OF assms(2) _ that(1)] by (auto simp: allocated_def)
  ultimately show ?thesis using assms(3-6,9-12) by (auto simp: only_conn_def apart_def)
qed

lemma receive_error_frame [simp]:
  "lst (taps_receive_error a data reason w) = lst w"
  "freed_handles (taps_receive_error a data reason w) = freed_handles w"
  by (auto simp: taps_receive_error_def free_data_def delete_recv_def log_fault_def andthen_def
      split: sum.splits option.splits)

lemma received_frame [simp]:
  "lst (taps_received a data n w) = lst w" "freed_handles (taps_received a data n w) = freed_handles w"
  by (auto simp: taps_received_def free_data_def delete_recv_def stale_currLength_def log_fault_def andthen_def Let_def
      split: sum.splits option.splits cell.splits)

lemma is_stop_simps [simp]:
  "\<not> is_stop (f, outcome_call oc conn v)" "\<not> is_stop (f, ReceivedPartial conn m n e)" "\<not> is_stop (f, Received conn m n)"
  "\<not> is_stop (f, ReceiveError conn m r)" "\<not> is_stop (f, SendError conn m r)" "\<not> is_stop (f, ConnectionReceived conn c)"
  "\<not> is_stop (f, Closed conn)" "\<not> is_stop (f, ConnectionError conn s)" "is_stop (f, Stopped conn)"
  by (cases oc; simp add: is_stop_def)+

lemma only_send:
  assumes ok: "send_ok c xs w" "recv_ok c ys w" and a: "\<not> allocated (sheap w) a" and msg: "allocated (msgs w) msg"
    and op: "tapsConnectionSend h (Some a) c msg app (Some cb) w = (r, er, w')"
  shows "only_conn c w w'"
proof -
  from ok(1) obtain cn where cn: "cheap w c = Some (Live cn)" by (auto simp: send_ok_def)
  from msg obtain m where m: "msgs w msg = Some (Live m)" by (auto simp: allocated_def)
  from send_new_ok [OF ok(1) cn a m, of h app cb] op
  have s: "send_frame w w'" "trace w' = trace w" "cheap w' = hput (cheap w) c (cn\<lparr>sndq := Some a\<rparr>)" by auto
  have "sheap w' b = sheap w b" if "b \<notin> set xs" "allocated (sheap w) b" for b
    using send_local [OF ok(1) cn a m op _ that(1)] a that(2) by blast
  then show ?thesis using s by (intro only_connI [OF ok cn s(3)]) (auto simp: send_frame_def)
qed

lemma only_outcome:
  assumes ok: "send_ok c (xs @ a # zs) w" "recv_ok c ys w" and v: "view (sheap w) a = Some v" "outcome_fn oc v = Some f"
  shows "only_conn c w (outcome_op h oc a w)"
proof -
  from ok(1) obtain cn where cn: "cheap w c = Some (Live cn)" by (auto simp: send_ok_def)
  from outcome_ok [OF ok(1) cn v refl, of h]
  obtain q where s: "send_frame w (outcome_op h oc a w)"
    "trace (outcome_op h oc a w) = trace w @ [(f, outcome_call oc (c_app_ctx cn) v)]"
    "cheap (outcome_op h oc a w) = hput (cheap w) c (cn\<lparr>sndq := q, sendReady := (zs = [] \<or> sendReady cn)\<rparr>)" by blast
  then show ?thesis by (intro only_connI [OF ok cn s(3)]) (auto simp: send_frame_def outcome_local [OF ok(1)])
qed

lemma only_receive:
  assumes ok: "send_ok c xs w" "recv_ok c ys w" and a: "\<not> allocated (rheap w) a" and m: "msgs w msg = Some (Live m)" "msg_ok m"
    and op: "tapsConnectionReceive h (Some a) c app msg mn mx cb w = (r, er, w')"
  shows "only_conn c w w'"
proof (cases "\<exists>b. cb = Some b \<and> cb_received b \<noteq> None \<and> cb_receivedPartial b \<noteq> None \<and> cb_receiveError b \<noteq> None")
  case False
  then have "w' = w" using op by (auto simp: tapsConnectionReceive_def split: option.splits if_splits)
  then show ?thesis by (simp add: only_conn_refl)
next
  case True
  then obtain b where b: "cb = Some b" "cb_received b \<noteq> None" "cb_receivedPartial b \<noteq> None" "cb_receiveError b \<noteq> None" by blast
  from ok(2) obtain cn where cn: "cheap w c = Some (Live cn)" by (auto simp: recv_ok_def)
  from recv_new_ok [OF ok(2) cn a m b(2-4), of h app mn mx] op b(1)
  have s: "trace w' = trace w" "msgs w' = msgs w" "sheap w' = sheap w" "lst w' = lst w" "freed_handles w' = freed_handles w"
    "cheap w' = hput (cheap w) c (cn\<lparr>rcvq := Some a, receiveReady := False\<rparr>)" by auto
  have "rheap w' b = rheap w b" if "b \<notin> set ys" "allocated (rheap w) b" for b
    using receive_local [OF ok(2) cn a m(1) op _ that(1)] a that(2) by blast
  then show ?thesis using s by (intro only_connI [OF ok cn s(6)]) auto
qed

lemma only_receive_end:
  assumes ok: "send_ok c xs w" "recv_ok c (ys @ a # zs) w" and fd: "free_data data w = Inr w1"
    and w': "w' = taps_received a data n w \<or> w' = taps_receive_error a data reason w"
  shows "only_conn c w w'"
proof -
  from ok(1) obtain cn where cn: "cheap w c = Some (Live cn)" by (auto simp: send_ok_def)
  from ok(2) obtain it where it: "rheap w a = Some (Live it)" by (auto simp: recv_ok_def dest!: item_queue_live)
  obtain f g where cb: "r_received it = Some f" "r_receiveError it = Some g" using recv_item_callbacks [OF ok(2) it] by blast
  have "\<exists>q. cheap w' = hput (cheap w) c (cn\<lparr>rcvq := q\<rparr>) \<and> sheap w' = sheap w \<and> msgs w' = msgs w \<and>
      filter is_stop (trace w') = filter is_stop (trace w)"
    using w'
  proof
    assume "w' = taps_received a data n w"
    with received_ok [OF ok(2) cn it fd cb, of n] show ?thesis by (auto split: if_splits)
  next
    assume "w' = taps_receive_error a data reason w"
    with receive_error_ok [OF ok(2) cn it fd cb(2), of reason] show ?thesis by fastforce
  qed
  then obtain q where s: "cheap w' = hput (cheap w) c (cn\<lparr>rcvq := q\<rparr>)" "sheap w' = sheap w" "msgs w' = msgs w"
    "filter is_stop (trace w') = filter is_stop (trace w)" by blast
  have "rheap w' b = rheap w b" if "b \<notin> set (ys @ a # zs)" for b
    using w' received_local [OF ok(2) fd that] receive_error_local [OF ok(2) fd that] by auto
  then show ?thesis using s w' by (intro only_connI [OF ok cn s(1)]) auto
qed

lemma only_partial:
  assumes ok: "send_ok c xs w" "recv_ok c (ys @ a # zs) w" and it: "rheap w a = Some (Live it)"
    and m: "msgs w (r_message it) = Some (Live m)" "unat (currLength it + n) \<le> msg_total m"
    and fd: "free_data data w = Inr w1" and w': "w' = taps_received_partial h alloc a data n w"
  shows "only_conn c w w'"
proof -
  from ok(1) obtain cn where cn: "cheap w c = Some (Live cn)" by (auto simp: send_ok_def)
  obtain vh where w1: "w1 = w\<lparr>vheap := vh\<rparr>" using free_data_frame [OF fd] by blast
  obtain f g where cb: "r_receivedPartial it = Some f" "r_receiveError it = Some g" using recv_item_callbacks [OF ok(2) it] by blast
  have loc: "rheap w' b = rheap w b" if "b \<notin> set (ys @ a # zs)" for b
    using partial_local [OF ok(2) it m fd that] w' by simp
  have "\<exists>cn'. cheap w' = hput (cheap w) c cn' \<and> c_listener cn' = c_listener cn \<and> c_connectionError cn' = c_connectionError cn \<and>
      sheap w' = sheap w \<and> msgs w' = msgs w \<and> lst w' = lst w \<and> freed_handles w' = freed_handles w \<and>
      filter is_stop (trace w') = filter is_stop (trace w)"
  proof (cases "currLength it + n < minLength it")
    case False
    from partial_enough [OF ok(2) cn it _ fd cb(1) w'] False show ?thesis by fastforce
  next
    case True
    let ?w = "w1\<lparr>rheap := hput (rheap w) a (it\<lparr>currLength := currLength it + n\<rparr>)\<rparr>"
    have same: "cheap w = hput (cheap w) c cn" using cn by (simp add: hput_def fun_upd_idem)
    show ?thesis
    proof (cases alloc)
      case None
      have "recv_ok c (ys @ a # zs) ?w" using recv_bump(1) [OF ok(2) it fd, of "currLength it + n"] w1 by simp
      from receive_error_ok [OF this, of cn "it\<lparr>currLength := currLength it + n\<rparr>" None ?w g "''Internal error''"] cn cb(2) w1
      obtain w2 q where e: "taps_receive_error a None ''Internal error'' ?w =
          app_call (Some g) (ReceiveError (c_app_ctx cn) (r_app_ctx it) ''Internal error'') w2"
        "cheap w2 = hput (cheap w) c (cn\<lparr>rcvq := q\<rparr>)" "sheap w2 = sheap w" "trace w2 = trace w" "msgs w2 = msgs w"
        by (auto simp: free_data_def)
      have "w' = taps_receive_error a None ''Internal error'' ?w"
        using partial_nomem [OF ok(2) cn _ it True fd m, of h] w' None by simp
      moreover from this have "lst w' = lst w" "freed_handles w' = freed_handles w" by (simp_all add: w1)
      ultimately show ?thesis using e by (intro exI [of _ "cn\<lparr>rcvq := q\<rparr>"]) simp
    next
      case (Some v)
      from partial_short [OF ok(2) cn _ it True fd m, of h v] w' Some w1 same show ?thesis by (intro exI [of _ cn]) auto
    qed
  qed
  then show ?thesis using loc by (metis only_connI [OF ok cn])
qed

text \<open>All together.\<close>

lemma conn_step_only:
  assumes step: "conn_step h c w w'" and wf: "conn_wf c w"
  shows "only_conn c w w'"
proof -
  from wf obtain xs ys where ok: "send_ok c xs w" "recv_ok c ys w" by (auto simp: conn_wf_def)
  from step show ?thesis
  proof cases
    case (cs_send a msg app cb r er)
    from only_send [OF ok this] show ?thesis .
  next
    case (cs_send_nomem msg app cb r er)
    then have "w' = w" by (simp add: tapsConnectionSend_def)
    then show ?thesis by (simp add: only_conn_refl)
  next
    case (cs_outcome cn us a v oc)
    then obtain ps qs f where "xs = ps @ a # qs" "outcome_fn oc v = Some f"
      using send_ok_queue [OF ok(1)] by (metis split_list not_None_eq)
    with only_outcome [of c ps a qs w ys v oc f h] ok cs_outcome show ?thesis by simp
  next
    case (cs_receive a msg m app mn mx cb r er)
    from only_receive [OF ok this] show ?thesis .
  next
    case (cs_partial cn us a it m n data w1 alloc)
    then obtain ps qs where "ys = ps @ a # qs" using recv_ok_queue [OF ok(2)] by (metis split_list)
    with only_partial [OF ok(1), of ps a qs it m n data w1 w' h alloc] ok cs_partial show ?thesis by blast
  next
    case (cs_received cn us a data w1 n)
    then obtain ps qs where "ys = ps @ a # qs" using recv_ok_queue [OF ok(2)] by (metis split_list)
    with only_receive_end [OF ok(1), of ps a qs data w1 w' n] ok cs_received show ?thesis by blast
  next
    case (cs_receive_error cn us a data w1 reason)
    then obtain ps qs where "ys = ps @ a # qs" using recv_ok_queue [OF ok(2)] by (metis split_list)
    with only_receive_end [OF ok(1), of ps a qs data w1 w'] ok cs_receive_error show ?thesis by blast
  qed
qed

end
