(* ===== verification/Taps_Server.thy ===== *)
theory Taps_Server
  imports Taps_Conn_Frame
begin

text \<open>
  A listener with all its connections: connections arrive, work side by side, are closed by the
  protocol and released by the application, while the listener is stopped at some point. Every
  connection stays well formed whatever the others do, and the listener's count is the number of
  open connections, so that the whole server refines the listener of Taps_Listener.
\<close>

section \<open>The server\<close>

text \<open>
  \<open>sv_asked\<close> and \<open>sv_pending\<close> record, as in Taps_Listener, that the application has stopped the
  listener and that the protocol still owes its report.
\<close>

record 'p server =
  sv_world :: "'p conn_world"
  sv_asked :: bool
  sv_pending :: bool

definition open_conns :: "'p conn_world \<Rightarrow> addr set" where
  "open_conns w = {c. \<exists>cn. cheap w c = Some (Live cn) \<and> c_listener cn \<noteq> None}"

text \<open>A message that some queued item refers to.\<close>

definition in_use :: "addr \<Rightarrow> 'p conn_world \<Rightarrow> bool" where
  "in_use t w \<longleftrightarrow>
     (\<exists>c cn xs a. cheap w c = Some (Live cn) \<and> a \<in> set xs \<and>
        (item_queue (sheap w) (sndq cn) xs \<and> (\<exists>v. view (sheap w) a = Some v \<and> s_message v = t) \<or>
         item_queue (rheap w) (rcvq cn) xs \<and> (\<exists>v. view (rheap w) a = Some v \<and> r_message v = t)))"

text \<open>
  The steps. The protocol reports a connection at an address that is not in use, and only until it
  has reported its stop; it ends each connection once. The application keeps to the rules of
  taps.h: it changes or frees a message only while no send or receive refers to it, and it releases
  a connection after the protocol has ended it. A connection with more than one send or receive
  still queued is not released (\<open>tapsConnectionFree\<close> corrupts the heap then, see Taps_Lifecycle).
\<close>

inductive server_step ::
  "'p proto_handles \<Rightarrow> addr \<Rightarrow> addr \<Rightarrow> tapsCallbacks \<Rightarrow> 'p server \<Rightarrow> 'p server \<Rightarrow> bool" for h l hs cb where
  sv_accept: "\<not> readyToStop (lst (sv_world s)) \<Longrightarrow> card (open_conns (sv_world s)) < 2 ^ 32 - 1 \<Longrightarrow>
    \<not> allocated (cheap (sv_world s)) c \<Longrightarrow> l_connectionReceived (lst (sv_world s)) \<noteq> None \<Longrightarrow>
    taps_connection_received accept (Some c) l hs pctx (sv_world s) = (res, w') \<Longrightarrow>
    server_step h l hs cb s (s\<lparr>sv_world := w'\<rparr>)"
| sv_accept_nomem: "taps_connection_received accept None l hs pctx (sv_world s) = (res, w') \<Longrightarrow>
    server_step h l hs cb s (s\<lparr>sv_world := w'\<rparr>)"
| sv_conn: "allocated (cheap (sv_world s)) c \<Longrightarrow> conn_step h c (sv_world s) w' \<Longrightarrow>
    server_step h l hs cb s (s\<lparr>sv_world := w'\<rparr>)"
| sv_closed: "c \<in> open_conns (sv_world s) \<Longrightarrow>
    server_step h l hs cb s (s\<lparr>sv_world := taps_closed c (sv_world s)\<rparr>)"
| sv_error: "c \<in> open_conns (sv_world s) \<Longrightarrow>
    server_step h l hs cb s (s\<lparr>sv_world := taps_connection_error c (sv_world s)\<rparr>)"
| sv_free: "cheap (sv_world s) c = Some (Live cn) \<Longrightarrow> c_listener cn = None \<Longrightarrow>
    item_queue (sheap (sv_world s)) (sndq cn) xs \<Longrightarrow> length xs \<le> 1 \<Longrightarrow>
    (\<forall>a \<in> set xs. \<forall>v. view (sheap (sv_world s)) a = Some v \<longrightarrow> s_sendError v \<noteq> None) \<Longrightarrow>
    item_queue (rheap (sv_world s)) (rcvq cn) ys \<Longrightarrow> length ys \<le> 1 \<Longrightarrow>
    server_step h l hs cb s (s\<lparr>sv_world := tapsConnectionFree c (sv_world s)\<rparr>)"
| sv_message: "\<not> in_use t (sv_world s) \<Longrightarrow>
    server_step h l hs cb s (s\<lparr>sv_world := (sv_world s)\<lparr>msgs := (msgs (sv_world s))(t := x)\<rparr>\<rparr>)"
| sv_stop: "\<not> sv_asked s \<Longrightarrow> tapsListenerStop h (Some l) (Some cb) (sv_world s) = (0, e, w') \<Longrightarrow>
    server_step h l hs cb s (s\<lparr>sv_asked := True, sv_pending := \<not> readyToStop (lst w'), sv_world := w'\<rparr>)"
| sv_report: "sv_pending s \<Longrightarrow>
    server_step h l hs cb s (s\<lparr>sv_pending := False, sv_world := taps_stopped (sv_world s)\<rparr>)"

section \<open>Its image as a listener\<close>

text \<open>
  What the listener of Taps_Listener sees of the server: its own object, the Stopped events, and the
  faults other than the known read of a freed item.
\<close>

definition listener_view :: "'p conn_world \<Rightarrow> unit taps_world" where
  "listener_view w = \<lparr>lst = lst w, proto = (), trace = filter is_stop (trace w),
     faults = filter (\<lambda>f. f \<noteq> UseAfterFree) (faults w)\<rparr>"

definition server_abs :: "'p server \<Rightarrow> unit l_state" where
  "server_abs s = \<lparr>conns = card (open_conns (sv_world s)), asked = sv_asked s, pending = sv_pending s,
     l_world = listener_view (sv_world s)\<rparr>"

lemma listener_view_app_call:
  "listener_view (app_call fn (Stopped x) w) = app_call fn (Stopped x) (listener_view w)"
  by (cases fn) (simp_all add: listener_view_def app_call_def add_fault_def)

lemma listener_view_ops:
  "listener_view (listener_ref w) = listener_ref (listener_view w)"
  "listener_view (tapsListenerDeref w) = tapsListenerDeref (listener_view w)"
  "listener_view (taps_stopped w) = taps_stopped (listener_view w)"
proof -
  have upd: "listener_view (w\<lparr>lst := x\<rparr>) = (listener_view w)\<lparr>lst := x\<rparr>" "lst (listener_view w) = lst w" for x
    by (simp_all add: listener_view_def)
  show "listener_view (listener_ref w) = listener_ref (listener_view w)" by (simp add: listener_ref_def upd)
  show "listener_view (tapsListenerDeref w) = tapsListenerDeref (listener_view w)"
    by (simp add: tapsListenerDeref_def Let_def listener_view_app_call upd)
  show "listener_view (taps_stopped w) = taps_stopped (listener_view w)"
    by (simp add: taps_stopped_def Let_def listener_view_app_call upd)
qed

lemma lst_listener_view [simp]: "lst (listener_view w) = lst w"
  by (simp add: listener_view_def)

text \<open>\<open>Stop\<close> of a protocol that reports at once, or later.\<close>

definition stop_handles :: "bool \<Rightarrow> unit proto_handles" where
  "stop_handles called = \<lparr>h_listen = (\<lambda>_ p. (None, p)), h_stop = (\<lambda>_ p. (called, p)),
     h_send = (\<lambda>_ _ _ _ p. (0, p)), h_receive = (\<lambda>_ _ _ _ _ p. p)\<rparr>"

lemma proto_unit [simp]: "w\<lparr>proto := u\<rparr> = (w :: unit taps_world)"
  by (cases w) simp

lemma listener_view_stop:
  assumes "tapsListenerStop h a c w = (r, e, w')"
  shows "\<exists>called. tapsListenerStop (stop_handles called) a c (listener_view w) = (r, e, listener_view w')"
proof (cases "\<exists>cb. c = Some cb \<and> a \<noteq> None \<and> cb_stopped cb \<noteq> None")
  case False
  then show ?thesis using assms by (auto simp: tapsListenerStop_def split: option.splits if_splits)
next
  case True
  then obtain cb where c: "c = Some cb" "a \<noteq> None" "cb_stopped cb \<noteq> None" by blast
  obtain called p' where p: "h_stop h (l_proto_ctx (lst w)) (proto w) = (called, p')" by fastforce
  let ?w = "w\<lparr>lst := (lst w)\<lparr>l_stopped := cb_stopped cb\<rparr>, proto := p'\<rparr>"
  have "listener_view ?w = (listener_view w)\<lparr>lst := (lst w)\<lparr>l_stopped := cb_stopped cb\<rparr>\<rparr>" by (simp add: listener_view_def)
  then have "tapsListenerStop (stop_handles called) a c (listener_view w) = (r, e, listener_view w')"
    using assms c p listener_view_ops(3) [of ?w]
    by (auto simp: tapsListenerStop_def call_stop_def stop_handles_def)
  then show ?thesis ..
qed

section \<open>The invariant\<close>

text \<open>
  \<open>conns_ok\<close>: every connection that exists is well formed, the open ones can report an error, and no
  symbol table was freed (it belongs to the listener).
\<close>

definition conns_ok :: "'p conn_world \<Rightarrow> bool" where
  "conns_ok w \<longleftrightarrow> (\<forall>c. allocated (cheap w) c \<longrightarrow> conn_wf c w) \<and>
     (\<forall>c cn. cheap w c = Some (Live cn) \<longrightarrow> c_listener cn \<noteq> None \<longrightarrow> c_connectionError cn \<noteq> None) \<and>
     finite (open_conns w) \<and> freed_handles w = []"

definition server_inv :: "tapsCallbacks \<Rightarrow> 'p server \<Rightarrow> bool" where
  "server_inv cb s \<longleftrightarrow> conns_ok (sv_world s) \<and> l_inv cb (server_abs s)"

definition server_start :: "'p server \<Rightarrow> bool" where
  "server_start s \<longleftrightarrow> l_start (server_abs s) \<and> (\<forall>c. \<not> allocated (cheap (sv_world s)) c) \<and> freed_handles (sv_world s) = []"

lemma server_inv_start: "server_start s \<Longrightarrow> server_inv cb s"
  by (auto simp: server_start_def server_inv_def conns_ok_def open_conns_def allocated_def intro: l_inv_start)

text \<open>Changing the listener, the log or fields of a connection that its queues do not depend on.\<close>

lemma conn_wf_cong:
  assumes "conn_wf c w" "sheap w' = sheap w" "rheap w' = rheap w" "msgs w' = msgs w"
    "cheap w c = Some (Live cn)" "cheap w' c = Some (Live cn')" "sndq cn' = sndq cn" "rcvq cn' = rcvq cn" "c_handles cn' = c_handles cn"
  shows "conn_wf c w'"
  using assms by (auto simp: conn_wf_def send_ok_def recv_ok_def recv_item_ok_def)

text \<open>A step that concerns one connection keeps \<open>conns_ok\<close> if it keeps that one.\<close>

lemma conns_okI:
  assumes "conns_ok w" "apart {} c w w'" "allocated (cheap w') c \<Longrightarrow> conn_wf c w'"
    "\<And>cn. cheap w' c = Some (Live cn) \<Longrightarrow> c_listener cn \<noteq> None \<Longrightarrow> c_connectionError cn \<noteq> None" "freed_handles w' = freed_handles w"
  shows "conns_ok w'"
proof -
  have same: "cheap w' d = cheap w d" if "d \<noteq> c" for d using assms(2) that by (simp add: apart_def)
  have "conn_wf d w'" if "allocated (cheap w') d" for d
  proof (cases "d = c")
    case True
    with that assms(3) show ?thesis by simp
  next
    case False
    with that same have "allocated (cheap w) d" by (simp add: allocated_def)
    with assms(1) have "conn_wf d w" by (simp add: conns_ok_def)
    with assms(2) False show ?thesis by (rule conn_wf_apart)
  qed
  moreover have "c_connectionError cn \<noteq> None" if "cheap w' d = Some (Live cn)" "c_listener cn \<noteq> None" for d cn
    using that assms(1,4) same [of d] by (cases "d = c") (auto simp: conns_ok_def)
  moreover have "open_conns w' \<subseteq> insert c (open_conns w)" using same by (auto simp: open_conns_def)
  then have "finite (open_conns w')" using assms(1) by (auto simp: conns_ok_def intro: finite_subset)
  ultimately show ?thesis using assms(1,5) by (auto simp: conns_ok_def)
qed

lemma open_conns_hput:
  "cheap w' = hput (cheap w) c cn \<Longrightarrow>
    open_conns w' = (if c_listener cn = None then open_conns w - {c} else insert c (open_conns w))"
  by (auto simp: open_conns_def split: if_splits)

lemma open_conns_cong:
  assumes "\<And>d. d \<noteq> c \<Longrightarrow> cheap w' d = cheap w d" "cheap w c = Some (Live cn)" "cheap w' c = Some (Live cn')"
    "c_listener cn' = c_listener cn"
  shows "open_conns w' = open_conns w"
proof (rule set_eqI)
  show "d \<in> open_conns w' \<longleftrightarrow> d \<in> open_conns w" for d
    using assms by (cases "d = c") (simp_all add: open_conns_def)
qed

subsection \<open>The end of a connection\<close>

lemma deref_frame [simp]:
  "msgs (tapsListenerDeref w) = msgs w" "vheap (tapsListenerDeref w) = vheap w"
  by (simp_all add: tapsListenerDeref_def Let_def)

lemma listener_view_silent [simp]:
  "\<not> is_stop (f, x) \<Longrightarrow> listener_view (app_call (Some f) x w) = listener_view w"
  "listener_view (set_conn c cn w) = listener_view w"
  by (simp_all add: listener_view_def app_call_def)

lemma conn_ended:
  fixes w w' :: "'p conn_world"
  assumes ok: "conns_ok w" and cn: "cheap w c = Some (Live cn)" "c_listener cn \<noteq> None"
    and w': "sheap w' = sheap w" "rheap w' = rheap w" "msgs w' = msgs w" "freed_handles w' = freed_handles w"
      "cheap w' = hput (cheap w) c cn'" "c_listener cn' = None"
      "sndq cn' = sndq cn" "rcvq cn' = rcvq cn" "c_handles cn' = c_handles cn"
  shows "conns_ok w' \<and> open_conns w' = open_conns w - {c} \<and> card (open_conns w) = Suc (card (open_conns w'))"
proof -
  have "conn_wf c w" using ok cn by (simp add: conns_ok_def allocated_def)
  then have wf: "conn_wf c w'" by (rule conn_wf_cong [OF _ w'(1-3) cn(1) _ w'(7-9)]) (simp add: w'(5))
  have "conns_ok w'"
  proof (rule conns_okI [OF ok])
    show "apart {} c w w'" by (rule apart_heaps) (simp_all add: w'(1-3,5))
    show "c_connectionError k \<noteq> None" if "cheap w' c = Some (Live k)" "c_listener k \<noteq> None" for k
    proof -
      from that(1) have "k = cn'" by (simp add: w'(5))
      with that(2) w'(6) show ?thesis by simp
    qed
  qed (simp_all add: wf w'(4))
  moreover have op: "open_conns w' = open_conns w - {c}"
    using open_conns_hput [OF w'(5)] w'(6) by simp
  moreover have "c \<in> open_conns w" "finite (open_conns w)" using cn ok by (auto simp: open_conns_def conns_ok_def)
  then have "card (open_conns w) = Suc (card (open_conns w - {c}))" by (intro card.remove)
  ultimately show ?thesis by simp
qed

lemma server_closed:
  assumes ok: "conns_ok w" and cn: "cheap w c = Some (Live cn)" "c_listener cn \<noteq> None"
  shows "conns_ok (taps_closed c w) \<and> card (open_conns w) = Suc (card (open_conns (taps_closed c w))) \<and>
    listener_view (taps_closed c w) = tapsListenerDeref (listener_view w)"
proof -
  let ?cn = "cn\<lparr>c_listener := None, c_proto_ctx := None\<rparr>"
  note eq = closed_with_listener [OF cn]
  have "listener_view (taps_closed c w) = tapsListenerDeref (listener_view w)"
    by (auto simp: eq Let_def listener_view_ops)
  moreover have "conns_ok (taps_closed c w) \<and> open_conns (taps_closed c w) = open_conns w - {c} \<and>
      card (open_conns w) = Suc (card (open_conns (taps_closed c w)))"
    by (rule conn_ended [OF ok cn, where cn' = ?cn]) (simp_all add: eq Let_def)
  ultimately show ?thesis by blast
qed

lemma server_error:
  assumes ok: "conns_ok w" and cn: "cheap w c = Some (Live cn)" "c_listener cn \<noteq> None"
  shows "conns_ok (taps_connection_error c w) \<and> card (open_conns w) = Suc (card (open_conns (taps_connection_error c w))) \<and>
    listener_view (taps_connection_error c w) = tapsListenerDeref (listener_view w)"
proof -
  let ?cn = "cn\<lparr>c_listener := None\<rparr>"
  obtain f where f: "c_connectionError cn = Some f" using ok cn unfolding conns_ok_def by blast
  have eq: "taps_connection_error c w = app_call (Some f) (ConnectionError (c_app_ctx cn) None) (set_conn c ?cn (tapsListenerDeref w))"
    using cn f by (simp add: taps_connection_error_def drop_listener_def)
  have "listener_view (taps_connection_error c w) = tapsListenerDeref (listener_view w)"
    by (simp add: eq listener_view_ops)
  moreover have "conns_ok (taps_connection_error c w) \<and> open_conns (taps_connection_error c w) = open_conns w - {c} \<and>
      card (open_conns w) = Suc (card (open_conns (taps_connection_error c w)))"
    by (rule conn_ended [OF ok cn, where cn' = ?cn]) (simp_all add: eq)
  ultimately show ?thesis by blast
qed

subsection \<open>A new connection\<close>

lemma listener_ref_frame [simp]:
  "sheap (listener_ref w) = sheap w" "rheap (listener_ref w) = rheap w" "msgs (listener_ref w) = msgs w"
  "freed_handles (listener_ref w) = freed_handles w"
  by (simp_all add: listener_ref_def)

lemma new_conn_wf:
  assumes "cheap w c = Some (Live cn)" "sndq cn = None" "rcvq cn = None" "c_handles cn \<noteq> None"
  shows "conn_wf c w"
  using assms by (auto simp: conn_wf_def send_ok_def recv_ok_def intro!: exI [of _ "[]"])

lemma server_accept:
  assumes ok: "conns_ok w" and fresh: "\<not> allocated (cheap w) c" and nr: "\<not> readyToStop (lst w)"
    and f: "l_connectionReceived (lst w) = Some f"
    and op: "taps_connection_received accept (Some c) l hs pctx w = (res, w')"
  shows "conns_ok w' \<and>
    (if res = None then card (open_conns w') = card (open_conns w) \<and> listener_view w' = listener_view w
     else card (open_conns w') = Suc (card (open_conns w)) \<and> listener_view w' = listener_ref (listener_view w))"
proof -
  obtain app cbs where acc: "accept (l_app_ctx (lst w)) c = (app, cbs)" by fastforce
  let ?n = "new_conn pctx hs l"
  let ?w3 = "app_call (Some f) (ConnectionReceived (l_app_ctx (lst w)) c) (listener_ref (set_conn c ?n w))"
  note unf = connection_received_unfold [of w f accept c app cbs ?w3 pctx hs l, OF f acc refl]
  have notin: "c \<notin> open_conns w" using fresh by (auto simp: open_conns_def allocated_def)
  show ?thesis
  proof (cases "\<exists>cb. cbs = Some cb \<and> cb_closed cb \<noteq> None \<and> cb_connectionError cb \<noteq> None")
    case True
    then obtain cb where cb: "cbs = Some cb" "cb_closed cb \<noteq> None" "cb_connectionError cb \<noteq> None" by blast
    let ?cn = "?n\<lparr>c_app_ctx := (case app of None \<Rightarrow> Some c | Some a \<Rightarrow> Some a), c_closed := cb_closed cb,
        c_connectionError := cb_connectionError cb\<rparr>"
    from op unf cb have w': "w' = set_conn c ?cn ?w3" "res = Some c" by simp_all
    have "conn_wf c w'" by (rule new_conn_wf [of _ _ ?cn]) (simp_all add: w' new_conn_def)
    then have "conns_ok w'"
      by (intro conns_okI [OF ok apart_heaps [of c w' w "{}"]]) (use cb(3) in \<open>auto simp: w'\<close>)
    moreover have "open_conns w' = insert c (open_conns w)"
      using open_conns_hput [of w' w c ?cn] by (simp add: w' new_conn_def)
    moreover have "listener_view w' = listener_ref (listener_view w)" by (simp add: w' listener_view_ops)
    ultimately show ?thesis using ok notin w'(2) by (simp add: conns_ok_def)
  next
    case False
    with op unf have w': "w' = taps_closed c ?w3" "res = None" by (auto split: option.splits if_splits)
    let ?cn = "?n\<lparr>c_listener := None, c_proto_ctx := None\<rparr>"
    have cl: "taps_closed c ?w3 = set_conn c ?cn (tapsListenerDeref ?w3)"
      using closed_with_listener [of ?w3 c ?n] by (simp add: new_conn_def Let_def)
    have dr: "tapsListenerDeref ?w3 = ?w3\<lparr>lst := lst w\<rparr>" using deref_not_ready [of ?w3] nr by simp
    have eq: "w' = set_conn c ?cn (?w3\<lparr>lst := lst w\<rparr>)" using w'(1) cl dr by simp
    have "conn_wf c w'" by (rule new_conn_wf [of _ _ ?cn]) (simp_all add: eq new_conn_def)
    then have "conns_ok w'"
      by (intro conns_okI [OF ok apart_heaps [of c w' w "{}"]]) (auto simp: eq)
    moreover have "open_conns w' = open_conns w"
      using open_conns_hput [of w' w c ?cn] notin by (simp add: eq)
    moreover have "listener_view w' = listener_view w"
      by (simp add: eq) (simp add: listener_view_def)
    ultimately show ?thesis using w'(2) by simp
  qed
qed

subsection \<open>Release, messages and the rest\<close>

lemma flush_short:
  assumes "item_queue h q xs" "length xs \<le> 1"
  shows "\<exists>its. flush_queue h q = (its, h, None) \<and> (\<forall>it \<in> set its. \<exists>a \<in> set xs. h a = Some (Live it))"
proof (cases xs)
  case Nil
  then show ?thesis using assms(1) by (simp add: item_queue_def)
next
  case (Cons a ys)
  then have a: "xs = [a]" "q = Some a" using assms by (auto simp: item_queue_def)
  then obtain it where "h a = Some (Live it)" using assms(1) item_queue_live by fastforce
  then show ?thesis using flush_single [of h a it] assms(1) a by simp
qed

lemma call_all_frame:
  assumes "\<forall>it \<in> set its. fst (f it) \<noteq> None \<and> (\<forall>g. \<not> is_stop (g, snd (f it)))"
  shows "\<exists>tr. call_all f its w = w\<lparr>trace := trace w @ tr\<rparr> \<and> filter is_stop tr = []"
  using assms
proof (induction its arbitrary: w)
  case Nil
  show ?case by (rule exI [of _ "[]"]) (simp add: call_all_def)
next
  case (Cons it its)
  then obtain g where g: "fst (f it) = Some g" by auto
  have "call_all f (it # its) w = call_all f its (w\<lparr>trace := trace w @ [(g, snd (f it))]\<rparr>)"
    by (simp add: call_all_def g app_call_def)
  moreover obtain tr where "call_all f its (w\<lparr>trace := trace w @ [(g, snd (f it))]\<rparr>) =
      w\<lparr>trace := (trace w @ [(g, snd (f it))]) @ tr\<rparr>" "filter is_stop tr = []"
    using Cons.IH [of "w\<lparr>trace := trace w @ [(g, snd (f it))]\<rparr>"] Cons.prems by auto
  ultimately show ?case using Cons.prems by (intro exI [of _ "(g, snd (f it)) # tr"]) simp
qed

lemma server_free:
  assumes ok: "conns_ok w" and cn: "cheap w c = Some (Live cn)" "c_listener cn = None"
    and xs: "item_queue (sheap w) (sndq cn) xs" "length xs \<le> 1"
      "\<forall>a \<in> set xs. \<forall>v. view (sheap w) a = Some v \<longrightarrow> s_sendError v \<noteq> None"
    and ys: "item_queue (rheap w) (rcvq cn) ys" "length ys \<le> 1"
    and w': "w' = tapsConnectionFree c w"
  shows "conns_ok w' \<and> open_conns w' = open_conns w \<and> listener_view w' = listener_view w"
proof -
  have wf: "conn_wf c w" using ok cn by (simp add: conns_ok_def allocated_def)
  obtain its where its: "flush_queue (sheap w) (sndq cn) = (its, sheap w, None)"
    "\<forall>it \<in> set its. \<exists>a \<in> set xs. sheap w a = Some (Live it)" using flush_short [OF xs(1,2)] by blast
  obtain rits where rits: "flush_queue (rheap w) (rcvq cn) = (rits, rheap w, None)"
    "\<forall>it \<in> set rits. \<exists>a \<in> set ys. rheap w a = Some (Live it)" using flush_short [OF ys] by blast
  have "s_sendError it \<noteq> None" if "it \<in> set its" for it
    using its(2) that xs(3) view_sendError view_live by (metis (no_types, lifting))
  then obtain tr where tr: "call_all (\<lambda>it. (s_sendError it, SendError (c_app_ctx cn) (s_app_ctx it) ''Connection died'')) its w =
      w\<lparr>trace := trace w @ tr\<rparr>" "filter is_stop tr = []"
    using call_all_frame [of its "\<lambda>it. (s_sendError it, SendError (c_app_ctx cn) (s_app_ctx it) ''Connection died'')" w] by auto
  have "r_receiveError it \<noteq> None" if "it \<in> set rits" for it
  proof -
    from rits(2) that obtain a where a: "a \<in> set ys" "rheap w a = Some (Live it)" by blast
    from wf obtain zs where zs: "recv_ok c zs w" by (auto simp: conn_wf_def)
    with ys cn a recv_ok_queue [OF zs cn(1) ys(1)] obtain us vs where "zs = us @ a # vs" by (metis split_list)
    with zs recv_item_callbacks(3) [of c us a vs w it] a show ?thesis by simp
  qed
  then obtain tr' where tr': "call_all (\<lambda>it. (r_receiveError it, ReceiveError (c_app_ctx cn) (r_app_ctx it) ''Connection died'')) rits
      (w\<lparr>trace := trace w @ tr\<rparr>) = w\<lparr>trace := trace w @ tr @ tr'\<rparr>" "filter is_stop tr' = []"
    using call_all_frame [of rits "\<lambda>it. (r_receiveError it, ReceiveError (c_app_ctx cn) (r_app_ctx it) ''Connection died'')"
        "w\<lparr>trace := trace w @ tr\<rparr>"] by auto
  have eq: "w' = w\<lparr>trace := trace w @ tr @ tr', cheap := (cheap w)(c := Some (Freed cn))\<rparr>"
    using cn its(1) rits(1) tr(1) tr'(1) by (simp add: w' tapsConnectionFree_def)
  have "conns_ok w'"
    by (intro conns_okI [OF ok apart_heaps [of c w' w "{}"]]) (simp_all add: eq allocated_def)
  moreover have "open_conns w' = open_conns w"
    using cn by (auto simp: eq open_conns_def)
  ultimately show ?thesis using tr(2) tr'(2) by (simp add: eq listener_view_def)
qed

lemma server_message:
  assumes ok: "conns_ok w" and free: "\<not> in_use t w" and w': "w' = w\<lparr>msgs := (msgs w)(t := x)\<rparr>"
  shows "conns_ok w' \<and> open_conns w' = open_conns w \<and> listener_view w' = listener_view w"
proof -
  have "conn_wf c w'" if "conn_wf c w" for c
  proof -
    from that obtain xs ys cn where s: "send_ok c xs w" and r: "recv_ok c ys w" and cn: "cheap w c = Some (Live cn)"
      by (auto simp: conn_wf_def send_ok_def)
    have "item_queue (sheap w) (sndq cn) xs" "item_queue (rheap w) (rcvq cn) ys"
      using s r cn by (auto simp: send_ok_def recv_ok_def)
    then have "s_message v \<noteq> t" if "a \<in> set xs" "view (sheap w) a = Some v" for a v
      using free cn that unfolding in_use_def by blast
    then have "send_ok c xs w'" using s by (fastforce simp: w' send_ok_def allocated_def)
    moreover have "r_message v \<noteq> t" if "a \<in> set ys" "view (rheap w) a = Some v" for a v
      using free cn that \<open>item_queue (rheap w) (rcvq cn) ys\<close> unfolding in_use_def by blast
    then have "recv_ok c ys w'" using r by (fastforce simp: w' recv_ok_def recv_item_ok_def)
    ultimately show ?thesis by (auto simp: conn_wf_def)
  qed
  then show ?thesis using ok by (auto simp: w' conns_ok_def open_conns_def listener_view_def)
qed

lemma server_conn:
  assumes ok: "conns_ok w" "\<forall>f \<in> set (faults w). f = UseAfterFree" and c: "allocated (cheap w) c" and st: "conn_step h c w w'"
  shows "conns_ok w' \<and> open_conns w' = open_conns w \<and> listener_view w' = listener_view w"
proof -
  have wf: "conn_wf c w" using ok(1) c by (simp add: conns_ok_def)
  have only: "only_conn c w w'" by (rule conn_step_only [OF st wf])
  have "conn_inv {} c w" using wf ok(2) by (auto simp: conn_inv_def)
  from conn_inv_step [OF st this] have wf': "conn_wf c w'" "set (faults w') \<subseteq> {UseAfterFree}" by (auto simp: conn_inv_def)
  obtain cn cn' where cn: "cheap w c = Some (Live cn)" "cheap w' c = Some (Live cn')" "c_listener cn' = c_listener cn"
    "c_connectionError cn' = c_connectionError cn" using only c by (auto simp: only_conn_def allocated_def)
  have oth: "apart {} c w w'" using only by (simp add: only_conn_def)
  have "conns_ok w'"
  proof (rule conns_okI [OF ok(1) oth])
    show "c_connectionError k \<noteq> None" if "cheap w' c = Some (Live k)" "c_listener k \<noteq> None" for k
      using that cn ok(1) unfolding conns_ok_def by (metis option.inject cell.inject(1))
    show "freed_handles w' = freed_handles w" using only by (simp add: only_conn_def)
  qed (rule wf'(1))
  moreover have "open_conns w' = open_conns w"
    by (rule open_conns_cong [OF _ cn(1-3)]) (use oth in \<open>simp add: apart_def\<close>)
  moreover have "filter (\<lambda>f. f \<noteq> UseAfterFree) (faults w') = []" "filter (\<lambda>f. f \<noteq> UseAfterFree) (faults w) = []"
    using wf'(2) ok(2) by (auto simp: filter_empty_conv)
  ultimately show ?thesis using only by (simp add: listener_view_def only_conn_def)
qed

section \<open>All interleavings\<close>

lemma server_inv_faults: "server_inv cb s \<Longrightarrow> \<forall>f \<in> set (faults (sv_world s)). f = UseAfterFree"
  by (auto simp: server_inv_def l_inv_def server_abs_def listener_view_def filter_empty_conv)

lemma stop_frame:
  assumes "tapsListenerStop h a c w = (r, e, w')"
  shows "conns_ok w' = conns_ok w" "open_conns w' = open_conns w"
  using assms
  by (auto simp: tapsListenerStop_def call_stop_def taps_stopped_def conns_ok_def open_conns_def conn_wf_def send_ok_def
      recv_ok_def recv_item_ok_def Let_def split: option.splits if_splits prod.splits)

lemma report_frame:
  "conns_ok (taps_stopped w) = conns_ok w" "open_conns (taps_stopped w) = open_conns w"
  by (simp_all add: taps_stopped_def conns_ok_def open_conns_def conn_wf_def send_ok_def
      recv_ok_def recv_item_ok_def Let_def)

text \<open>Each step keeps the connections in order, and is a step of the listener or invisible to it.\<close>

lemma server_simulates:
  assumes step: "server_step h l hs cb s t" and inv: "server_inv cb s"
  shows "conns_ok (sv_world t) \<and> (server_abs t = server_abs s \<or> (\<exists>h. l_step h l cb (server_abs s) (server_abs t)))"
proof -
  let ?w = "sv_world s" and ?a = "server_abs s"
  from inv have ok: "conns_ok ?w" by (simp add: server_inv_def)
  note quiet = server_abs_def
  have close: "\<exists>h. l_step h l cb ?a (server_abs (s\<lparr>sv_world := w'\<rparr>))"
    if "card (open_conns ?w) = Suc (card (open_conns w'))" "listener_view w' = tapsListenerDeref (listener_view ?w)" for w'
    using l_close [of ?a "stop_handles True" l cb] that by (auto simp: server_abs_def)
  from step show ?thesis
  proof cases
    case (sv_accept c accept pctx res w')
    from sv_accept(5) obtain f where f: "l_connectionReceived (lst ?w) = Some f" by blast
    from server_accept [OF ok sv_accept(4) sv_accept(2) f sv_accept(6)] l_accept [of ?a "stop_handles True" l cb] sv_accept
    show ?thesis by (auto simp: server_abs_def split: if_splits)
  next
    case (sv_accept_nomem accept pctx res w')
    then have "w' = ?w" by (simp add: taps_connection_received_def taps_connection_received_begin_def tapsConnectionNew_def)
    with sv_accept_nomem ok show ?thesis by simp
  next
    case (sv_conn c w')
    from server_conn [OF ok server_inv_faults [OF inv] sv_conn(2,3)] sv_conn(1) show ?thesis by (simp add: server_abs_def)
  next
    case (sv_closed c)
    then obtain cn where "cheap ?w c = Some (Live cn)" "c_listener cn \<noteq> None" by (auto simp: open_conns_def)
    from server_closed [OF ok this] close sv_closed(1) show ?thesis by simp
  next
    case (sv_error c)
    then obtain cn where "cheap ?w c = Some (Live cn)" "c_listener cn \<noteq> None" by (auto simp: open_conns_def)
    from server_error [OF ok this] close sv_error(1) show ?thesis by simp
  next
    case (sv_free c cn xs ys)
    from server_free [OF ok sv_free(2-8) refl] sv_free(1) show ?thesis by (simp add: server_abs_def)
  next
    case (sv_message m x)
    from server_message [OF ok sv_message(2) refl] sv_message(1) show ?thesis by (simp add: server_abs_def)
  next
    case (sv_stop e w')
    from listener_view_stop [OF sv_stop(3)] obtain called where
      "tapsListenerStop (stop_handles called) (Some l) (Some cb) (listener_view ?w) = (0, e, listener_view w')" by blast
    with l_stop [of ?a "stop_handles called" l cb e "listener_view w'"] sv_stop stop_frame [OF sv_stop(3)] ok
    show ?thesis by (auto simp: server_abs_def)
  next
    case sv_report
    with l_report [of ?a "stop_handles True" l cb] ok show ?thesis
      by (auto simp: server_abs_def report_frame listener_view_ops)
  qed
qed

lemma server_inv_step:
  assumes "server_inv cb s" "server_step h l hs cb s t"
  shows "server_inv cb t"
proof -
  have "l_inv cb (server_abs s)" using assms(1) by (simp add: server_inv_def)
  then have "l_inv cb (server_abs t)" using server_simulates [OF assms(2,1)] l_inv_step by metis
  then show ?thesis using server_simulates [OF assms(2,1)] by (simp add: server_inv_def)
qed

interpretation server: simulation server_start "server_step h l hs cb" "server_inv cb" server_abs
  "\<lambda>a b. \<exists>h. l_step h l cb a b"
proof (unfold_locales, goal_cases)
  case (1 s)
  then show ?case by (rule server_inv_start)
next
  case (2 s t)
  then show ?case by (rule server_inv_step)
next
  case (3 s t)
  then show ?case using server_simulates by blast
qed

section \<open>Properties\<close>


text \<open>
  C7. The server as a whole is a listener: every run of the server is, seen through its open
  connections and its Stopped events, a run of the listener of Taps_Listener. So the application
  gets exactly one Stopped event, when it has stopped the listener, the protocol has reported it and
  every connection has ended, and none before, whatever the connections do.
\<close>

theorem server_refines_listener:
  assumes "server_start s" "reaches (server_step h l hs cb) s t"
  shows "reaches (\<lambda>a b. \<exists>h. l_step h l cb a b) (server_abs s) (server_abs t) \<and>
    length (filter is_stop (trace (sv_world t))) =
      (if sv_asked t \<and> \<not> sv_pending t \<and> open_conns (sv_world t) = {} then 1 else 0)"
proof -
  have inv: "server_inv cb s" "server_inv cb t"
    using server_inv_start [OF assms(1)] server.inv_reachable [OF assms] by blast+
  have "finite (open_conns (sv_world t))" using inv(2) by (simp add: server_inv_def conns_ok_def)
  moreover have "stops (server_abs t) = length (filter is_stop (trace (sv_world t)))"
    by (simp add: stops_def server_abs_def listener_view_def is_stop_def [abs_def])
  ultimately show ?thesis
    using server.abs_reaches [OF assms(2) inv(1)] inv(2)
    by (auto simp: server_inv_def l_inv_def l_done_def server_abs_def card_eq_0_iff)
qed

section \<open>A concrete run\<close>

text \<open>Two connections arrive, the listener is stopped, and the protocol closes one and then the other.\<close>

definition demo_server :: "log_entry list server" where
  "demo_server = \<lparr>sv_world = demo_world\<lparr>lst := zero_listener\<lparr>l_connectionReceived := Some 1, l_app_ctx := Some 5\<rparr>,
     cheap := Map.empty\<rparr>, sv_asked = False, sv_pending = False\<rparr>"

definition srv_accept :: "addr \<Rightarrow> log_entry list server \<Rightarrow> log_entry list server" where
  "srv_accept c s = s\<lparr>sv_world :=
     snd (taps_connection_received (\<lambda>_ _. (None, Some all_callbacks)) (Some c) 80 70 (Some 51) (sv_world s))\<rparr>"

definition demo_two :: "log_entry list server" where
  "demo_two = srv_accept 201 (srv_accept 200 demo_server)"

definition demo_stopping :: "log_entry list server" where
  "demo_stopping = demo_two\<lparr>sv_asked := True, sv_pending := False,
     sv_world := snd (snd (tapsListenerStop recorder (Some 80) (Some all_callbacks) (sv_world demo_two)))\<rparr>"

definition demo_close :: "addr \<Rightarrow> log_entry list server \<Rightarrow> log_entry list server" where
  "demo_close c s = s\<lparr>sv_world := taps_closed c (sv_world s)\<rparr>"

lemmas demo_server_defs = demo_close_def demo_stopping_def demo_two_def srv_accept_def demo_server_def demo_defs zero_listener_def
  taps_connection_received_def taps_connection_received_begin_def taps_connection_received_end_def tapsConnectionNew_def
  tapsConnectionInitialize_def listener_ref_def set_conn_def app_call_def tapsListenerStop_def call_stop_def taps_stopped_def
  taps_closed_def drop_listener_def tapsListenerDeref_def Let_def

lemma demo_server_start: "server_start demo_server"
  by (simp add: server_start_def l_start_def server_abs_def listener_view_def open_conns_def demo_server_defs allocated_def)

lemma demo_server_open:
  "open_conns (sv_world demo_server) = {}" "open_conns (sv_world (srv_accept 200 demo_server)) = {200}"
  "open_conns (sv_world demo_two) = {200, 201}" "open_conns (sv_world demo_stopping) = {200, 201}"
  "open_conns (sv_world (demo_close 200 demo_stopping)) = {201}"
  "open_conns (sv_world (demo_close 201 (demo_close 200 demo_stopping))) = {}"
  by (auto simp: open_conns_def demo_server_defs split: if_splits)

lemma srv_accepts:
  assumes "c = 200 \<and> s = demo_server \<or> c = 201 \<and> s = srv_accept 200 demo_server"
  shows "server_step recorder 80 70 all_callbacks s (srv_accept c s)"
proof -
  obtain res w' where op: "taps_connection_received (\<lambda>_ _. (None, Some all_callbacks)) (Some c) 80 70 (Some 51) (sv_world s) = (res, w')"
    by fastforce
  have "\<not> readyToStop (lst (sv_world s))" "card (open_conns (sv_world s)) < 2 ^ 32 - 1" "\<not> allocated (cheap (sv_world s)) c"
    "l_connectionReceived (lst (sv_world s)) \<noteq> None"
    using assms demo_server_open(1,2) by (auto simp: demo_server_defs allocated_def)
  from sv_accept [OF this op] show ?thesis by (simp add: srv_accept_def op)
qed

lemma demo_server_two: "reaches (server_step recorder 80 70 all_callbacks) demo_server demo_two"
proof -
  let ?s = "server_step recorder 80 70 all_callbacks"
  have "?s demo_server (srv_accept 200 demo_server)" "?s (srv_accept 200 demo_server) demo_two"
    using srv_accepts [of 200 demo_server] srv_accepts [of 201 "srv_accept 200 demo_server"] by (simp_all add: demo_two_def)
  then show ?thesis using reaches_step [OF reaches_single [of ?s]] by blast
qed

lemma demo_server_stopped:
  "reaches (server_step recorder 80 70 all_callbacks) demo_server (demo_close 201 (demo_close 200 demo_stopping))"
proof -
  obtain e w' where op: "tapsListenerStop recorder (Some 80) (Some all_callbacks) (sv_world demo_two) = (0, e, w')" "readyToStop (lst w')"
    by (simp add: demo_server_defs)
  have "server_step recorder 80 70 all_callbacks demo_two
      (demo_two\<lparr>sv_asked := True, sv_pending := \<not> readyToStop (lst w'), sv_world := w'\<rparr>)"
    by (rule sv_stop [OF _ op(1)]) (simp add: demo_two_def srv_accept_def demo_server_def)
  then have st: "server_step recorder 80 70 all_callbacks demo_two demo_stopping" using op by (simp add: demo_stopping_def)
  have cl: "server_step recorder 80 70 all_callbacks demo_stopping (demo_close 200 demo_stopping)"
    "server_step recorder 80 70 all_callbacks (demo_close 200 demo_stopping) (demo_close 201 (demo_close 200 demo_stopping))"
    using sv_closed [of 200 demo_stopping] sv_closed [of 201 "demo_close 200 demo_stopping"] demo_server_open(4,5)
    by (simp_all add: demo_close_def)
  show ?thesis by (rule reaches_step [OF reaches_step [OF reaches_step [OF demo_server_two st] cl(1)] cl(2)])
qed


theorem server_refines_listener_witness:
  "length (filter is_stop (trace (sv_world (demo_close 201 (demo_close 200 demo_stopping))))) = 1"
  using server_refines_listener [OF demo_server_start demo_server_stopped]
  by (simp add: demo_server_open(6)) (simp add: demo_close_def demo_stopping_def)

end
