(* ===== verification/Taps_Tcp.thy ===== *)
theory Taps_Tcp
  imports Taps_Send Taps_Receive
begin

text \<open>
  The TCP protocol module, src/src/tcp/tcp.c. Results of system calls are arguments. libevent is
  a record of functions on an abstract state; what the module relies on is the predicate
  \<open>libevent_ok\<close>, which states the documented effect of \<open>event_add\<close>, \<open>event_del\<close> and
  \<open>event_pending\<close>. A handler that calls back into TAPS returns the call, since the rest of
  TAPS runs in it. Fresh memory has the contents \<open>malloc\<close> left in it.
\<close>

section \<open>libevent\<close>

datatype event_kind = EV_CLOSED | EV_WRITE | EV_READ | EV_READ_PERSIST

record 'e evlib =
  event_new :: "int \<Rightarrow> event_kind \<Rightarrow> 'e \<Rightarrow> addr option \<times> 'e"
  event_add :: "addr option \<Rightarrow> 'e \<Rightarrow> int \<times> 'e"
  event_del :: "addr option \<Rightarrow> 'e \<Rightarrow> 'e"
  event_free :: "addr option \<Rightarrow> 'e \<Rightarrow> 'e"
  event_pending :: "addr option \<Rightarrow> 'e \<Rightarrow> bool"
  event_fired :: "addr option \<Rightarrow> 'e \<Rightarrow> 'e"

text \<open>
  \<open>event_fired\<close> is what libevent does to its own state before it runs the callback of an event
  that is not persistent: the event is no longer pending.
\<close>

definition libevent_ok :: "'e evlib \<Rightarrow> bool" where
  "libevent_ok L \<longleftrightarrow>
     (\<forall>a e r e'. event_add L a e = (r, e') \<longrightarrow> 0 \<le> r \<longrightarrow> event_pending L a e') \<and>
     (\<forall>a b e r e'. event_add L a e = (r, e') \<longrightarrow> (r < 0 \<or> b \<noteq> a) \<longrightarrow> event_pending L b e' = event_pending L b e) \<and>
     (\<forall>a e. \<not> event_pending L a (event_del L a e)) \<and>
     (\<forall>a e. \<not> event_pending L a (event_fired L a e)) \<and>
     (\<forall>a b e. b \<noteq> a \<longrightarrow> event_pending L b (event_fired L a e) = event_pending L b e)"

section \<open>State\<close>

record tcp_conn_ctx =
  t_fd :: int
  closeEvent :: "addr option"
  sendEvent :: "addr option"
  receiveEvent :: "addr option"
  errorEvent :: "addr option"
  t_closed :: fnptr
  t_connectionError :: fnptr
  t_sent :: fnptr
  t_expired :: fnptr
  t_sendError :: fnptr
  t_received :: fnptr
  t_receivedPartial :: fnptr
  t_receiveError :: fnptr
  t_taps_ctx :: ctx
  t_send_ctx :: ctx
  t_receive_ctx :: ctx
  receive_buffer :: "addr option \<times> iovec list"
  t_iovcnt :: int

record tcp_listener_ctx =
  lc_event :: "addr option"
  lc_fd :: int
  lc_connectionReceived :: fnptr
  lc_establishmentError :: fnptr
  lc_closed :: fnptr
  lc_connectionError :: fnptr
  lc_taps_ctx :: ctx

text \<open>
  The memory of the module, libevent's state, the descriptors closed, the \<open>writev\<close> calls that
  wrote something (connection, item, scatter list, bytes written), and the faults.
\<close>

record 'e tcp_state =
  tconns :: "tcp_conn_ctx heap"
  tlisteners :: "tcp_listener_ctx heap"
  ev :: 'e
  closed_fds :: "int list"
  written :: "(addr \<times> addr \<times> iovec list \<times> int) list"
  t_faults :: "fault list"

text \<open>
  The calls a protocol makes into TAPS, by the types of src/src/taps_protocol.h: the function and
  its arguments. The TCP module makes five of them.
\<close>

datatype tcp_callback =
    CbConnectionReceived fnptr ctx addr
  | CbEstablishmentError fnptr ctx "string option"
  | CbStopped fnptr ctx
  | CbSent fnptr ctx
  | CbExpired fnptr ctx
  | CbSendError fnptr ctx "string option"
  | CbReceived fnptr ctx "addr option" int
  | CbReceivedPartial fnptr ctx "addr option" int
  | CbReceiveError fnptr ctx "addr option" "string option"
  | CbClosed fnptr ctx
  | CbConnectionError fnptr ctx "string option"

definition t_fault :: "fault \<Rightarrow> 'e tcp_state \<Rightarrow> 'e tcp_state" where
  "t_fault f p = p\<lparr>t_faults := t_faults p @ [f]\<rparr>"

text \<open>A pointer argument that may be null.\<close>

definition deref_opt :: "'n heap \<Rightarrow> addr option \<Rightarrow> fault + addr \<times> 'n" where
  "deref_opt h a = (case a of None \<Rightarrow> Inl NullDeref | Some x \<Rightarrow> andthen (deref h x) (\<lambda>n. Inr (x, n)))"

definition set_tconn :: "addr \<Rightarrow> tcp_conn_ctx \<Rightarrow> 'e tcp_state \<Rightarrow> 'e tcp_state" where
  "set_tconn a c p = p\<lparr>tconns := hput (tconns p) a c\<rparr>"

section \<open>Handlers\<close>

text \<open>
  \<open>_tcp_closed\<close>: the events go, the descriptor is closed, TAPS is told, the context is freed.
  The state returned is that after the \<open>free\<close>: what TAPS does in the call does not reach the
  context any more, because \<open>_taps_closed\<close> clears its pointer to it before it calls the application.
\<close>

definition tcp_closed :: "'e evlib \<Rightarrow> addr option \<Rightarrow> 'e tcp_state \<Rightarrow> tcp_callback list \<times> 'e tcp_state" where
  "tcp_closed L arg p =
     (case deref_opt (tconns p) arg of
        Inl f \<Rightarrow> ([], t_fault f p)
      | Inr (a, c) \<Rightarrow>
          let e1 = event_free L (closeEvent c) (event_del L (closeEvent c) (ev p));
              e2 = event_free L (sendEvent c) (event_del L (sendEvent c) e1);
              e3 = event_free L (receiveEvent c) (event_del L (receiveEvent c) e2)
          in ([CbClosed (t_closed c) (t_taps_ctx c)],
              p\<lparr>ev := e3, closed_fds := closed_fds p @ [t_fd c], tconns := (tconns p)(a := Some (Freed c))\<rparr>))"

text \<open>\<open>_tcp_sent\<close>\<close>

definition tcp_sent :: "'e evlib \<Rightarrow> addr option \<Rightarrow> 'e tcp_state \<Rightarrow> tcp_callback list \<times> 'e tcp_state" where
  "tcp_sent L arg p =
     (case deref_opt (tconns p) arg of
        Inl f \<Rightarrow> ([], t_fault f p)
      | Inr (a, c) \<Rightarrow> ([CbSent (t_sent c) (t_send_ctx c)], p\<lparr>ev := event_fired L (sendEvent c) (ev p)\<rparr>))"

text \<open>\<open>_tcp_received\<close> with the result of \<open>readv\<close>: an error or zero bytes ends the handler.\<close>

definition tcp_received ::
  "'e evlib \<Rightarrow> int \<Rightarrow> addr option \<Rightarrow> 'e tcp_state \<Rightarrow> tcp_callback list \<times> 'e tcp_state" where
  "tcp_received L bytes arg p =
     (case deref_opt (tconns p) arg of
        Inl f \<Rightarrow> ([], t_fault f p)
      | Inr (a, c) \<Rightarrow>
          let p1 = p\<lparr>ev := event_fired L (receiveEvent c) (ev p)\<rparr> in
          if bytes < 0 then ([], p1)
          else if bytes = 0 then ([], p1)
          else ([CbReceivedPartial (t_receivedPartial c) (t_receive_ctx c) (fst (receive_buffer c)) bytes], p1))"

text \<open>
  \<open>_tcp_connection_received\<close> up to the call of TAPS: \<open>block\<close> is what \<open>malloc\<close> returned
  with its contents, \<open>fd\<close> the result of \<open>accept\<close>. A failing \<open>event_add\<close> frees the event
  and keeps the pointer to it.
\<close>

definition tcp_connection_received ::
  "'e evlib \<Rightarrow> (addr \<times> tcp_conn_ctx) option \<Rightarrow> int \<Rightarrow> addr option \<Rightarrow> 'e tcp_state \<Rightarrow>
    tcp_callback list \<times> 'e tcp_state" where
  "tcp_connection_received L block fd arg p =
     (case deref_opt (tlisteners p) arg of
        Inl f \<Rightarrow> ([], t_fault f p)
      | Inr (la, lctx) \<Rightarrow>
          (case block of
             None \<Rightarrow> ([], p)
           | Some (a, junk) \<Rightarrow>
               if fd < 0 then
                 ([], p\<lparr>closed_fds := closed_fds p @ [fd], tconns := (tconns p)(a := Some (Freed (junk\<lparr>t_fd := fd\<rparr>)))\<rparr>)
               else
                 let (ce, e1) = event_new L fd EV_CLOSED (ev p);
                     (se, e2) = event_new L fd EV_WRITE e1;
                     (re, e3) = event_new L fd EV_READ e2;
                     (r, e4) = event_add L ce e3;
                     e5 = (if r < 0 then event_free L ce e4 else e4);
                     c = junk\<lparr>t_fd := fd, closeEvent := ce, sendEvent := se, receiveEvent := re, errorEvent := None,
                           t_closed := lc_closed lctx, t_connectionError := lc_connectionError lctx\<rparr>
                 in ([CbConnectionReceived (lc_connectionReceived lctx) (lc_taps_ctx lctx) a],
                     set_tconn a c (p\<lparr>ev := e5\<rparr>))))"

text \<open>The rest of the handler, with what TAPS returned.\<close>

definition tcp_connection_received_end :: "addr \<Rightarrow> ctx \<Rightarrow> 'e tcp_state \<Rightarrow> 'e tcp_state" where
  "tcp_connection_received_end a taps_ctx p =
     (case deref (tconns p) a of
        Inl f \<Rightarrow> t_fault f p
      | Inr c \<Rightarrow>
          (case taps_ctx of
             Some t \<Rightarrow> set_tconn a (c\<lparr>t_taps_ctx := Some t\<rparr>) p
           | None \<Rightarrow> p\<lparr>closed_fds := closed_fds p @ [t_fd c],
                      tconns := (tconns p)(a := Some (Freed (c\<lparr>t_taps_ctx := None\<rparr>)))\<rparr>))"

section \<open>Entry points\<close>

text \<open>The results of the system calls of \<open>Listen\<close>.\<close>

record listen_results =
  res_malloc :: "addr option"
  res_socket :: int
  res_bind :: int
  res_listen :: int

text \<open>
  \<open>Listen\<close>. On failure the context is freed first and its descriptor and event are read
  after that.
\<close>

definition tcp_Listen ::
  "'e evlib \<Rightarrow> listen_results \<Rightarrow> ctx \<Rightarrow> fnptr \<Rightarrow> fnptr \<Rightarrow> fnptr \<Rightarrow> fnptr \<Rightarrow> 'e tcp_state \<Rightarrow>
    addr option \<times> 'e tcp_state" where
  "tcp_Listen L res taps_ctx connectionReceived establishmentError closed connectionError p =
     (case res_malloc res of
        None \<Rightarrow> (None, p)
      | Some a \<Rightarrow>
          let l = \<lparr>lc_event = None, lc_fd = res_socket res, lc_connectionReceived = connectionReceived,
                   lc_establishmentError = establishmentError, lc_closed = closed,
                   lc_connectionError = connectionError, lc_taps_ctx = taps_ctx\<rparr> in
          if res_socket res < 0 then
            (None, t_fault UseAfterFree (p\<lparr>tlisteners := (tlisteners p)(a := Some (Freed l))\<rparr>))
          else if res_bind res < 0 \<or> res_listen res < 0 then
            (None, (t_fault UseAfterFree (p\<lparr>tlisteners := (tlisteners p)(a := Some (Freed l))\<rparr>))
                     \<lparr>closed_fds := closed_fds p @ [res_socket res]\<rparr>)
          else
            let (e, e1) = event_new L (res_socket res) EV_READ_PERSIST (ev p);
                (_, e2) = event_add L e e1
            in (Some a, p\<lparr>ev := e2, tlisteners := hput (tlisteners p) a (l\<lparr>lc_event := e\<rparr>)\<rparr>))"

text \<open>\<open>Stop\<close>: the context is freed and then read for the argument of the callback.\<close>

definition tcp_Stop ::
  "'e evlib \<Rightarrow> addr option \<Rightarrow> fnptr \<Rightarrow> 'e tcp_state \<Rightarrow> tcp_callback list \<times> 'e tcp_state" where
  "tcp_Stop L proto_ctx cb p =
     (case deref_opt (tlisteners p) proto_ctx of
        Inl f \<Rightarrow> ([], t_fault f p)
      | Inr (a, l) \<Rightarrow>
          ([CbStopped cb (lc_taps_ctx l)],
           t_fault UseAfterFree
             (p\<lparr>ev := event_free L (lc_event l) (event_del L (lc_event l) (ev p)),
                closed_fds := closed_fds p @ [lc_fd l],
                tlisteners := (tlisteners p)(a := Some (Freed l))\<rparr>)))"

text \<open>\<open>Send\<close> with the result of \<open>writev\<close>.\<close>

definition tcp_Send ::
  "'e evlib \<Rightarrow> int \<Rightarrow> addr option \<Rightarrow> addr \<Rightarrow> iovec list \<Rightarrow> int \<Rightarrow> fnptr \<Rightarrow> fnptr \<Rightarrow> fnptr \<Rightarrow>
    'e tcp_state \<Rightarrow> int \<times> 'e tcp_state" where
  "tcp_Send L retval proto_ctx taps_ctx message cnt sent expired sendError p =
     (case deref_opt (tconns p) proto_ctx of
        Inl f \<Rightarrow> (- 1, t_fault f p)
      | Inr (a, c) \<Rightarrow>
          let c1 = (if t_sent c = None then c\<lparr>t_sent := sent, t_expired := expired, t_sendError := sendError\<rparr> else c) in
          if event_pending L (sendEvent c1) (ev p) then (- 1, set_tconn a c1 p)
          else
            let p2 = set_tconn a (c1\<lparr>t_send_ctx := Some taps_ctx\<rparr>) p in
            if retval < 0 then (- 1, p2)
            else
              let p3 = p2\<lparr>written := written p2 @ [(a, taps_ctx, take (nat cnt) message, retval)]\<rparr>;
                  (r, e') = event_add L (sendEvent c1) (ev p3)
              in (if r < 0 then - 1 else retval, p3\<lparr>ev := e'\<rparr>))"

definition tcp_Receive ::
  "'e evlib \<Rightarrow> addr option \<Rightarrow> addr \<Rightarrow> addr option \<Rightarrow> iovec list \<Rightarrow> int \<Rightarrow> fnptr \<Rightarrow> fnptr \<Rightarrow> fnptr \<Rightarrow>
    'e tcp_state \<Rightarrow> int \<times> 'e tcp_state" where
  "tcp_Receive L proto_ctx taps_ctx own iov cnt received receivedPartial receiveError p =
     (case deref_opt (tconns p) proto_ctx of
        Inl f \<Rightarrow> (- 1, t_fault f p)
      | Inr (a, c) \<Rightarrow>
          let c1 = (if t_received c = None
                    then c\<lparr>t_received := received, t_receivedPartial := receivedPartial, t_receiveError := receiveError\<rparr>
                    else c) in
          if event_pending L (receiveEvent c1) (ev p) then (- 1, set_tconn a c1 p)
          else
            let p2 = set_tconn a (c1\<lparr>t_receive_ctx := Some taps_ctx, receive_buffer := (own, iov), t_iovcnt := cnt\<rparr>) p;
                (r, e') = event_add L (receiveEvent c1) (ev p2)
            in (if r < 0 then - 1 else 0, p2\<lparr>ev := e'\<rparr>))"

section \<open>The module behind the handles\<close>

text \<open>
  The functions of TAPS that are passed to the module, as function pointers, and the table of
  symbols \<open>dlsym\<close> finds in it. \<open>env\<close> supplies the results of the system calls as functions
  of the module's state, that of \<open>writev\<close> also of the scatter list; the listener \<open>taps_ctx\<close> is the one that loaded the module.
\<close>

abbreviation fn_connection_received :: nat where "fn_connection_received \<equiv> 101"
abbreviation fn_closed :: nat where "fn_closed \<equiv> 102"
abbreviation fn_connection_error :: nat where "fn_connection_error \<equiv> 103"
abbreviation fn_sent :: nat where "fn_sent \<equiv> 104"
abbreviation fn_expired :: nat where "fn_expired \<equiv> 105"
abbreviation fn_send_error :: nat where "fn_send_error \<equiv> 106"
abbreviation fn_received :: nat where "fn_received \<equiv> 107"
abbreviation fn_received_partial :: nat where "fn_received_partial \<equiv> 108"
abbreviation fn_receive_error :: nat where "fn_receive_error \<equiv> 109"
abbreviation fn_stopped :: nat where "fn_stopped \<equiv> 110"

record 'e tcp_env =
  env_listen :: "'e tcp_state \<Rightarrow> listen_results"
  env_writev :: "'e tcp_state \<Rightarrow> iovec list \<Rightarrow> int"

definition tcp_handles :: "'e evlib \<Rightarrow> 'e tcp_env \<Rightarrow> ctx \<Rightarrow> 'e tcp_state proto_handles" where
  "tcp_handles L env taps_ctx =
     \<lparr>h_listen = (\<lambda>sa p. tcp_Listen L (env_listen env p) taps_ctx (Some fn_connection_received) None
          (Some fn_closed) (Some fn_connection_error) p),
      h_stop = (\<lambda>pc p. let (cbs, p') = tcp_Stop L pc (Some fn_stopped) p in (cbs \<noteq> [], p')),
      h_send = (\<lambda>pc a vs n p. tcp_Send L (env_writev env p (take (nat n) vs)) pc a vs n
          (Some fn_sent) (Some fn_expired) (Some fn_send_error) p),
      h_receive = (\<lambda>pc a own vs n p. snd (tcp_Receive L pc a own vs n
          (Some fn_received) (Some fn_received_partial) (Some fn_receive_error) p))\<rparr>"

section \<open>Lemmas\<close>

lemma deref_opt_live [simp]: "h a = Some (Live n) \<Longrightarrow> deref_opt h (Some a) = Inr (a, n)"
  by (simp add: deref_opt_def)

lemma deref_opt_hput [simp]: "deref_opt (hput h a n) (Some a) = Inr (a, n)"
  by simp

lemma set_tconn_simps [simp]:
  "tconns (set_tconn a c p) = hput (tconns p) a c" "ev (set_tconn a c p) = ev p"
  "written (set_tconn a c p) = written p" "t_faults (set_tconn a c p) = t_faults p"
  "tlisteners (set_tconn a c p) = tlisteners p" "closed_fds (set_tconn a c p) = closed_fds p"
  by (simp_all add: set_tconn_def)

lemma t_fault_simps [simp]:
  "t_faults (t_fault f p) = t_faults p @ [f]" "tlisteners (t_fault f p) = tlisteners p"
  "tconns (t_fault f p) = tconns p" "closed_fds (t_fault f p) = closed_fds p" "written (t_fault f p) = written p"
  by (simp_all add: t_fault_def)

lemma libevent_add:
  assumes "libevent_ok L" "event_add L a e = (r, e')"
  shows "0 \<le> r \<longrightarrow> event_pending L a e'" "r < 0 \<or> b \<noteq> a \<longrightarrow> event_pending L b e' = event_pending L b e"
proof -
  note laws = assms(1) [unfolded libevent_ok_def]
  show "0 \<le> r \<longrightarrow> event_pending L a e'"
    using conjunct1 [OF laws] assms(2) by simp
  show "r < 0 \<or> b \<noteq> a \<longrightarrow> event_pending L b e' = event_pending L b e"
    using conjunct1 [OF conjunct2 [OF laws]] assms(2) by simp
qed

lemma libevent_fired:
  assumes "libevent_ok L"
  shows "\<not> event_pending L a (event_fired L a e)" "b \<noteq> a \<longrightarrow> event_pending L b (event_fired L a e) = event_pending L b e"
  using assms by (simp_all add: libevent_ok_def)

section \<open>TCP as a sending protocol\<close>

text \<open>
  A connection context \<open>a\<close> between two calls: its callbacks are not installed or are those of
  TAPS, and they are installed with an item while the send event is pending.
\<close>

definition tcp_conn_ok :: "'e evlib \<Rightarrow> tcp_conn_ctx \<Rightarrow> 'e \<Rightarrow> bool" where
  "tcp_conn_ok L c e \<longleftrightarrow> t_sent c \<in> {None, Some fn_sent} \<and>
     (event_pending L (sendEvent c) e \<longrightarrow> t_sent c = Some fn_sent \<and> t_send_ctx c \<noteq> None)"

text \<open>The environment of the theorem: libevent keeps its promises and no call fails.\<close>

definition tcp_env_ok :: "'e evlib \<Rightarrow> 'e tcp_env \<Rightarrow> bool" where
  "tcp_env_ok L env \<longleftrightarrow> libevent_ok L \<and> (\<forall>p vs. 0 \<le> env_writev env p vs) \<and> (\<forall>a e. 0 \<le> fst (event_add L a e))"

text \<open>Every \<open>writev\<close> writes all it is given.\<close>

definition whole_writes :: "'e tcp_env \<Rightarrow> bool" where
  "whole_writes env \<longleftrightarrow> (\<forall>p vs. env_writev env p vs = int (vec_total vs))"

definition tcp_ok :: "'e evlib \<Rightarrow> 'e tcp_env \<Rightarrow> addr \<Rightarrow> 'e tcp_state \<Rightarrow> bool" where
  "tcp_ok L env a p \<longleftrightarrow> tcp_env_ok L env \<and> (\<exists>c. tconns p a = Some (Live c) \<and> tcp_conn_ok L c (ev p))"

text \<open>The item whose send is under way: the send event is pending.\<close>

definition tcp_busy :: "'e evlib \<Rightarrow> addr \<Rightarrow> 'e tcp_state \<Rightarrow> ctx" where
  "tcp_busy L a p =
     (case tconns p a of
        Some (Live c) \<Rightarrow> (if event_pending L (sendEvent c) (ev p) then t_send_ctx c else None)
      | _ \<Rightarrow> None)"

definition tcp_wire :: "addr \<Rightarrow> 'e tcp_state \<Rightarrow> iovec list list" where
  "tcp_wire a p = map (\<lambda>(_, _, vs, _). vs) (filter (\<lambda>x. fst x = a) (written p))"

text \<open>The send event fires: the item \<open>_taps_sent\<close> is called with, if it is the one called.\<close>

definition tcp_fire :: "'e evlib \<Rightarrow> addr \<Rightarrow> 'e tcp_state \<Rightarrow> addr option \<times> 'e tcp_state" where
  "tcp_fire L a p =
     (case tcp_sent L (Some a) p of
        ([CbSent f s], p') \<Rightarrow> (if f = Some fn_sent then s else None, p')
      | (_, p') \<Rightarrow> (None, p'))"

lemma tcp_handles_send [simp]:
  "h_send (tcp_handles L env t) pc a vs n p =
     tcp_Send L (env_writev env p (take (nat n) vs)) pc a vs n (Some fn_sent) (Some fn_expired) (Some fn_send_error) p"
  by (simp add: tcp_handles_def)

lemma tcp_refuse:
  assumes "tcp_ok L env x p" "tcp_busy L x p = Some b"
    "tcp_Send L v (Some x) a vs n (Some fn_sent) (Some fn_expired) (Some fn_send_error) p = (r, p')"
  shows "r < 0 \<and> tcp_ok L env x p' \<and> tcp_busy L x p' = Some b \<and> tcp_wire x p' = tcp_wire x p"
  using assms
  by (auto simp: tcp_ok_def tcp_conn_ok_def tcp_busy_def tcp_Send_def tcp_wire_def split: if_splits)

lemma tcp_accept:
  assumes ok: "tcp_ok L env x p" and idle: "tcp_busy L x p = None" and v: "0 \<le> v"
    and s: "tcp_Send L v (Some x) a vs n (Some fn_sent) (Some fn_expired) (Some fn_send_error) p = (r, p')"
  shows "tcp_ok L env x p' \<and> tcp_busy L x p' = Some a \<and> tcp_wire x p' = tcp_wire x p @ [take (nat n) vs]"
proof -
  from ok obtain c where c: "tconns p x = Some (Live c)" "tcp_conn_ok L c (ev p)" and env: "tcp_env_ok L env"
    by (auto simp: tcp_ok_def)
  have np: "\<not> event_pending L (sendEvent c) (ev p)" using idle c by (auto simp: tcp_busy_def tcp_conn_ok_def)
  obtain r' e' where e: "event_add L (sendEvent c) (ev p) = (r', e')" by fastforce
  from env e have r': "0 \<le> r'" by (metis tcp_env_ok_def fst_conv)
  have pend: "event_pending L (sendEvent c) e'" using libevent_add(1) [OF _ e] env r' by (auto simp: tcp_env_ok_def)
  show ?thesis
  proof (cases "t_sent c")
    case None
    then show ?thesis using s c np e r' v pend env
      by (auto simp: tcp_Send_def tcp_ok_def tcp_conn_ok_def tcp_busy_def tcp_wire_def)
  next
    case (Some f)
    then show ?thesis using s c np e r' v pend env
      by (auto simp: tcp_Send_def tcp_ok_def tcp_conn_ok_def tcp_busy_def tcp_wire_def)
  qed
qed

lemma tcp_fire_busy:
  assumes "tcp_ok L env x p" "tcp_busy L x p = Some b"
  shows "\<exists>p'. tcp_fire L x p = (Some b, p') \<and> tcp_ok L env x p' \<and> tcp_busy L x p' = None \<and> tcp_wire x p' = tcp_wire x p"
  using assms libevent_fired(1) [of L]
  by (auto simp: tcp_ok_def tcp_conn_ok_def tcp_busy_def tcp_fire_def tcp_sent_def tcp_wire_def tcp_env_ok_def
      split: if_splits)

interpretation tcp: send_protocol "tcp_handles L env t" "Some x" "tcp_ok L env x" "tcp_busy L x" "tcp_wire x" "tcp_fire L x"
proof (unfold_locales, goal_cases)
  case (1 p b a vs n r p')
  then show ?case using tcp_refuse by (metis tcp_handles_send)
next
  case (2 p a vs n r p')
  moreover from 2(1) have "0 \<le> env_writev env p (take (nat n) vs)" by (simp add: tcp_ok_def tcp_env_ok_def)
  ultimately show ?case using tcp_accept by (metis tcp_handles_send)
next
  case (3 p b)
  then show ?case by (rule tcp_fire_busy)
qed

text \<open>A connection with nothing queued over an idle TCP context is a start state of the contract.\<close>

lemma tcp_start_ok:
  assumes "tcp_env_ok L env" "send_ok c [] (tw s)" "cheap (tw s) c = Some (Live cn)" "c_proto_ctx cn = Some x"
    "sendReady cn" "tconns (proto (tw s)) x = Some (Live cc)" "t_sent cc = None"
    "\<not> event_pending L (sendEvent cc) (ev (proto (tw s)))" "written (proto (tw s)) = []"
    "faults (tw s) = []" "tx_issued s = []"
  shows "tx_ok (Some x) (tcp_ok L env x) (tcp_busy L x) (tcp_wire x) c [] s"
  using assms by (auto simp: tx_ok_def tcp_ok_def tcp_conn_ok_def tcp_busy_def tcp_wire_def)

section \<open>A concrete event library\<close>

text \<open>Events are numbered by descriptor and kind; the state is the set of the pending ones.\<close>

definition set_events :: "addr option set evlib" where
  "set_events = \<lparr>
     event_new = (\<lambda>fd k e. (Some (4 * nat fd + (case k of EV_CLOSED \<Rightarrow> 0 | EV_WRITE \<Rightarrow> 1 | EV_READ \<Rightarrow> 2 | EV_READ_PERSIST \<Rightarrow> 3)), e)),
     event_add = (\<lambda>a e. (0, insert a e)), event_del = (\<lambda>a e. e - {a}), event_free = (\<lambda>a e. e - {a}),
     event_pending = (\<lambda>a e. a \<in> e), event_fired = (\<lambda>a e. e - {a})\<rparr>"

definition full_env :: "'e tcp_env" where
  "full_env = \<lparr>env_listen = (\<lambda>_. \<lparr>res_malloc = Some 9, res_socket = 3, res_bind = 0, res_listen = 0\<rparr>),
     env_writev = (\<lambda>_ vs. int (vec_total vs))\<rparr>"

lemma set_events_ok: "libevent_ok set_events"
  by (auto simp: libevent_ok_def set_events_def)

lemma full_env_ok: "tcp_env_ok set_events full_env"
  using set_events_ok by (simp add: tcp_env_ok_def set_events_def full_env_def)

lemma full_env_whole: "whole_writes full_env"
  by (simp add: whole_writes_def full_env_def)

definition zero_conn_ctx :: tcp_conn_ctx where
  "zero_conn_ctx = \<lparr>t_fd = 0, closeEvent = None, sendEvent = None, receiveEvent = None, errorEvent = None,
     t_closed = None, t_connectionError = None, t_sent = None, t_expired = None, t_sendError = None,
     t_received = None, t_receivedPartial = None, t_receiveError = None, t_taps_ctx = None,
     t_send_ctx = None, t_receive_ctx = None, receive_buffer = (None, []), t_iovcnt = 0\<rparr>"

definition demo_ctx :: tcp_conn_ctx where
  "demo_ctx = zero_conn_ctx\<lparr>t_fd := 5, closeEvent := Some 20, sendEvent := Some 21,
     receiveEvent := Some 22, t_closed := Some fn_closed, t_taps_ctx := Some 1\<rparr>"

definition demo_lctx :: tcp_listener_ctx where
  "demo_lctx = \<lparr>lc_event = Some 15, lc_fd = 3, lc_connectionReceived = Some fn_connection_received,
     lc_establishmentError = None, lc_closed = Some fn_closed, lc_connectionError = Some fn_connection_error,
     lc_taps_ctx = Some 80\<rparr>"

definition demo_tcp :: "addr option set tcp_state" where
  "demo_tcp = \<lparr>tconns = [50 \<mapsto> Live demo_ctx],
     tlisteners = [9 \<mapsto> Live demo_lctx], ev = {Some 20, Some 15}, closed_fds = [], written = [], t_faults = []\<rparr>"

definition tcp_world :: "addr option set tcp_state conn_world" where
  "tcp_world = \<lparr>lst = lst demo_world, proto = demo_tcp, trace = [], faults = [], cheap = cheap demo_world,
     sheap = Map.empty, rheap = Map.empty, vheap = Map.empty, msgs = msgs demo_world, freed_handles = []\<rparr>"

lemmas tcp_demo = demo_tcp_def demo_ctx_def demo_lctx_def zero_conn_ctx_def set_events_def full_env_def

section \<open>Properties\<close>


definition tcp_demo_start :: "addr option set tcp_state tx_state" where
  "tcp_demo_start = \<lparr>tw = tcp_world, tx_issued = []\<rparr>"

definition tcp_demo_sent :: "addr option set tcp_state tx_state" where
  "tcp_demo_sent = \<lparr>tw = snd (snd (tapsConnectionSend (tcp_handles set_events full_env (Some 80)) (Some 20) 1 2 None
      (Some all_callbacks) tcp_world)), tx_issued = [msg_pieces (demo_message 1000)]\<rparr>"

lemma tcp_demo_step:
  "tx_step (tcp_handles set_events full_env (Some 80)) (tcp_busy set_events 50) (tcp_fire set_events 50) 1
     tcp_demo_start tcp_demo_sent"
  using tx_send [of tcp_demo_start 20 2 "demo_message 1000" all_callbacks
      "tcp_handles set_events full_env (Some 80)" "tcp_busy set_events 50" "tcp_fire set_events 50" 1 None]
  by (simp add: tcp_demo_start_def tcp_demo_sent_def tcp_world_def demo_messages allocated_def send_callbacks_def
      all_callbacks_def)


text \<open>
  A short write loses data silently: what \<open>Send\<close> does after \<open>writev\<close> does not depend
  on how many bytes were written, not even when it was none, the rest of the message is kept
  nowhere, and the next send event reports the whole message as sent.
\<close>

theorem tcp_short_write_reported_sent:
  assumes "libevent_ok L" "tconns p x = Some (Live c)" "t_sent c \<in> {None, Some fn_sent}"
    "\<not> event_pending L (sendEvent c) (ev p)" "0 \<le> n" "0 \<le> fst (event_add L (sendEvent c) (ev p))"
  shows "\<exists>p'. tcp_Send L n (Some x) a vs cnt (Some fn_sent) (Some fn_expired) (Some fn_send_error) p = (n, p') \<and>
    written p' = written p @ [(x, a, take (nat cnt) vs, n)] \<and>
    fst (tcp_sent L (Some x) p') = [CbSent (Some fn_sent) (Some a)] \<and>
    fst (tcp_Send L m (Some x) b ws k (Some fn_sent) (Some fn_expired) (Some fn_send_error) p') = - 1"
proof -
  obtain r e' where e: "event_add L (sendEvent c) (ev p) = (r, e')" by fastforce
  with assms(6) have r: "0 \<le> r" by simp
  have "event_pending L (sendEvent c) e'" using libevent_add(1) [OF assms(1) e] r by simp
  then show ?thesis using assms(2-5) e r
    by (cases "t_sent c") (auto simp: tcp_Send_def tcp_sent_def Let_def)
qed

theorem tcp_short_write_reported_sent_witness:
  "\<exists>p'. tcp_Send set_events 3 (Some 50) 20 [\<lparr>iov_base = 1000, iov_len = 8\<rparr>] 1
      (Some fn_sent) (Some fn_expired) (Some fn_send_error) demo_tcp = (3, p') \<and>
    written p' = written demo_tcp @ [(50, 20, take (nat 1) [\<lparr>iov_base = 1000, iov_len = 8\<rparr>], 3)] \<and>
    fst (tcp_sent set_events (Some 50) p') = [CbSent (Some fn_sent) (Some 20)] \<and>
    fst (tcp_Send set_events 8 (Some 50) 21 [] 0 (Some fn_sent) (Some fn_expired) (Some fn_send_error) p') = - 1"
  by (rule tcp_short_write_reported_sent [OF set_events_ok, where c = demo_ctx]) (simp_all add: tcp_demo)



text \<open>
  The callbacks of a connection depend on what \<open>malloc\<close> left in the context: when a new
  connection's block does not happen to hold a null pointer there, \<open>Send\<close> never installs the
  callback of TAPS, and the send event calls the leftover pointer.
\<close>

theorem tcp_uninitialised_callback:
  assumes "tlisteners p la = Some (Live lc)" "0 \<le> fd" "t_sent junk = Some g"
    "tcp_connection_received L (Some (x, junk)) fd (Some la) p = (cbs, p1)"
    "tcp_Send L n (Some x) a vs cnt (Some fn_sent) (Some fn_expired) (Some fn_send_error)
       (tcp_connection_received_end x (Some t) p1) = (r, p2)"
  shows "cbs = [CbConnectionReceived (lc_connectionReceived lc) (lc_taps_ctx lc) x] \<and>
    (\<exists>s. fst (tcp_sent L (Some x) p2) = [CbSent (Some g) s])"
  using assms
  by (auto simp: tcp_connection_received_def tcp_connection_received_end_def tcp_Send_def tcp_sent_def Let_def
      split: prod.splits if_splits)

theorem tcp_uninitialised_callback_witness:
  "let (cbs, p1) = tcp_connection_received set_events (Some (51, zero_conn_ctx\<lparr>t_sent := Some 13\<rparr>)) 6 (Some 9) demo_tcp;
       (r, p2) = tcp_Send set_events 8 (Some 51) 20 [] 0 (Some fn_sent) (Some fn_expired) (Some fn_send_error)
         (tcp_connection_received_end 51 (Some 2) p1)
   in \<exists>s. fst (tcp_sent set_events (Some 51) p2) = [CbSent (Some 13) s]"
proof -
  obtain cbs p1 where a: "tcp_connection_received set_events (Some (51, zero_conn_ctx\<lparr>t_sent := Some 13\<rparr>)) 6 (Some 9) demo_tcp = (cbs, p1)"
    by fastforce
  obtain r p2 where b: "tcp_Send set_events 8 (Some 51) 20 [] 0 (Some fn_sent) (Some fn_expired) (Some fn_send_error)
         (tcp_connection_received_end 51 (Some 2) p1) = (r, p2)" by fastforce
  have "\<exists>lc. tlisteners demo_tcp 9 = Some (Live lc)" by (simp add: demo_tcp_def)
  then obtain lc where "tlisteners demo_tcp 9 = Some (Live lc)" by blast
  from tcp_uninitialised_callback [OF this _ _ a b, of 13] show ?thesis using a b by (simp add: zero_conn_ctx_def)
qed

text \<open>
  \<open>Listen\<close> and \<open>Stop\<close> touch freed memory: every failure of \<open>Listen\<close> after its
  allocation reads the context it has just freed (and returns \<open>NULL\<close> with the descriptor closed
  if there is one), and every \<open>Stop\<close> reads the freed context for the argument of the callback.
  A successful \<open>Listen\<close> is free of faults and leaves the context \<open>Stop\<close> needs.
\<close>

theorem tcp_listen_stop_faults:
  assumes "res_malloc res = Some a"
    "tcp_Listen L res l (Some fn_connection_received) None (Some fn_closed) (Some fn_connection_error) p = (r, p1)"
  shows "if res_socket res < 0 \<or> res_bind res < 0 \<or> res_listen res < 0
    then r = None \<and> t_faults p1 = t_faults p @ [UseAfterFree] \<and>
      closed_fds p1 = closed_fds p @ (if res_socket res < 0 then [] else [res_socket res])
    else r = Some a \<and> t_faults p1 = t_faults p \<and>
      fst (h_stop (tcp_handles L env l) (Some a) p1) \<and>
      t_faults (snd (h_stop (tcp_handles L env l) (Some a) p1)) = t_faults p @ [UseAfterFree] \<and>
      closed_fds (snd (h_stop (tcp_handles L env l) (Some a) p1)) = closed_fds p @ [res_socket res]"
proof (cases "res_socket res < 0 \<or> res_bind res < 0 \<or> res_listen res < 0")
  case True
  then show ?thesis using assms by (auto simp: tcp_Listen_def Let_def split: if_splits)
next
  case False
  obtain e e1 where n: "event_new L (res_socket res) EV_READ_PERSIST (ev p) = (e, e1)" by fastforce
  obtain q e2 where ad: "event_add L e e1 = (q, e2)" by fastforce
  have "r = Some a \<and> t_faults p1 = t_faults p \<and> closed_fds p1 = closed_fds p \<and>
      (\<exists>lc. tlisteners p1 a = Some (Live lc) \<and> lc_fd lc = res_socket res)"
    using assms False n ad by (auto simp: tcp_Listen_def Let_def)
  then show ?thesis using False by (auto simp: tcp_handles_def tcp_Stop_def Let_def)
qed

theorem tcp_listen_stop_faults_witness:
  "t_faults (snd (tcp_Listen set_events \<lparr>res_malloc = Some 9, res_socket = 3, res_bind = - 1, res_listen = 0\<rparr> (Some 80)
      (Some fn_connection_received) None (Some fn_closed) (Some fn_connection_error) demo_tcp)) = [UseAfterFree]"
  using tcp_listen_stop_faults [OF _ surjective_pairing, of "\<lparr>res_malloc = Some 9, res_socket = 3, res_bind = - 1, res_listen = 0\<rparr>" 9
      set_events "Some 80" demo_tcp full_env]
  by (simp add: demo_tcp_def)

end
