(* ===== verification/Taps_Bits.thy ===== *)
theory Taps_Bits
  imports Taps_Prelude
begin

unbundle bit_operations_syntax

text \<open>
  Numbers split into digits of \<open>w\<close> bits, the reference for the bit-parallel arithmetic of
  \<open>numberOfSetBits\<close> (src/src/taps_preconnection.c): a digit list is masked, shifted and
  added digit by digit as long as no digit overflows its lane.
\<close>

section \<open>Lanes\<close>

definition lanes :: "nat \<Rightarrow> nat \<Rightarrow> (nat \<Rightarrow> nat) \<Rightarrow> nat" where
  "lanes w m f = (\<Sum>k<m. f k * 2 ^ (w * k))"

lemma lanes_0 [simp]: "lanes w 0 f = 0"
  by (simp add: lanes_def)

lemma lanes_Suc: "lanes w (Suc m) f = f 0 + 2 ^ w * lanes w m (\<lambda>k. f (Suc k))"
  unfolding lanes_def sum.lessThan_Suc_shift sum_distrib_left
  by (simp add: power_add ac_simps)

lemma lanes_add: "lanes w m f + lanes w m g = lanes w m (\<lambda>k. f k + g k)"
  by (simp add: lanes_def sum.distrib algebra_simps)

lemma lanes_cong: "(\<And>k. k < m \<Longrightarrow> f k = g k) \<Longrightarrow> lanes w m f = lanes w m g"
  by (simp add: lanes_def)

lemma lanes_diff:
  assumes "\<And>k. k < m \<Longrightarrow> g k \<le> f k"
  shows "lanes w m f - lanes w m g = lanes w m (\<lambda>k. f k - g k)"
proof -
  have "lanes w m f = lanes w m (\<lambda>k. f k - g k) + lanes w m g"
    unfolding lanes_add by (rule lanes_cong) (simp add: assms)
  then show ?thesis by simp
qed

lemma bit_cons_lane:
  assumes "x < 2 ^ w"
  shows "bit (x + 2 ^ w * y) n \<longleftrightarrow> (if n < w then bit x n else bit (y :: nat) (n - w))"
proof -
  have low: "take_bit w (x + 2 ^ w * y) = x" using assms by (simp add: take_bit_eq_mod)
  have high: "drop_bit w (x + 2 ^ w * y) = y" using assms by (simp add: drop_bit_eq_div)
  show ?thesis
  proof (cases "n < w")
    case True
    then have "bit (x + 2 ^ w * y) n = bit (take_bit w (x + 2 ^ w * y)) n"
      by (simp add: bit_take_bit_iff)
    with True show ?thesis unfolding low by simp
  next
    case False
    then have "bit (x + 2 ^ w * y) n = bit (drop_bit w (x + 2 ^ w * y)) (n - w)"
      by (simp add: bit_drop_bit_eq)
    with False show ?thesis unfolding high by simp
  qed
qed

text \<open>Bit \<open>n\<close> of the number is bit \<open>n mod w\<close> of digit \<open>n div w\<close>.\<close>

lemma bit_lanes:
  assumes "0 < w" "\<And>k. k < m \<Longrightarrow> f k < 2 ^ w"
  shows "bit (lanes w m f) n \<longleftrightarrow> n div w < m \<and> bit (f (n div w)) (n mod w)"
  using assms(2)
proof (induction m arbitrary: f n)
  case 0
  then show ?case by simp
next
  case (Suc m)
  have IH: "bit (lanes w m (\<lambda>k. f (Suc k))) j \<longleftrightarrow>
      j div w < m \<and> bit (f (Suc (j div w))) (j mod w)" for j
    by (rule Suc.IH) (simp add: Suc.prems)
  show ?case
  proof (cases "n < w")
    case True
    then show ?thesis using Suc.prems [of 0] by (simp add: lanes_Suc bit_cons_lane)
  next
    case False
    with \<open>0 < w\<close> have "n div w = Suc ((n - w) div w)" "n mod w = (n - w) mod w"
      by (simp_all add: le_div_geq le_mod_geq)
    with False show ?thesis using Suc.prems [of 0] by (simp add: lanes_Suc bit_cons_lane IH)
  qed
qed

text \<open>
  Shifting by \<open>s\<close> and masking every lane with \<open>v\<close> ones acts lane by lane, because the
  bits that arrive from the next lane are masked out.
\<close>

lemma lanes_drop_mask:
  assumes "0 < w" "s + v \<le> w" "\<And>k. k < m \<Longrightarrow> f k < 2 ^ w"
  shows "drop_bit s (lanes w m f) AND lanes w m (\<lambda>_. mask v) =
    lanes w m (\<lambda>k. take_bit v (drop_bit s (f k)))"
proof (rule bit_eqI)
  fix n
  have mask: "mask v < (2 :: nat) ^ w"
    using assms(2) by (simp add: mask_eq_exp_minus_1 less_imp_diff_less power_increasing
        order.strict_trans2 [OF _ power_increasing [of v w]])
  have small: "take_bit v (drop_bit s (f k)) < 2 ^ w" for k
    using assms(2) by (meson add_leD2 le_less_trans less_imp_le_nat power_increasing
        order_less_le_trans one_le_numeral take_bit_nat_less_exp)
  have shift: "(s + n) div w = n div w" "(s + n) mod w = s + n mod w" if "n mod w < v"
  proof -
    have "(x + q * w) div w = q" "(x + q * w) mod w = x" if "x < w" for x q
      using that assms(1) by simp_all
    from this [of "s + n mod w" "n div w"]
    show "(s + n) div w = n div w" "(s + n) mod w = s + n mod w"
      using that assms(2) by (simp_all add: add.assoc)
  qed
  show "bit (drop_bit s (lanes w m f) AND lanes w m (\<lambda>_. mask v)) n =
      bit (lanes w m (\<lambda>k. take_bit v (drop_bit s (f k)))) n"
    using assms(1,3) mask small shift
    by (auto simp: bit_and_iff bit_drop_bit_eq bit_lanes bit_mask_iff bit_take_bit_iff)
qed

text \<open>Two neighbouring lanes seen as one.\<close>

lemma lanes_pair: "lanes w (2 * m) f = lanes (2 * w) m (\<lambda>k. f (2 * k) + 2 ^ w * f (2 * k + 1))"
proof (induction m arbitrary: f)
  case 0
  then show ?case by simp
next
  case (Suc m)
  have "lanes w (2 * Suc m) f = f 0 + 2 ^ w * f 1 + 2 ^ (2 * w) * lanes w (2 * m) (\<lambda>k. f (Suc (Suc k)))"
    by (simp add: lanes_Suc algebra_simps mult_2_right power_add)
  then show ?case by (simp add: Suc.IH lanes_Suc)
qed

text \<open>A number below \<open>2 ^ (w * m)\<close> is the number its digits form.\<close>

lemma lanes_digits: "n < 2 ^ (w * m) \<Longrightarrow> lanes w m (\<lambda>k. n div 2 ^ (w * k) mod 2 ^ w) = n"
proof (induction m arbitrary: n)
  case 0
  then show ?case by simp
next
  case (Suc m)
  then have "n div 2 ^ w < 2 ^ (w * m)"
    by (simp add: less_mult_imp_div_less power_add mult.commute)
  from Suc.IH [OF this] show ?case
    by (simp add: lanes_Suc div_mult2_eq [symmetric] power_add)
qed

lemma lane_masks:
  "lanes 2 16 (\<lambda>_. mask 1) = 0x55555555" "lanes 4 8 (\<lambda>_. mask 2) = 0x33333333"
  "lanes 8 4 (\<lambda>_. mask 4) = 0x0f0f0f0f"
  using lanes_pair [of 2 8 "\<lambda>_. mask 1"] lanes_pair [of 4 4 "\<lambda>_. 5"] 
    lanes_pair [of 4 4 "\<lambda>_. 3"]
    lanes_pair [of 8 2 "\<lambda>_. 0x55"] lanes_pair [of 8 2 "\<lambda>_. 0x33"] lanes_pair [of 8 2 "\<lambda>_. 0xf"]
    lanes_pair [of 16 1 "\<lambda>_. 0x5555"] lanes_pair [of 16 1 "\<lambda>_. 0x3333"] lanes_pair [of 16 1 "\<lambda>_. 0xf0f"]
  by (simp_all add: mask_eq_exp_minus_1 lanes_Suc [of _ 0, simplified])

lemma lanes_less: "(\<And>k. k < m \<Longrightarrow> f k < 2 ^ w) \<Longrightarrow> lanes w m f < 2 ^ (w * m)"
proof (induction m arbitrary: f)
  case 0
  then show ?case by simp
next
  case (Suc m)
  have "lanes w m (\<lambda>k. f (Suc k)) < 2 ^ (w * m)" by (rule Suc.IH) (simp add: Suc.prems)
  then have "2 ^ w * Suc (lanes w m (\<lambda>k. f (Suc k))) \<le> 2 ^ w * 2 ^ (w * m)"
    by (simp only: mult_le_mono2 Suc_leI)
  with Suc.prems [of 0] show ?case by (simp add: lanes_Suc power_add)
qed
section \<open>Counting bits\<close>

lemma sum_pair: "(\<Sum>k<2 * m. f k) = (\<Sum>k<m. f (2 * k) + f (2 * k + 1 :: nat) :: nat)"
  by (induction m) simp_all

lemma card_bits_word: "card {k. bit (i :: 32 word) k} = (\<Sum>k<32. of_bool (bit (unat i) k))"
proof -
  have "{k. bit i k} = {..<32} \<inter> {k. bit (unat i) k}"
    using bit_imp_le_length [of i] by (auto simp: bit_unsigned_iff)
  then show ?thesis by simp
qed

lemma two_bit_digit:
  "x mod 4 - x mod 4 div 2 = of_bool (odd x) + of_bool (odd (x div 2 :: nat))"
proof -
  have "x mod 4 = 0 \<or> x mod 4 = 1 \<or> x mod 4 = 2 \<or> x mod 4 = 3" by presburger
  moreover have "odd x \<longleftrightarrow> odd (x mod 4)" "odd (x div 2) \<longleftrightarrow> odd (x mod 4 div 2)" by presburger+
  ultimately show ?thesis by auto
qed

lemma two_bit_count:
  "n div 4 ^ k mod 4 - n div 4 ^ k mod 4 div 2 =
    of_bool (bit n (2 * k)) + of_bool (bit (n :: nat) (2 * k + 1))"
proof -
  have "(2 :: nat) ^ (2 * k) = 4 ^ k" "(2 :: nat) ^ (2 * k + 1) = 4 ^ k * 2"
    by (simp_all add: power_mult)
  then have "bit n (2 * k) = odd (n div 4 ^ k)" "bit n (2 * k + 1) = odd (n div 4 ^ k div 2)"
    by (simp_all only: bit_nat_def div_mult2_eq)
  then show ?thesis by (simp only: two_bit_digit)
qed

section \<open>The four stages of the count\<close>

lemma lanes_snoc: "lanes w (Suc m) f = lanes w m f + f m * 2 ^ (w * m)"
  by (simp add: lanes_def)

lemma unat_add_lanes:
  fixes v w :: "32 word"
  assumes "unat v = lanes b m f" "unat w = lanes b m g" "b * m = 32" "\<And>k. k < m \<Longrightarrow> f k + g k < 2 ^ b"
  shows "unat (v + w) = lanes b m (\<lambda>k. f k + g k)"
proof -
  have "unat v + unat w < 2 ^ 32"
    using lanes_less [of m "\<lambda>k. f k + g k" b, OF assms(4)] assms(1-3) by (simp add: lanes_add)
  then show ?thesis using assms(1,2) by (simp add: unat_word_ariths lanes_add)
qed

lemma popcount_stage1:
  fixes i :: "32 word"
  shows "unat (i - (drop_bit 1 i AND 0x55555555)) =
    lanes 2 16 (\<lambda>k. of_bool (bit (unat i) (2 * k)) + of_bool (bit (unat i) (2 * k + 1)))"
proof -
  define d where "d k = unat i div 4 ^ k mod 4" for k
  have digit: "take_bit 1 (drop_bit 1 (d k)) = d k div 2" for k
    by (simp add: d_def drop_bit_eq_div take_bit_eq_mod less_mult_imp_div_less)
  have i: "unat i = lanes 2 16 d"
    using lanes_digits [of "unat i" 2 16] unsigned_less [of i, where 'a = nat]
    by (simp add: d_def [abs_def] power_mult)
  have half: "unat (drop_bit 1 i AND 0x55555555) = lanes 2 16 (\<lambda>k. d k div 2)"
    using lanes_drop_mask [of 2 1 1 16 d]
    by (simp only: unsigned_and_eq unat_drop_bit_eq lane_masks i digit) (simp add: d_def)
  have "drop_bit 1 i AND 0x55555555 \<le> i"
    unfolding word_le_nat_alt half i by (simp add: lanes_def sum_mono)
  then have "unat (i - (drop_bit 1 i AND 0x55555555)) = lanes 2 16 (\<lambda>k. d k - d k div 2)"
    by (simp only: unat_sub half i) (rule lanes_diff, simp)
  then show ?thesis by (simp only: d_def two_bit_count)
qed

lemma popcount_stage2:
  fixes w :: "32 word"
  assumes w: "unat w = lanes 2 16 e" and e: "\<And>k. e k \<le> 2"
  shows "unat ((w AND 0x33333333) + (drop_bit 2 w AND 0x33333333)) =
    lanes 4 8 (\<lambda>k. e (2 * k) + e (2 * k + 1))"
proof (rule unat_add_lanes)
  let ?p = "\<lambda>k. e (2 * k) + 4 * e (2 * k + 1)"
  have small: "e k < 4" "?p k < 16" for k using e [of k] e [of "2 * k"] e [of "2 * k + 1"] by simp_all
  have p: "unat w = lanes 4 8 ?p" using lanes_pair [of 2 8 e] by (simp add: w)
  show "unat (w AND 0x33333333) = lanes 4 8 (\<lambda>k. e (2 * k))"
    using lanes_drop_mask [of 4 0 2 8 ?p] small
    by (simp add: unsigned_and_eq p lane_masks take_bit_eq_mod)
  have high: "take_bit 2 (drop_bit 2 (?p k)) = e (2 * k + 1)" for k
    using small by (simp add: take_bit_eq_mod drop_bit_eq_div)
  show "unat (drop_bit 2 w AND 0x33333333) = lanes 4 8 (\<lambda>k. e (2 * k + 1))"
    using lanes_drop_mask [of 4 2 2 8 ?p] small
    by (simp only: unsigned_and_eq unat_drop_bit_eq p lane_masks high) simp
  show "e (2 * k) + e (2 * k + 1) < 2 ^ 4" for k using e [of "2 * k"] e [of "2 * k + 1"] by simp
qed simp

lemma popcount_stage3:
  fixes w :: "32 word"
  assumes w: "unat w = lanes 4 8 g" and g: "\<And>k. g k \<le> 4"
  shows "unat ((w + drop_bit 4 w) AND 0x0f0f0f0f) = lanes 8 4 (\<lambda>k. g (2 * k) + g (2 * k + 1))"
proof -
  let ?n = "\<lambda>k. if k < 7 then g (Suc k) else 0"
  define h where "h k = g k + ?n k" for k
  let ?p = "\<lambda>k. h (2 * k) + 2 ^ 4 * h (2 * k + 1)"
  have h: "h k < 2 ^ 4" for k using g [of k] g [of "Suc k"] by (simp add: h_def)
  have p: "?p k < 2 ^ 8" for k using h [of "2 * k"] h [of "2 * k + 1"] by simp
  have "drop_bit 4 (lanes 4 8 g) = lanes 4 7 (\<lambda>k. g (Suc k))"
    using g [of 0] lanes_Suc [of 4 7 g] by (simp add: drop_bit_eq_div)
  also have "\<dots> = lanes 4 8 ?n"
    by (simp add: lanes_snoc [of 4 7, simplified] cong: lanes_cong)
  finally have "unat (drop_bit 4 w) = lanes 4 8 ?n" by (simp add: unat_drop_bit_eq w)
  then have "unat (w + drop_bit 4 w) = lanes 4 8 h"
    using unat_add_lanes [OF w, of _ ?n] h unfolding h_def by simp
  then have sum: "unat (w + drop_bit 4 w) = lanes 8 4 ?p" using lanes_pair [of 4 4 h] by simp
  have "unat ((w + drop_bit 4 w) AND 0x0f0f0f0f) = lanes 8 4 (\<lambda>k. take_bit 4 (?p k))"
    using lanes_drop_mask [of 8 0 4 4 ?p, OF _ _ p] by (simp add: unsigned_and_eq sum lane_masks)
  also have "\<dots> = lanes 8 4 (\<lambda>k. h (2 * k))" using h by (simp add: take_bit_eq_mod)
  also have "\<dots> = lanes 8 4 (\<lambda>k. g (2 * k) + g (2 * k + 1))"
    by (rule lanes_cong) (simp add: h_def)
  finally show ?thesis .
qed

lemma popcount_stage4:
  fixes w :: "32 word"
  assumes w: "unat w = lanes 8 4 h" and h: "\<And>k. h k \<le> 8"
  shows "unat (drop_bit 24 (w * 0x01010101)) = (\<Sum>k<4. h k)"
proof -
  have eq: "lanes 8 4 h = h 0 + 256 * h 1 + 65536 * h 2 + 16777216 * h 3"
    using lanes_snoc [of 8 3 h] lanes_snoc [of 8 2 h] lanes_snoc [of 8 1 h] lanes_snoc [of 8 0 h]
    by (simp add: numeral_2_eq_2 [symmetric])
  have sum: "(\<Sum>k<4. h k) = h 0 + h 1 + h 2 + h 3"
    by (simp add: numeral_eq_Suc)
  have "unat (w * 0x01010101) = (unat w * 0x01010101) mod 2 ^ 32" by (simp add: unat_word_ariths)
  also have "unat w * 0x01010101 =
      (h 0 + 256 * (h 0 + h 1) + 65536 * (h 0 + h 1 + h 2)) +
      16777216 * (h 0 + h 1 + h 2 + h 3) + 2 ^ 32 * (h 1 + h 2 + h 3 + 256 * (h 2 + h 3) + 65536 * h 3)"
    by (simp add: w eq)
  also have "\<dots> mod 2 ^ 32 =
      (h 0 + 256 * (h 0 + h 1) + 65536 * (h 0 + h 1 + h 2)) + 16777216 * (h 0 + h 1 + h 2 + h 3)"
    using h [of 0] h [of 1] h [of 2] h [of 3]
    by (simp only: mod_mult_self2 add.assoc [symmetric]) (simp add: mod_less)
  finally show ?thesis
    using h [of 0] h [of 1] h [of 2]
    by (simp only: unat_drop_bit_eq sum) (simp only: drop_bit_eq_div; simp)
qed
end
