(* ===== verification/Taps_Properties.thy ===== *)
theory Taps_Properties
  imports Taps_Endpoint
begin

unbundle bit_operations_syntax

text \<open>
  Transport properties, src/src/taps_transport_properties.c, with the types of
  src/src/taps_internals.h and src/src/taps.h they use. The union \<open>transportAbilities\<close> is its
  16-bit mask; a bit-field of \<open>byName\<close> is the bit at the position the struct declares,
  least significant first. The list that \<open>getifaddrs\<close> returns is an argument of the function
  that calls it.
\<close>

section \<open>State\<close>

datatype tapsConnectionType = TAPS_LISTENER | TAPS_INITIATE | TAPS_RENDEZVOUS
datatype tapsPreference = TAPS_REQUIRE | TAPS_PREFER | TAPS_IGNORE | TAPS_AVOID | TAPS_PROHIBIT
datatype tapsMultipath = TAPS_MP_DISABLED | TAPS_MP_ACTIVE | TAPS_MP_PASSIVE
datatype tapsDirection = TAPS_BIDIR | TAPS_UNIDIR_SEND | TAPS_UNIDIR_RECV

text \<open>The enumeration values of \<open>tapsPreference\<close> as 32-bit integers.\<close>

fun preference_value :: "tapsPreference \<Rightarrow> 32 word" where
  "preference_value TAPS_REQUIRE = 2"
| "preference_value TAPS_PREFER = 1"
| "preference_value TAPS_IGNORE = 0"
| "preference_value TAPS_AVOID = - 1"
| "preference_value TAPS_PROHIBIT = - 2"

definition TAPS_NUM_ABILITIES :: nat where "TAPS_NUM_ABILITIES = 16"

definition tapsPropertyNames :: "string list" where
  "tapsPropertyNames =
     [''reliability'', ''preserveMsgBoundaries'', ''perMsgReliability'',
      ''preserveOrder'', ''zeroRttMsg'', ''multistreaming'',
      ''FullChecksumSend'', ''FullChecksumRecv'', ''congestionControl'',
      ''keepAlive'', ''useTemporaryLocalAddress'', ''multipath'',
      ''advertises_altaddr'', ''direction'', ''softErrorNotify'',
      ''activeReadBeforeSend'']"

text \<open>The bit-fields of \<open>tapsAbilitiesByName\<close>, in declaration order.\<close>

datatype ability =
    reliability | preserveMsgBoundaries | perMsgReliability | preserveOrder | zeroRttMsg
  | multistreaming | FullChecksumSend | FullChecksumRecv | congestionControl | keepAlive
  | useTemporaryLocalAddress | multipath | advertises_altaddr | direction | softErrorNotify
  | activeReadBeforeSend

fun field_bit :: "ability \<Rightarrow> nat" where
  "field_bit reliability = 0"
| "field_bit preserveMsgBoundaries = 1"
| "field_bit perMsgReliability = 2"
| "field_bit preserveOrder = 3"
| "field_bit zeroRttMsg = 4"
| "field_bit multistreaming = 5"
| "field_bit FullChecksumSend = 6"
| "field_bit FullChecksumRecv = 7"
| "field_bit congestionControl = 8"
| "field_bit keepAlive = 9"
| "field_bit useTemporaryLocalAddress = 10"
| "field_bit multipath = 11"
| "field_bit advertises_altaddr = 12"
| "field_bit direction = 13"
| "field_bit softErrorNotify = 14"
| "field_bit activeReadBeforeSend = 15"

definition set_field :: "ability \<Rightarrow> bool \<Rightarrow> uint16 \<Rightarrow> uint16" where
  "set_field f b w = (if b then Bit_Operations.set_bit (field_bit f) w else unset_bit (field_bit f) w)"

text \<open>
  One entry of the interface list: its name, the family of its address (\<open>None\<close> when
  \<open>ifa_addr\<close> is null) and the eight bytes of the pointer \<open>ifa_data\<close>.
\<close>

record ifaddrs =
  ifa_name :: string
  ifa_family :: "nat option"
  ifa_data :: "64 word"

record transportProperties =
  tp_require :: uint16
  tp_prefer :: uint16
  tp_avoid :: uint16
  tp_prohibit :: uint16
  explicitlySet :: uint16
  tp_multipath :: tapsMultipath
  tp_direction :: tapsDirection
  tp_advertises_altaddr :: bool
  interfaces :: "ifaddrs list"

section \<open>Operations\<close>

definition zero_properties :: transportProperties where
  "zero_properties =
     \<lparr>tp_require = 0, tp_prefer = 0, tp_avoid = 0, tp_prohibit = 0, explicitlySet = 0,
      tp_multipath = TAPS_MP_DISABLED, tp_direction = TAPS_BIDIR,
      tp_advertises_altaddr = False, interfaces = []\<rparr>"

definition default_properties :: "tapsConnectionType \<Rightarrow> transportProperties" where
  "default_properties type =
     (let tp = zero_properties
        \<lparr>tp_require := set_field congestionControl True (set_field FullChecksumRecv True
           (set_field FullChecksumSend True (set_field preserveOrder True
             (set_field reliability True 0)))),
         tp_prefer := set_field multistreaming True 0\<rparr>;
        tp1 = (case type of
            TAPS_LISTENER \<Rightarrow> tp
              \<lparr>tp_avoid := set_field useTemporaryLocalAddress True (tp_avoid tp),
               tp_multipath := TAPS_MP_PASSIVE,
               tp_prefer := set_field multipath True (tp_prefer tp)\<rparr>
          | TAPS_INITIATE \<Rightarrow> tp
              \<lparr>tp_prefer := set_field useTemporaryLocalAddress True (tp_prefer tp),
               tp_multipath := TAPS_MP_DISABLED\<rparr>
          | TAPS_RENDEZVOUS \<Rightarrow> tp
              \<lparr>tp_avoid := set_field useTemporaryLocalAddress True (tp_avoid tp),
               tp_multipath := TAPS_MP_DISABLED\<rparr>)
      in tp1\<lparr>tp_direction := TAPS_BIDIR\<rparr>)"

definition tapsTransportPropertiesNew ::
  "bool \<Rightarrow> tapsConnectionType \<Rightarrow> transportProperties option" where
  "tapsTransportPropertiesNew avail type = (if avail then Some (default_properties type) else None)"

definition tapsTransportPropertiesSetMultipath ::
  "tapsMultipath \<Rightarrow> transportProperties \<Rightarrow> transportProperties" where
  "tapsTransportPropertiesSetMultipath v tp = tp
     \<lparr>tp_multipath := v,
      tp_prefer := set_field multipath (v \<noteq> TAPS_MP_DISABLED) (tp_prefer tp),
      explicitlySet := set_field multipath True (explicitlySet tp)\<rparr>"

definition tapsTransportPropertiesSetDirection ::
  "tapsDirection \<Rightarrow> transportProperties \<Rightarrow> transportProperties" where
  "tapsTransportPropertiesSetDirection v tp = tp
     \<lparr>tp_direction := v,
      tp_prefer := set_field direction (v \<noteq> TAPS_BIDIR) (tp_prefer tp),
      explicitlySet := set_field direction True (explicitlySet tp)\<rparr>"

definition tapsTransportPropertiesSetAdvertises_altaddr ::
  "bool \<Rightarrow> transportProperties \<Rightarrow> transportProperties" where
  "tapsTransportPropertiesSetAdvertises_altaddr v tp = tp
     \<lparr>tp_advertises_altaddr := v,
      tp_prefer := set_field advertises_altaddr v (tp_prefer tp),
      explicitlySet := set_field advertises_altaddr True (explicitlySet tp)\<rparr>"

text \<open>
  The loop of \<open>tapsTransportPropertiesSetInterface\<close>. \<open>memcpy\<close> writes the four bytes of the
  enumeration over the low half of the pointer-sized field (little endian); an entry without an
  address faults, because the family is read through \<open>ifa_addr\<close>.
\<close>

definition store_preference :: "tapsPreference \<Rightarrow> 64 word \<Rightarrow> 64 word" where
  "store_preference p d = (d AND NOT (mask 32)) OR ucast (preference_value p)"

fun mark_interfaces ::
  "string \<Rightarrow> tapsPreference \<Rightarrow> ifaddrs list \<Rightarrow> fault + ifaddrs list" where
  "mark_interfaces name p [] = Inr []"
| "mark_interfaces name p (ifa # ifas) =
     (case ifa_family ifa of
        None \<Rightarrow> Inl NullDeref
      | Some fam \<Rightarrow>
          let ifa' = (if (fam \<noteq> AF_INET \<and> fam \<noteq> AF_INET6) \<or> ifa_name ifa \<noteq> name then ifa
                      else ifa\<lparr>ifa_data := store_preference p (ifa_data ifa)\<rparr>)
          in (case mark_interfaces name p ifas of
                Inl f \<Rightarrow> Inl f
              | Inr rest \<Rightarrow> Inr (ifa' # rest)))"

text \<open>
  \<open>sys\<close> is what \<open>getifaddrs\<close> delivers: \<open>None\<close> when it fails. An empty list is the null
  pointer, which means that no call has been made yet.
\<close>

definition tapsTransportPropertiesSetInterface ::
  "ifaddrs list option \<Rightarrow> string \<Rightarrow> tapsPreference \<Rightarrow> transportProperties \<Rightarrow>
    fault + int \<times> transportProperties" where
  "tapsTransportPropertiesSetInterface sys name p tp =
     (if interfaces tp = [] \<and> p = TAPS_IGNORE then Inr (1, tp)
      else if interfaces tp = [] \<and> sys = None then Inr (0, tp)
      else
        let ifs = (if interfaces tp = [] then the sys else interfaces tp) in
        (case mark_interfaces name p ifs of
           Inl f \<Rightarrow> Inl f
         | Inr ifs' \<Rightarrow> Inr (1, tp\<lparr>interfaces := ifs'\<rparr>)))"

text \<open>The name search that \<open>tapsTransportPropertiesSet\<close> and the YAML reader share.\<close>

fun name_index :: "string list \<Rightarrow> string \<Rightarrow> nat" where
  "name_index [] n = 0"
| "name_index (x # xs) n = (if n = x then 0 else Suc (name_index xs n))"

definition tapsTransportPropertiesSet ::
  "string \<Rightarrow> tapsPreference \<Rightarrow> transportProperties \<Rightarrow> transportProperties answer" where
  "tapsTransportPropertiesSet propertyName p tp =
     (let i = name_index tapsPropertyNames propertyName in
      if i = TAPS_NUM_ABILITIES then (0, Some EINVAL, tp)
      else
        let m = push_bit i 1;
            tp1 = tp\<lparr>tp_require := tp_require tp AND NOT m, tp_prefer := tp_prefer tp AND NOT m,
                     tp_avoid := tp_avoid tp AND NOT m, tp_prohibit := tp_prohibit tp AND NOT m,
                     explicitlySet := explicitlySet tp OR m\<rparr>
        in (1, None,
            case p of
              TAPS_REQUIRE \<Rightarrow> tp1\<lparr>tp_require := tp_require tp1 OR m\<rparr>
            | TAPS_PREFER \<Rightarrow> tp1\<lparr>tp_prefer := tp_prefer tp1 OR m\<rparr>
            | TAPS_AVOID \<Rightarrow> tp1\<lparr>tp_avoid := tp_avoid tp1 OR m\<rparr>
            | TAPS_PROHIBIT \<Rightarrow> tp1\<lparr>tp_prohibit := tp_prohibit tp1 OR m\<rparr>
            | TAPS_IGNORE \<Rightarrow> tp1))"

text \<open>\<open>tapsTransportPropertiesFree\<close>: whether the interface list is released before the object.\<close>

datatype tp_block = InterfaceList | Properties

definition tapsTransportPropertiesFree :: "transportProperties \<Rightarrow> tp_block list" where
  "tapsTransportPropertiesFree tp =
     (if interfaces tp \<noteq> [] then [InterfaceList] else []) @ [Properties]"

section \<open>Bits of the masks\<close>

lemma bit_set_mask [simp]:
  "bit (w OR 2 ^ i :: uint16) j \<longleftrightarrow> bit w j \<or> (j = i \<and> j < 16)"
  by (auto simp: bit_or_iff bit_exp_iff)

lemma bit_clear_mask [simp]:
  "bit (w AND NOT (2 ^ i) :: uint16) j \<longleftrightarrow> bit w j \<and> j \<noteq> i"
  by (auto simp: bit_and_iff bit_not_iff bit_exp_iff dest: bit_imp_le_length)

lemma bit_set_field [simp]:
  "bit (set_field f b w) j \<longleftrightarrow> (if j = field_bit f then b else bit w j)"
  by (cases f) (auto simp: set_field_def bit_set_bit_iff bit_unset_bit_iff dest: bit_imp_le_length)

lemma field_bit_less: "field_bit f < TAPS_NUM_ABILITIES"
  by (cases f) (simp_all add: TAPS_NUM_ABILITIES_def)

lemma name_index_le: "name_index xs n \<le> length xs"
  by (induction xs) auto

lemma name_index_nth: "name_index xs n < length xs \<Longrightarrow> xs ! name_index xs n = n"
  by (induction xs) (auto split: if_splits)

lemma name_index_found: "name_index xs n < length xs \<longleftrightarrow> n \<in> set xs"
  by (induction xs) auto

lemma name_index_distinct: "distinct xs \<Longrightarrow> i < length xs \<Longrightarrow> name_index xs (xs ! i) = i"
  by (induction xs arbitrary: i) (auto simp: nth_Cons split: nat.splits)

lemma length_property_names: "length tapsPropertyNames = TAPS_NUM_ABILITIES"
  by (simp add: tapsPropertyNames_def TAPS_NUM_ABILITIES_def)

lemma distinct_property_names: "distinct tapsPropertyNames"
  by (simp add: tapsPropertyNames_def)

lemma known_name: "name_index tapsPropertyNames n \<noteq> TAPS_NUM_ABILITIES \<longleftrightarrow> n \<in> set tapsPropertyNames"
  using name_index_found [of tapsPropertyNames n] name_index_le [of tapsPropertyNames n]
  by (auto simp: length_property_names)


section \<open>Preferences as a map\<close>

text \<open>
  The abstract view: every ability has one preference. The five masks represent it as long as
  no ability is in two of the four preference masks.
\<close>

definition pref_of :: "transportProperties \<Rightarrow> nat \<Rightarrow> tapsPreference" where
  "pref_of tp i =
     (if bit (tp_require tp) i then TAPS_REQUIRE
      else if bit (tp_prefer tp) i then TAPS_PREFER
      else if bit (tp_avoid tp) i then TAPS_AVOID
      else if bit (tp_prohibit tp) i then TAPS_PROHIBIT
      else TAPS_IGNORE)"

definition tp_disjoint :: "transportProperties \<Rightarrow> bool" where
  "tp_disjoint tp \<longleftrightarrow>
     tp_require tp AND tp_prefer tp = 0 \<and> tp_require tp AND tp_avoid tp = 0 \<and>
     tp_require tp AND tp_prohibit tp = 0 \<and> tp_prefer tp AND tp_avoid tp = 0 \<and>
     tp_prefer tp AND tp_prohibit tp = 0 \<and> tp_avoid tp AND tp_prohibit tp = 0"

lemma and_eq_0_bits: "a AND b = (0 :: uint16) \<longleftrightarrow> (\<forall>i. \<not> (bit a i \<and> bit b i))"
proof -
  have "bit a i \<Longrightarrow> i < 16" for i using bit_imp_le_length [of a i] by simp
  then show ?thesis by (auto simp: bit_eq_iff bit_and_iff)
qed

lemma tp_disjoint_bits:
  "tp_disjoint tp \<longleftrightarrow>
     (\<forall>i. \<not> (bit (tp_require tp) i \<and> bit (tp_prefer tp) i)) \<and>
     (\<forall>i. \<not> (bit (tp_require tp) i \<and> bit (tp_avoid tp) i)) \<and>
     (\<forall>i. \<not> (bit (tp_require tp) i \<and> bit (tp_prohibit tp) i)) \<and>
     (\<forall>i. \<not> (bit (tp_prefer tp) i \<and> bit (tp_avoid tp) i)) \<and>
     (\<forall>i. \<not> (bit (tp_prefer tp) i \<and> bit (tp_prohibit tp) i)) \<and>
     (\<forall>i. \<not> (bit (tp_avoid tp) i \<and> bit (tp_prohibit tp) i))"
  by (simp add: tp_disjoint_def and_eq_0_bits)

text \<open>A run of calls of \<open>tapsTransportPropertiesSet\<close>, known and unknown names mixed.\<close>

fun set_all :: "(string \<times> tapsPreference) list \<Rightarrow> transportProperties \<Rightarrow> transportProperties" where
  "set_all [] tp = tp"
| "set_all ((n, p) # cs) tp = set_all cs (snd (snd (tapsTransportPropertiesSet n p tp)))"

fun set_prefs :: "(string \<times> tapsPreference) list \<Rightarrow> (nat \<Rightarrow> tapsPreference) \<Rightarrow> nat \<Rightarrow> tapsPreference" where
  "set_prefs [] m = m"
| "set_prefs ((n, p) # cs) m =
     set_prefs cs (if n \<in> set tapsPropertyNames then m(name_index tapsPropertyNames n := p) else m)"

lemma set_unknown:
  "n \<notin> set tapsPropertyNames \<Longrightarrow> tapsTransportPropertiesSet n p tp = (0, Some EINVAL, tp)"
  using known_name [of n] by (simp add: tapsTransportPropertiesSet_def)

lemma known_index_less: "n \<in> set tapsPropertyNames \<Longrightarrow> name_index tapsPropertyNames n < 16"
  using name_index_found [of tapsPropertyNames n]
  by (simp add: length_property_names TAPS_NUM_ABILITIES_def)

lemma set_known:
  assumes "n \<in> set tapsPropertyNames"
  shows "\<exists>tp'. tapsTransportPropertiesSet n p tp = (1, None, tp') \<and>
    pref_of tp' = (pref_of tp)(name_index tapsPropertyNames n := p) \<and>
    (tp_disjoint tp \<longrightarrow> tp_disjoint tp') \<and>
    (\<forall>i. bit (explicitlySet tp') i \<longleftrightarrow> bit (explicitlySet tp) i \<or> i = name_index tapsPropertyNames n)"
  using assms known_name [of n] known_index_less [OF assms]
  by (cases p)
    (auto simp: tapsTransportPropertiesSet_def Let_def pref_of_def fun_eq_iff tp_disjoint_bits)

lemma set_pref_of:
  "pref_of (snd (snd (tapsTransportPropertiesSet n p tp))) =
     (if n \<in> set tapsPropertyNames then (pref_of tp)(name_index tapsPropertyNames n := p) else pref_of tp)"
  using set_known [of n p tp] set_unknown [of n p tp] by auto

lemma set_keeps_disjoint:
  "tp_disjoint tp \<Longrightarrow> tp_disjoint (snd (snd (tapsTransportPropertiesSet n p tp)))"
  using set_known [of n p tp] set_unknown [of n p tp] by (cases "n \<in> set tapsPropertyNames") auto

lemma default_disjoint: "tp_disjoint (default_properties type)"
  by (cases type) (auto simp: tp_disjoint_bits default_properties_def zero_properties_def Let_def)

lemma set_all_disjoint: "tp_disjoint tp \<Longrightarrow> tp_disjoint (set_all cs tp)"
  by (induction cs tp rule: set_all.induct) (auto intro: set_keeps_disjoint)

section \<open>Interfaces\<close>

definition ip_interface :: "string \<Rightarrow> ifaddrs \<Rightarrow> bool" where
  "ip_interface name ifa \<longleftrightarrow>
     (ifa_family ifa = Some AF_INET \<or> ifa_family ifa = Some AF_INET6) \<and> ifa_name ifa = name"

text \<open>The preference an entry stores: the low four bytes of \<open>ifa_data\<close>.\<close>

definition stored_preference :: "ifaddrs \<Rightarrow> 32 word" where
  "stored_preference ifa = ucast (ifa_data ifa)"

lemma ucast_store_preference [simp]: "ucast (store_preference p d) = preference_value p"
  by (rule bit_word_eqI)
    (auto simp: store_preference_def bit_ucast_iff bit_or_iff bit_and_iff bit_not_iff bit_mask_iff)

lemma mark_interfaces_ok:
  "(\<forall>ifa \<in> set ifs. ifa_family ifa \<noteq> None) \<Longrightarrow>
     mark_interfaces name p ifs =
       Inr (map (\<lambda>ifa. if ip_interface name ifa
         then ifa\<lparr>ifa_data := store_preference p (ifa_data ifa)\<rparr> else ifa) ifs)"
  by (induction ifs) (auto simp: ip_interface_def Let_def)

lemma mark_interfaces_fault:
  "mark_interfaces name p ifs = Inl f \<longleftrightarrow> f = NullDeref \<and> (\<exists>ifa \<in> set ifs. ifa_family ifa = None)"
  by (induction ifs) (auto simp: Let_def split: option.splits sum.splits)

section \<open>Properties\<close>



text \<open>
  Every call on a known name returns 1, gives that ability the requested preference, leaves
  the others alone and records it as explicitly set; a call on any other name returns 0 with
  \<open>EINVAL\<close> and changes nothing.
\<close>

theorem properties_set_behaviour:
  "if n \<in> set tapsPropertyNames
   then \<exists>tp'. tapsTransportPropertiesSet n p tp = (1, None, tp') \<and>
     pref_of tp' = (pref_of tp)(name_index tapsPropertyNames n := p) \<and>
     (\<forall>i. bit (explicitlySet tp') i = (bit (explicitlySet tp) i \<or> i = name_index tapsPropertyNames n))
   else tapsTransportPropertiesSet n p tp = (0, Some EINVAL, tp)"
  using set_known [of n p tp] set_unknown [of n p tp] by auto

text \<open>
  The two views of the ability union agree: setting the preference of an ability by its
  name in \<open>tapsPropertyNames\<close> changes exactly the bit-field of that ability.
\<close>

theorem property_name_is_field:
  "tapsTransportPropertiesSet (tapsPropertyNames ! field_bit f) TAPS_REQUIRE tp =
     (1, None, tp\<lparr>tp_require := set_field f True (tp_require tp),
        tp_prefer := set_field f False (tp_prefer tp), tp_avoid := set_field f False (tp_avoid tp),
        tp_prohibit := set_field f False (tp_prohibit tp),
        explicitlySet := set_field f True (explicitlySet tp)\<rparr>)"
proof -
  have i: "name_index tapsPropertyNames (tapsPropertyNames ! field_bit f) = field_bit f"
    using field_bit_less [of f]
    by (intro name_index_distinct [OF distinct_property_names]) (simp add: length_property_names)
  have 1: "w AND NOT (2 ^ field_bit f) = set_field f False w" for w
    by (rule bit_eqI) auto
  have 2: "w OR 2 ^ field_bit f = set_field f True w" for w
    using field_bit_less [of f] by (intro bit_eqI) (auto simp: TAPS_NUM_ABILITIES_def)
  have 3: "set_field f True (set_field f False w) = set_field f True w" for w
    by (rule bit_eqI) auto
  show ?thesis
    using field_bit_less [of f] by (simp add: tapsTransportPropertiesSet_def i 1 2 3 Let_def)
qed

text \<open>
  The dedicated setters do not clear the other masks: after multipath has been prohibited
  by name, \<open>tapsTransportPropertiesSetMultipath\<close> leaves the ability both preferred and
  prohibited, from any starting point.
\<close>

theorem set_multipath_overlaps:
  "\<not> tp_disjoint (tapsTransportPropertiesSetMultipath TAPS_MP_ACTIVE
       (snd (snd (tapsTransportPropertiesSet ''multipath'' TAPS_PROHIBIT tp))))"
proof -
  let ?tp = "snd (snd (tapsTransportPropertiesSet ''multipath'' TAPS_PROHIBIT tp))"
  have "name_index tapsPropertyNames ''multipath'' = field_bit multipath"
    by (simp add: tapsPropertyNames_def)
  then have "bit (tp_prohibit ?tp) (field_bit multipath)"
    using field_bit_less [of multipath]
    by (simp add: tapsTransportPropertiesSet_def Let_def TAPS_NUM_ABILITIES_def del: field_bit.simps)
  then show ?thesis
    by (auto simp: tapsTransportPropertiesSetMultipath_def tp_disjoint_bits)
qed

text \<open>
  \<open>tapsTransportPropertiesSetInterface\<close> on a list in which every entry has an address
  returns 1 and stores the preference in every IPv4 and IPv6 entry of that name, where it can
  be read back from the low four bytes; every other entry is unchanged. An entry without an
  address is a null dereference.
\<close>

theorem set_interface_marks:
  assumes "interfaces tp = [] \<Longrightarrow> p \<noteq> TAPS_IGNORE"
    and "ifs = (if interfaces tp = [] then sys else interfaces tp)"
  shows "if \<exists>ifa \<in> set ifs. ifa_family ifa = None
    then tapsTransportPropertiesSetInterface (Some sys) name p tp = Inl NullDeref
    else \<exists>ifs'. tapsTransportPropertiesSetInterface (Some sys) name p tp = Inr (1, tp\<lparr>interfaces := ifs'\<rparr>) \<and>
      length ifs' = length ifs \<and>
      (\<forall>i < length ifs.
         if ip_interface name (ifs ! i)
         then stored_preference (ifs' ! i) = preference_value p \<and> ifa_name (ifs' ! i) = name
         else ifs' ! i = ifs ! i)"
proof (cases "\<exists>ifa \<in> set ifs. ifa_family ifa = None")
  case True
  then have "mark_interfaces name p ifs = Inl NullDeref" by (simp add: mark_interfaces_fault)
  with True assms show ?thesis
    by (auto simp: tapsTransportPropertiesSetInterface_def Let_def)
next
  case False
  then have "\<forall>ifa \<in> set ifs. ifa_family ifa \<noteq> None" by auto
  from mark_interfaces_ok [OF this, of name p] assms
  have "tapsTransportPropertiesSetInterface (Some sys) name p tp = Inr (1, tp\<lparr>interfaces :=
      map (\<lambda>ifa. if ip_interface name ifa
        then ifa\<lparr>ifa_data := store_preference p (ifa_data ifa)\<rparr> else ifa) ifs\<rparr>)"
    by (auto simp: tapsTransportPropertiesSetInterface_def Let_def)
  with False show ?thesis by (auto simp: stored_preference_def ip_interface_def)
qed

theorem set_interface_marks_witness:
  "stored_preference (interfaces (snd (projr (tapsTransportPropertiesSetInterface
      (Some [\<lparr>ifa_name = ''lo'', ifa_family = Some AF_INET, ifa_data = 0\<rparr>]) ''lo'' TAPS_AVOID zero_properties))) ! 0)
   = - 1"
  using set_interface_marks [of zero_properties TAPS_AVOID
      "[\<lparr>ifa_name = ''lo'', ifa_family = Some AF_INET, ifa_data = 0\<rparr>]"
      "[\<lparr>ifa_name = ''lo'', ifa_family = Some AF_INET, ifa_data = 0\<rparr>]" "''lo''"]
  by (auto simp: zero_properties_def ip_interface_def)

end
