(* ===== verification/Taps_Cfg.thy ===== *)
theory Taps_Cfg
  imports Taps_Properties
begin

unbundle bit_operations_syntax

text \<open>
  Protocol discovery, src/src/taps_cfg.c. The event stream of libyaml is an argument: a list of
  events, each with a flag that says whether \<open>strdup\<close> of its scalar would succeed; running off
  the end of the list is a failing \<open>yaml_parser_parse\<close>. The caller's array of protocols is a
  list with whatever it contained before, so writing past it is visible. The clean-up loop after a
  parse failure has no bound, so a call that never returns is the value \<open>None\<close>.
\<close>

section \<open>State\<close>

record tapsProtocol =
  p_name :: "string option"
  p_protocol :: "string option"
  p_libpath :: "string option"
  p_properties :: uint16

definition zero_protocol :: tapsProtocol where
  "zero_protocol = \<lparr>p_name = None, p_protocol = None, p_libpath = None, p_properties = 0\<rparr>"

datatype yaml_level = NONE | STREAM | DOCUMENT | MAPPING | SEQUENCE

datatype yaml_event =
    YAML_STREAM_START_EVENT | YAML_STREAM_END_EVENT
  | YAML_DOCUMENT_START_EVENT | YAML_DOCUMENT_END_EVENT
  | YAML_MAPPING_START_EVENT | YAML_MAPPING_END_EVENT
  | YAML_SEQUENCE_START_EVENT | YAML_SEQUENCE_END_EVENT
  | YAML_SCALAR_EVENT string
  | YAML_OTHER_EVENT

text \<open>
  The local variables of \<open>tapsParseYaml\<close>; \<open>proto\<close> is the index of the slot being filled,
  which equals \<open>numProtos\<close> throughout.
\<close>

record yaml_state =
  eventLevel :: yaml_level
  key :: "string option"
  got_name :: bool
  got_path :: bool
  got_proto :: bool
  numProtos :: nat
  slots :: "tapsProtocol list"

text \<open>How one iteration of the loop ends: go on, leave through \<open>stop\<close> or \<open>out\<close>, jump to \<open>fail\<close>.\<close>

datatype yaml_outcome =
    Continue yaml_state
  | Leave yaml_state
  | Fail yaml_state
  | Fault fault

section \<open>One event\<close>

text \<open>\<open>STATE_MUST_BE\<close>.\<close>

definition must_be :: "yaml_level \<Rightarrow> yaml_state \<Rightarrow> yaml_outcome \<Rightarrow> yaml_outcome" where
  "must_be l s k = (if eventLevel s \<noteq> l then Fail s else k)"

text \<open>An assignment through \<open>proto\<close>.\<close>

definition upd_proto :: "(tapsProtocol \<Rightarrow> tapsProtocol) \<Rightarrow> yaml_state \<Rightarrow> yaml_state" where
  "upd_proto f s = s\<lparr>slots := (slots s)[numProtos s := f (slots s ! numProtos s)]\<rparr>"

definition with_proto :: "yaml_state \<Rightarrow> yaml_outcome \<Rightarrow> yaml_outcome" where
  "with_proto s k = (if numProtos s < length (slots s) then k else Fault OutOfBounds)"

definition yaml_scalar :: "string option \<Rightarrow> yaml_state \<Rightarrow> yaml_outcome" where
  "yaml_scalar field s =
     (case key s of
        None \<Rightarrow> Continue (s\<lparr>key := field\<rparr>)
      | Some k \<Rightarrow>
          if k = ''properties'' then
            (case field of
               None \<Rightarrow> Fault NullDeref
             | Some v \<Rightarrow>
                 let i = name_index tapsPropertyNames v in
                 if i = TAPS_NUM_ABILITIES then Continue s
                 else with_proto s (Continue (upd_proto
                   (\<lambda>p. p\<lparr>p_properties := p_properties p OR push_bit i 1\<rparr>) s)))
          else if k = ''name'' then
            with_proto s (Continue ((upd_proto (\<lambda>p. p\<lparr>p_name := field\<rparr>) s)\<lparr>got_name := True, key := None\<rparr>))
          else if k = ''protocol'' then
            with_proto s (Continue ((upd_proto (\<lambda>p. p\<lparr>p_protocol := field\<rparr>) s)\<lparr>got_proto := True, key := None\<rparr>))
          else if k = ''libpath'' then
            with_proto s (Continue ((upd_proto (\<lambda>p. p\<lparr>p_libpath := field\<rparr>) s)\<lparr>got_path := True, key := None\<rparr>))
          else Continue (s\<lparr>key := None\<rparr>))"

fun yaml_step :: "int \<Rightarrow> yaml_event \<Rightarrow> bool \<Rightarrow> yaml_state \<Rightarrow> yaml_outcome" where
  "yaml_step space YAML_STREAM_START_EVENT avail s =
     must_be NONE s (Continue (s\<lparr>eventLevel := STREAM\<rparr>))"
| "yaml_step space YAML_STREAM_END_EVENT avail s =
     must_be STREAM s (Leave (s\<lparr>eventLevel := NONE\<rparr>))"
| "yaml_step space YAML_DOCUMENT_START_EVENT avail s =
     must_be STREAM s (with_proto s (Continue
       ((upd_proto (\<lambda>_. zero_protocol) s)
          \<lparr>eventLevel := DOCUMENT, got_name := False, got_path := False, got_proto := False\<rparr>)))"
| "yaml_step space YAML_DOCUMENT_END_EVENT avail s =
     must_be DOCUMENT s
       (if \<not> got_name s \<or> \<not> got_path s \<or> \<not> got_proto s then Fail s
        else let s' = s\<lparr>eventLevel := STREAM, numProtos := Suc (numProtos s)\<rparr> in
          if int (numProtos s') = space then Leave s' else Continue s')"
| "yaml_step space YAML_MAPPING_START_EVENT avail s =
     must_be DOCUMENT s (Continue (s\<lparr>eventLevel := MAPPING\<rparr>))"
| "yaml_step space YAML_MAPPING_END_EVENT avail s =
     must_be MAPPING s (Continue (s\<lparr>eventLevel := DOCUMENT\<rparr>))"
| "yaml_step space YAML_SEQUENCE_START_EVENT avail s =
     must_be MAPPING s (Continue (s\<lparr>eventLevel := SEQUENCE\<rparr>))"
| "yaml_step space YAML_SEQUENCE_END_EVENT avail s =
     must_be SEQUENCE s (Continue (s\<lparr>eventLevel := MAPPING, key := None\<rparr>))"
| "yaml_step space (YAML_SCALAR_EVENT v) avail s = yaml_scalar (strdup avail v) s"
| "yaml_step space YAML_OTHER_EVENT avail s = Continue s"

section \<open>The parser\<close>

fun yaml_loop :: "int \<Rightarrow> (yaml_event \<times> bool) list \<Rightarrow> yaml_state \<Rightarrow> yaml_outcome" where
  "yaml_loop space [] s = Fail s"
| "yaml_loop space ((e, avail) # es) s =
     (case yaml_step space e avail s of
        Continue s' \<Rightarrow> yaml_loop space es s'
      | r \<Rightarrow> r)"

text \<open>
  The loop at the label \<open>fail\<close>: it tests \<open>toDelete <= proto\<close> and increments \<open>proto\<close>.
  \<open>toDelete\<close> never moves, so its body sees the first slot each time; the second time round
  the strings it frees have been freed already.
\<close>

partial_function (option) fail_loop ::
  "tapsProtocol \<Rightarrow> bool \<Rightarrow> nat \<Rightarrow> nat \<Rightarrow> (fault + unit) option" where
  "fail_loop p freed toDelete proto =
     (if toDelete \<le> proto then
        (if (p_protocol p \<noteq> None \<or> p_libpath p \<noteq> None) \<and> freed then Some (Inl DoubleFree)
         else fail_loop p True toDelete (Suc proto))
      else Some (Inr ()))"

text \<open>An opened file: whether \<open>yaml_parser_initialize\<close> succeeds on it, and its events.\<close>

type_synonym yaml_file = "bool \<times> (yaml_event \<times> bool) list"

definition yaml_init :: "tapsProtocol list \<Rightarrow> yaml_state" where
  "yaml_init arr =
     \<lparr>eventLevel = NONE, key = None, got_name = False, got_path = False, got_proto = False,
      numProtos = 0, slots = arr\<rparr>"

definition tapsParseYaml ::
  "yaml_file \<Rightarrow> tapsProtocol list \<Rightarrow> int \<Rightarrow> (fault + int \<times> tapsProtocol list) option" where
  "tapsParseYaml yaml arr space =
     (if \<not> fst yaml then Some (Inr (0, arr))
      else case yaml_loop space (snd yaml) (yaml_init arr) of
        Fault f \<Rightarrow> Some (Inl f)
      | Leave s \<Rightarrow> Some (Inr (int (numProtos s), slots s))
      | Continue s \<Rightarrow> None
      | Fail s \<Rightarrow>
          (if slots s = [] then Some (Inl OutOfBounds)
           else case fail_loop (slots s ! 0) False 0 (numProtos s) of
             None \<Rightarrow> None
           | Some (Inl f) \<Rightarrow> Some (Inl f)
           | Some (Inr _) \<Rightarrow> Some (Inr (0, slots s))))"

section \<open>The directory\<close>

text \<open>
  An entry of \<open>/etc/taps\<close>: its name and, unless \<open>fopen\<close> fails, the events of the file. The
  path buffer has 255 bytes, ten of them taken by the directory; the copy is bounded by the length
  of the name itself.
\<close>

type_synonym dir_entry = "string \<times> yaml_file option"

definition is_yaml_name :: "string \<Rightarrow> bool" where
  "is_yaml_name n \<longleftrightarrow> \<not> length n < 6 \<and> drop (length n - 4) n = ''yaml''"

fun scan_entries ::
  "dir_entry list \<Rightarrow> int \<Rightarrow> int \<Rightarrow> tapsProtocol list \<Rightarrow> (fault + int \<times> tapsProtocol list) option" where
  "scan_entries [] slotsRemaining n arr = Some (Inr (n, arr))"
| "scan_entries ((name, file) # entries) slotsRemaining n arr =
     (if \<not> is_yaml_name name then scan_entries entries slotsRemaining n arr
      else if 255 < 10 + length name + 1 then Some (Inl OutOfBounds)
      else case file of
        None \<Rightarrow> scan_entries entries slotsRemaining n arr
      | Some yaml \<Rightarrow>
          (case tapsParseYaml yaml (drop (nat n) arr) (slotsRemaining - n) of
             None \<Rightarrow> None
           | Some (Inl f) \<Rightarrow> Some (Inl f)
           | Some (Inr (n', part)) \<Rightarrow>
               let arr' = take (nat n) arr @ part in
               if n' = slotsRemaining then Some (Inr (n', arr'))
               else scan_entries entries slotsRemaining n' arr'))"

definition tapsUpdateProtocols ::
  "dir_entry list option \<Rightarrow> tapsProtocol list \<Rightarrow> int \<Rightarrow> (fault + int \<times> tapsProtocol list) option" where
  "tapsUpdateProtocols dir arr slotsRemaining =
     (case dir of None \<Rightarrow> Some (Inr (- 1, arr))
      | Some entries \<Rightarrow> scan_entries entries slotsRemaining 0 arr)"


section \<open>Files in the documented format\<close>

text \<open>
  A protocol description as docs/protocols.md and kernel.yaml present it, the events of a file
  that lists some of them, and the slot each should produce.
\<close>

record proto_desc =
  d_name :: string
  d_protocol :: string
  d_libpath :: string
  d_properties :: "string list"

definition doc_events :: "proto_desc \<Rightarrow> yaml_event list" where
  "doc_events d =
     [YAML_DOCUMENT_START_EVENT, YAML_MAPPING_START_EVENT,
      YAML_SCALAR_EVENT ''name'', YAML_SCALAR_EVENT (d_name d),
      YAML_SCALAR_EVENT ''protocol'', YAML_SCALAR_EVENT (d_protocol d),
      YAML_SCALAR_EVENT ''libpath'', YAML_SCALAR_EVENT (d_libpath d),
      YAML_SCALAR_EVENT ''properties'', YAML_SEQUENCE_START_EVENT] @
     map YAML_SCALAR_EVENT (d_properties d) @
     [YAML_SEQUENCE_END_EVENT, YAML_MAPPING_END_EVENT, YAML_DOCUMENT_END_EVENT]"

definition file_events :: "proto_desc list \<Rightarrow> yaml_event list" where
  "file_events ds = YAML_STREAM_START_EVENT # concat (map doc_events ds) @ [YAML_STREAM_END_EVENT]"

definition yaml_of :: "proto_desc list \<Rightarrow> yaml_file" where
  "yaml_of ds = (True, map (\<lambda>e. (e, True)) (file_events ds))"

fun props_mask :: "string list \<Rightarrow> uint16 \<Rightarrow> uint16" where
  "props_mask [] w = w"
| "props_mask (n # ns) w =
     props_mask ns (if n \<in> set tapsPropertyNames then w OR push_bit (name_index tapsPropertyNames n) 1 else w)"

definition slot_of :: "proto_desc \<Rightarrow> tapsProtocol" where
  "slot_of d = \<lparr>p_name = Some (d_name d), p_protocol = Some (d_protocol d),
     p_libpath = Some (d_libpath d), p_properties = props_mask (d_properties d) 0\<rparr>"

lemma bit_props_mask:
  "bit (props_mask ns w) i \<longleftrightarrow> bit w i \<or> i < 16 \<and> tapsPropertyNames ! i \<in> set ns"
proof (induction ns arbitrary: w)
  case Nil
  show ?case by simp
next
  case (Cons n ns)
  have "i < 16 \<Longrightarrow> i = name_index tapsPropertyNames n \<longleftrightarrow> tapsPropertyNames ! i = n"
    if "n \<in> set tapsPropertyNames"
    using that name_index_nth [of tapsPropertyNames n] name_index_found [of tapsPropertyNames n]
      name_index_distinct [OF distinct_property_names, of i]
    by (auto simp: length_property_names TAPS_NUM_ABILITIES_def)
  moreover have "i < 16 \<Longrightarrow> tapsPropertyNames ! i \<in> set tapsPropertyNames"
    by (simp add: length_property_names TAPS_NUM_ABILITIES_def)
  ultimately show ?case using Cons.IH by auto
qed

lemma upd_proto_fields [simp]:
  "eventLevel (upd_proto f s) = eventLevel s" "key (upd_proto f s) = key s"
  "numProtos (upd_proto f s) = numProtos s" "length (slots (upd_proto f s)) = length (slots s)"
  by (simp_all add: upd_proto_def)

lemma upd_proto_id: "upd_proto (\<lambda>p. p) s = s"
  by (simp add: upd_proto_def)

lemma upd_proto_upd: "numProtos s < length (slots s) \<Longrightarrow> upd_proto g (upd_proto f s) = upd_proto (\<lambda>p. g (f p)) s"
  by (simp add: upd_proto_def)

lemma yaml_loop_props:
  assumes "key s = Some ''properties''" "numProtos s < length (slots s)"
  shows "yaml_loop space (map (\<lambda>e. (e, True)) (map YAML_SCALAR_EVENT ns) @ es) s =
    yaml_loop space es (upd_proto (\<lambda>p. p\<lparr>p_properties := props_mask ns (p_properties p)\<rparr>) s)"
  using assms
proof (induction ns arbitrary: s)
  case Nil
  then show ?case by (simp add: upd_proto_id)
next
  case (Cons n ns)
  show ?case
  proof (cases "n \<in> set tapsPropertyNames")
    case True
    then show ?thesis
      using Cons known_name [of n]
      by (simp add: yaml_scalar_def strdup_def with_proto_def upd_proto_upd)
  next
    case False
    then show ?thesis
      using Cons known_name [of n] by (simp add: yaml_scalar_def strdup_def)
  qed
qed

lemma yaml_loop_doc:
  assumes "eventLevel s = STREAM" "key s = None" "numProtos s < length (slots s)"
    and "s' = s\<lparr>numProtos := Suc (numProtos s), slots := (slots s)[numProtos s := slot_of d],
          got_name := True, got_path := True, got_proto := True\<rparr>"
  shows "yaml_loop space (map (\<lambda>e. (e, True)) (doc_events d) @ es) s =
    (if int (numProtos s') = space then Leave s' else yaml_loop space es s')"
proof -
  have "yaml_loop space (map (\<lambda>e. (e, True)) (doc_events d) @ es) s =
      yaml_loop space (map (\<lambda>e. (e, True)) (map YAML_SCALAR_EVENT (d_properties d)) @
         map (\<lambda>e. (e, True)) [YAML_SEQUENCE_END_EVENT, YAML_MAPPING_END_EVENT, YAML_DOCUMENT_END_EVENT] @ es)
       (s\<lparr>eventLevel := SEQUENCE, key := Some ''properties'', got_name := True, got_path := True, got_proto := True,
          slots := (slots s)[numProtos s := \<lparr>p_name = Some (d_name d), p_protocol = Some (d_protocol d),
            p_libpath = Some (d_libpath d), p_properties = 0\<rparr>]\<rparr>)"
    using assms(1-3)
    by (cases s) (simp add: doc_events_def must_be_def with_proto_def yaml_scalar_def strdup_def upd_proto_def
        zero_protocol_def)
  also have "\<dots> = (if int (numProtos s') = space then Leave s' else yaml_loop space es s')"
    using assms
    by (cases s, subst yaml_loop_props) (simp_all add: must_be_def upd_proto_def slot_of_def)
  finally show ?thesis .
qed


lemma yaml_loop_docs:
  assumes "eventLevel s = STREAM" "key s = None" "int (numProtos s) < space"
    and "numProtos s + length ds \<le> length (slots s) \<or> space \<le> int (length (slots s))"
    and "k = min (length ds) (nat space - numProtos s)"
  shows "\<exists>s'. yaml_loop space (map (\<lambda>e. (e, True)) (concat (map doc_events ds) @ [YAML_STREAM_END_EVENT])) s = Leave s' \<and>
    numProtos s' = numProtos s + k \<and>
    slots s' = take (numProtos s) (slots s) @ map slot_of (take k ds) @ drop (numProtos s + k) (slots s)"
  using assms
proof (induction ds arbitrary: s k)
  case Nil
  then show ?case by (simp add: must_be_def)
next
  case (Cons d ds)
  let ?n = "numProtos s"
  let ?s = "s\<lparr>numProtos := Suc ?n, slots := (slots s)[?n := slot_of d],
          got_name := True, got_path := True, got_proto := True\<rparr>"
  have n: "?n < length (slots s)" using Cons.prems by auto
  have k: "k = Suc (min (length ds) (nat space - Suc ?n))" using Cons.prems(3,5) by auto
  let ?es = "map (\<lambda>e. (e, True)) (concat (map doc_events ds) @ [YAML_STREAM_END_EVENT])"
  have doc: "yaml_loop space (map (\<lambda>e. (e, True)) (concat (map doc_events (d # ds)) @ [YAML_STREAM_END_EVENT])) s =
      (if int (Suc ?n) = space then Leave ?s else yaml_loop space ?es ?s)"
    using yaml_loop_doc [OF Cons.prems(1,2) n refl, of space d ?es] by simp
  show ?case
  proof (cases "int (Suc ?n) = space")
    case True
    with k have "k = 1" by auto
    then show ?thesis using n by (simp only: doc True if_True) (simp add: upd_conv_take_nth_drop)
  next
    case False
    let ?k = "min (length ds) (nat space - Suc ?n)"
    have "\<exists>s'. yaml_loop space ?es ?s = Leave s' \<and> numProtos s' = numProtos ?s + ?k \<and>
      slots s' = take (numProtos ?s) (slots ?s) @ map slot_of (take ?k ds) @ drop (numProtos ?s + ?k) (slots ?s)"
      using Cons.prems False by (intro Cons.IH) auto
    then obtain s' where s': "yaml_loop space ?es ?s = Leave s'" "numProtos s' = Suc ?n + ?k"
      "slots s' = take (Suc ?n) ((slots s)[?n := slot_of d]) @ map slot_of (take ?k ds) @
        drop (Suc ?n + ?k) ((slots s)[?n := slot_of d])" by auto
    from s'(3) n k have "slots s' = take ?n (slots s) @ map slot_of (take k (d # ds)) @ drop (?n + k) (slots s)"
      by (simp add: take_nth_split)
    with s'(1,2) k False show ?thesis by (simp only: doc) simp
  qed
qed

lemma parse_yaml_of_docs:
  assumes "0 < space" "length ds \<le> length arr \<or> space \<le> int (length arr)"
    and "k = min (length ds) (nat space)"
  shows "tapsParseYaml (yaml_of ds) arr space = Some (Inr (int k, map slot_of (take k ds) @ drop k arr))"
proof -
  let ?s = "(yaml_init arr)\<lparr>eventLevel := STREAM\<rparr>"
  have "\<exists>s'. yaml_loop space (map (\<lambda>e. (e, True)) (concat (map doc_events ds) @ [YAML_STREAM_END_EVENT])) ?s = Leave s' \<and>
      numProtos s' = numProtos ?s + k \<and>
      slots s' = take (numProtos ?s) (slots ?s) @ map slot_of (take k ds) @ drop (numProtos ?s + k) (slots ?s)"
    using assms by (intro yaml_loop_docs) (auto simp: yaml_init_def)
  then show ?thesis
    by (auto simp: tapsParseYaml_def yaml_of_def file_events_def must_be_def yaml_init_def)
qed

text \<open>More documents than the array has entries, with an allowance that is larger than the array.\<close>

lemma yaml_loop_overrun:
  assumes "eventLevel s = STREAM" "key s = None" "numProtos s \<le> length (slots s)"
    "length (slots s) < numProtos s + length ds" "int (length (slots s)) < space"
  shows "yaml_loop space (map (\<lambda>e. (e, True)) (concat (map doc_events ds)) @ es) s = Fault OutOfBounds"
  using assms
proof (induction ds arbitrary: s)
  case Nil
  then show ?case by simp
next
  case (Cons d ds)
  show ?case
  proof (cases "numProtos s = length (slots s)")
    case True
    with Cons.prems(1) show ?thesis by (simp add: doc_events_def must_be_def with_proto_def)
  next
    case False
    let ?s = "s\<lparr>numProtos := Suc (numProtos s), slots := (slots s)[numProtos s := slot_of d],
          got_name := True, got_path := True, got_proto := True\<rparr>"
    have "yaml_loop space (map (\<lambda>e. (e, True)) (concat (map doc_events ds)) @ es) ?s = Fault OutOfBounds"
      by (rule Cons.IH) (use Cons.prems False in auto)
    moreover have "numProtos s < length (slots s)" using Cons.prems(3) False by simp
    ultimately show ?thesis
      using yaml_loop_doc [OF Cons.prems(1,2) _ refl, of space d "map (\<lambda>e. (e, True)) (concat (map doc_events ds)) @ es"] Cons.prems(5)
      by simp
  qed
qed

lemma parse_yaml_overrun:
  assumes "int (length arr) < space" "length arr < length ds"
  shows "tapsParseYaml (yaml_of ds) arr space = Some (Inl OutOfBounds)"
  using yaml_loop_overrun [of "(yaml_init arr)\<lparr>eventLevel := STREAM\<rparr>" ds space "[(YAML_STREAM_END_EVENT, True)]"] assms
  by (simp add: tapsParseYaml_def yaml_of_def file_events_def must_be_def yaml_init_def)

section \<open>The parser as a transition system\<close>

inductive yaml_trans :: "int \<Rightarrow> yaml_state \<Rightarrow> yaml_state \<Rightarrow> bool" for space where
  yaml_event: "yaml_step space e True s = Continue s' \<Longrightarrow> yaml_trans space s s'"

definition complete :: "tapsProtocol \<Rightarrow> bool" where
  "complete p \<longleftrightarrow> p_name p \<noteq> None \<and> p_protocol p \<noteq> None \<and> p_libpath p \<noteq> None"

text \<open>
  Every counted slot is complete; inside a document the flags tell which strings of the current
  slot are there; the count stays below the space.
\<close>

definition yaml_inv :: "int \<Rightarrow> yaml_state \<Rightarrow> bool" where
  "yaml_inv space s \<longleftrightarrow>
     (\<forall>i < numProtos s. i < length (slots s) \<and> complete (slots s ! i)) \<and> int (numProtos s) < space \<and>
     (eventLevel s \<in> {DOCUMENT, MAPPING, SEQUENCE} \<longrightarrow>
        numProtos s < length (slots s) \<and>
        (got_name s \<longrightarrow> p_name (slots s ! numProtos s) \<noteq> None) \<and>
        (got_proto s \<longrightarrow> p_protocol (slots s ! numProtos s) \<noteq> None) \<and>
        (got_path s \<longrightarrow> p_libpath (slots s ! numProtos s) \<noteq> None))"

lemmas yaml_step_defs = must_be_def with_proto_def upd_proto_def strdup_def Let_def

lemma yaml_inv_key: "yaml_inv space (s\<lparr>key := k\<rparr>) = yaml_inv space s"
  by (simp add: yaml_inv_def)

text \<open>Storing into the current slot keeps the invariant when no string is taken away.\<close>

lemma yaml_inv_upd:
  assumes "yaml_inv space s" "numProtos s < length (slots s)"
    and "\<And>p. p_name p \<noteq> None \<Longrightarrow> p_name (f p) \<noteq> None"
    and "\<And>p. p_protocol p \<noteq> None \<Longrightarrow> p_protocol (f p) \<noteq> None"
    and "\<And>p. p_libpath p \<noteq> None \<Longrightarrow> p_libpath (f p) \<noteq> None"
  shows "yaml_inv space (upd_proto f s)"
  using assms by (auto simp: yaml_inv_def upd_proto_def nth_list_update)

lemma yaml_inv_got:
  assumes "yaml_inv space s" "numProtos s < length (slots s)"
  shows "p_name (slots s ! numProtos s) \<noteq> None \<Longrightarrow> yaml_inv space (s\<lparr>got_name := True\<rparr>)"
    and "p_protocol (slots s ! numProtos s) \<noteq> None \<Longrightarrow> yaml_inv space (s\<lparr>got_proto := True\<rparr>)"
    and "p_libpath (slots s ! numProtos s) \<noteq> None \<Longrightarrow> yaml_inv space (s\<lparr>got_path := True\<rparr>)"
  using assms by (simp_all add: yaml_inv_def)

lemma with_proto_Continue:
  "with_proto s k = Continue s' \<longleftrightarrow> numProtos s < length (slots s) \<and> k = Continue s'"
  by (simp add: with_proto_def)

lemma upd_proto_current:
  "numProtos s < length (slots s) \<Longrightarrow>
     slots (upd_proto f s) ! numProtos s = f (slots s ! numProtos s)"
  by (simp add: upd_proto_def)

lemma yaml_inv_scalar:
  assumes inv: "yaml_inv space s" and step: "yaml_scalar (Some v) s = Continue s'"
  shows "yaml_inv space s'"
proof (cases "key s")
  case None
  with assms show ?thesis by (auto simp: yaml_scalar_def yaml_inv_key)
next
  case (Some k)
  consider "k = ''properties''" | "k = ''name''" | "k = ''protocol''" | "k = ''libpath''"
    | "k \<noteq> ''properties''" "k \<noteq> ''name''" "k \<noteq> ''protocol''" "k \<noteq> ''libpath''" by blast
  then show ?thesis
  proof cases
    case 1
    with Some step inv show ?thesis
      by (auto simp: yaml_scalar_def Let_def with_proto_Continue intro!: yaml_inv_upd split: if_splits)
  next
    case 2
    with Some step inv show ?thesis
      by (auto simp: yaml_scalar_def with_proto_Continue yaml_inv_key upd_proto_current
          intro!: yaml_inv_got yaml_inv_upd)
  next
    case 3
    with Some step inv show ?thesis
      by (auto simp: yaml_scalar_def with_proto_Continue yaml_inv_key upd_proto_current
          intro!: yaml_inv_got yaml_inv_upd)
  next
    case 4
    with Some step inv show ?thesis
      by (auto simp: yaml_scalar_def with_proto_Continue yaml_inv_key upd_proto_current
          intro!: yaml_inv_got yaml_inv_upd)
  next
    case 5
    with Some step inv show ?thesis by (auto simp: yaml_scalar_def yaml_inv_key)
  qed
qed

lemma yaml_inv_step:
  assumes "yaml_inv space s" "yaml_step space e True s = Continue s'"
  shows "yaml_inv space s'"
proof (cases e)
  case (YAML_SCALAR_EVENT v)
  with assms show ?thesis using yaml_inv_scalar by (simp add: strdup_def)
next
  case YAML_DOCUMENT_END_EVENT
  with assms show ?thesis
    by (auto simp: yaml_step_defs yaml_inv_def complete_def less_Suc_eq split: if_splits)
qed (use assms in \<open>auto simp: yaml_step_defs yaml_inv_def split: if_splits\<close>)

interpretation yaml: inv_system "\<lambda>s. 0 < space \<and> (\<exists>arr. s = yaml_init arr)" "yaml_trans space" "yaml_inv space"
proof (unfold_locales, goal_cases)
  case (1 s)
  then show ?case by (auto simp: yaml_init_def yaml_inv_def)
next
  case (2 s t)
  then show ?case by (auto elim!: yaml_trans.cases intro: yaml_inv_step)
qed

text \<open>A run of the loop that leaves does so from a reachable state.\<close>

lemma yaml_loop_Leave:
  assumes "yaml_loop space es s = Leave s'" "\<forall>x \<in> set es. snd x"
  shows "\<exists>t e. reaches (yaml_trans space) s t \<and> yaml_step space e True t = Leave s'"
  using assms
proof (induction es arbitrary: s)
  case Nil
  then show ?case by simp
next
  case (Cons x es)
  obtain e where x: "x = (e, True)" using Cons.prems(2) by (cases x) auto
  show ?case
  proof (cases "yaml_step space e True s")
    case (Continue t)
    with Cons.prems x have "yaml_loop space es t = Leave s'" "\<forall>x \<in> set es. snd x" by auto
    from Cons.IH [OF this] obtain u e' where
      "reaches (yaml_trans space) t u" "yaml_step space e' True u = Leave s'" by blast
    then show ?thesis
      using reaches_trans [OF _ reaches_single [of "yaml_trans space" s t]] yaml_event [OF Continue] by blast
  next
    case (Leave t)
    then show ?thesis using Cons.prems(1) x reaches_refl by fastforce
  qed (use Cons.prems(1) x in auto)
qed

lemma yaml_leave_complete:
  assumes "yaml_inv space t" "yaml_step space e True t = Leave s'"
  shows "int (numProtos s') \<le> space \<and> (\<forall>i < numProtos s'. i < length (slots s') \<and> complete (slots s' ! i))"
proof (cases e)
  case (YAML_SCALAR_EVENT v)
  with assms show ?thesis
    by (auto simp: yaml_scalar_def yaml_step_defs split: option.splits if_splits)
qed (use assms in \<open>auto simp: yaml_step_defs yaml_inv_def complete_def less_Suc_eq split: if_splits\<close>)

section \<open>The failure path\<close>

lemma fail_loop_strings:
  assumes "p_protocol p \<noteq> None \<or> p_libpath p \<noteq> None" "td \<le> pr"
  shows "fail_loop p False td pr = Some (Inl DoubleFree)"
  using assms by (subst fail_loop.simps, simp) (subst fail_loop.simps, simp)

lemma fail_loop_no_strings:
  assumes "p_protocol p = None" "p_libpath p = None" "td \<le> pr"
  shows "fail_loop p b td pr = None"
proof (rule ccontr)
  assume "fail_loop p b td pr \<noteq> None"
  then obtain r where ret: "fail_loop p b td pr = Some r" by auto
  have "p_protocol p = None \<longrightarrow> p_libpath p = None \<longrightarrow> td \<le> pr \<longrightarrow> False"
  proof (rule fail_loop.raw_induct
      [where P = "\<lambda>p b td pr r. p_protocol p = None \<longrightarrow> p_libpath p = None \<longrightarrow> td \<le> pr \<longrightarrow> False", OF _ ret])
    fix loop p b td pr r
    assume IH: "\<And>p b td pr r. loop p b td pr = Some r \<Longrightarrow>
        p_protocol p = None \<longrightarrow> p_libpath p = None \<longrightarrow> td \<le> pr \<longrightarrow> False"
      and eq: "(if td \<le> pr then if (p_protocol p \<noteq> None \<or> p_libpath p \<noteq> None) \<and> b
           then Some (Inl DoubleFree) else loop p True td (Suc pr) else Some (Inr ())) = Some r"
    show "p_protocol p = None \<longrightarrow> p_libpath p = None \<longrightarrow> td \<le> pr \<longrightarrow> False"
    proof (intro impI)
      assume "p_protocol p = None" "p_libpath p = None" "td \<le> pr"
      moreover from this eq have "loop p True td (Suc pr) = Some r" by simp
      ultimately show False using IH [of p True td "Suc pr" r] by simp
    qed
  qed
  with assms show False by simp
qed

lemma fail_loop_never_returns: "td \<le> pr \<Longrightarrow> fail_loop p False td pr \<noteq> Some (Inr u)"
  using fail_loop_strings [of p td pr] fail_loop_no_strings [of p td pr False]
  by (cases "p_protocol p = None \<and> p_libpath p = None") auto

section \<open>Properties\<close>

definition kernel_tcp :: proto_desc where
  "kernel_tcp = \<lparr>d_name = ''_kernel_TCP'', d_protocol = ''TCP'',
     d_libpath = ''/usr/lib/x86_64-linux-gnu/libtaps_tcp.so'',
     d_properties = [''reliability'', ''preserveOrder'', ''zeroRttMsg'', ''FullChecksumSend'',
       ''FullChecksumRecv'', ''activeReadBeforeSend'', ''congestionControl'', ''keepAlive'',
       ''activeReadBeforeSend'']\<rparr>"

definition kernel_udp :: proto_desc where
  "kernel_udp = \<lparr>d_name = ''_kernel_UDP'', d_protocol = ''UDP'',
     d_libpath = ''/usr/lib/x86_64-linux-gnu/libtaps_udp.so'',
     d_properties = [''preserveMsgBoundaries'', ''zeroRttMsg'', ''FullChecksumSend'',
       ''FullChecksumRecv'', ''activeReadBeforeSend'']\<rparr>"

text \<open>
  C12. Round trip: a file that lists protocols in the documented format is read back exactly.
  The parser returns as many protocols as the file lists, or as fit, fills that many slots in
  order with names, paths and the mask of the known property names, and leaves the others.
\<close>

theorem parse_yaml_round_trip:
  assumes "0 < space" "length ds \<le> length arr \<or> space \<le> int (length arr)"
    and "k = min (length ds) (nat space)"
  shows "tapsParseYaml (yaml_of ds) arr space = Some (Inr (int k, map slot_of (take k ds) @ drop k arr))"
  using assms by (rule parse_yaml_of_docs)

theorem parse_yaml_round_trip_witness:
  "tapsParseYaml (yaml_of [kernel_tcp, kernel_udp]) (replicate 3 zero_protocol) 3 =
     Some (Inr (2, [slot_of kernel_tcp, slot_of kernel_udp, zero_protocol]))"
  using parse_yaml_round_trip [of 3 "[kernel_tcp, kernel_udp]" "replicate 3 zero_protocol" 2]
  by (simp add: numeral_3_eq_3)

text \<open>
  C31. Whatever events libyaml delivers, if the parser returns normally it returns at most
  \<open>space\<close> and every slot it counted has a name, a protocol and a library path. Memory is
  assumed available for the scalars.
\<close>

theorem parse_yaml_complete:
  assumes "0 < space" "\<forall>x \<in> set (snd yaml). snd x"
    and "tapsParseYaml yaml arr space = Some (Inr (n, arr'))"
  shows "0 \<le> n \<and> n \<le> space \<and> (\<forall>i < nat n. i < length arr' \<and> complete (arr' ! i))"
proof (cases "fst yaml")
  case False
  with assms show ?thesis by (simp add: tapsParseYaml_def)
next
  case True
  then consider s where "yaml_loop space (snd yaml) (yaml_init arr) = Leave s" "n = int (numProtos s)" "arr' = slots s"
    using assms(3) fail_loop_never_returns
    by (auto simp: tapsParseYaml_def split: yaml_outcome.splits if_splits option.splits sum.splits)
  then show ?thesis
  proof cases
    case 1
    from yaml_loop_Leave [OF 1(1) assms(2)] obtain t e where
      t: "reaches (yaml_trans space) (yaml_init arr) t" "yaml_step space e True t = Leave s" by blast
    then have "yaml_inv space t" using yaml.inv_reachable [of space "yaml_init arr" t] assms(1) by blast
    from yaml_leave_complete [OF this t(2)] 1 show ?thesis by auto
  qed
qed

theorem parse_yaml_complete_witness:
  "\<exists>n arr'. tapsParseYaml (yaml_of [kernel_tcp]) [zero_protocol] 1 = Some (Inr (n, arr')) \<and>
     n \<le> 1 \<and> (\<forall>i < nat n. complete (arr' ! i))"
proof -
  have p: "tapsParseYaml (yaml_of [kernel_tcp]) [zero_protocol] 1 = Some (Inr (1, [slot_of kernel_tcp]))"
    by (simp add: tapsParseYaml_def yaml_of_def file_events_def doc_events_def kernel_tcp_def yaml_init_def
        must_be_def with_proto_def upd_proto_def yaml_scalar_def strdup_def zero_protocol_def slot_of_def
        tapsPropertyNames_def TAPS_NUM_ABILITIES_def)
  have "\<forall>x \<in> set (snd (yaml_of [kernel_tcp])). snd x" by (auto simp: yaml_of_def)
  with parse_yaml_complete [OF _ this p] p show ?thesis by auto
qed

text \<open>
  C39. The clean-up after a parse failure never completes: a call that reaches the label
  \<open>fail\<close> either frees the strings of the first slot twice or runs forever. No malformed file
  makes the parser return 0 as intended.
\<close>

theorem parse_yaml_failure_never_returns:
  assumes "yaml_loop space (snd yaml) (yaml_init arr) = Fail s" "fst yaml" "arr \<noteq> []" "slots s \<noteq> []"
  shows "tapsParseYaml yaml arr space =
    (if p_protocol (slots s ! 0) \<noteq> None \<or> p_libpath (slots s ! 0) \<noteq> None
     then Some (Inl DoubleFree) else None)"
  using assms fail_loop_strings [of "slots s ! 0" 0 "numProtos s"]
    fail_loop_no_strings [of "slots s ! 0" 0 "numProtos s" False]
  by (simp add: tapsParseYaml_def)

theorem parse_yaml_failure_never_returns_witness:
  "tapsParseYaml (True, [(YAML_STREAM_START_EVENT, True)]) [zero_protocol] 1 = None"
  using parse_yaml_failure_never_returns
    [of 1 "(True, [(YAML_STREAM_START_EVENT, True)])" "[zero_protocol]"
      "(yaml_init [zero_protocol])\<lparr>eventLevel := STREAM\<rparr>"]
  by (simp add: yaml_init_def must_be_def zero_protocol_def)

text \<open>
  With one file \<open>tapsUpdateProtocols\<close> returns what the file lists; a further file
  replaces the count instead of adding to it, so the protocols of the first are not counted.
\<close>

theorem update_protocols_last_file_counts:
  assumes "is_yaml_name f" "is_yaml_name g" "length f < 245" "length g < 245"
    and "0 < length as" "0 < length bs" "length as + length bs \<le> length arr"
    and "int (length as + length bs) < slots_left"
  shows "tapsUpdateProtocols (Some [(f, Some (yaml_of as))]) arr slots_left =
      Some (Inr (int (length as), map slot_of as @ drop (length as) arr)) \<and>
    tapsUpdateProtocols (Some [(f, Some (yaml_of as)), (g, Some (yaml_of bs))]) arr slots_left =
      Some (Inr (int (length bs), map slot_of as @ map slot_of bs @ drop (length as + length bs) arr))"
proof -
  have a: "tapsParseYaml (yaml_of as) arr slots_left = Some (Inr (int (length as), map slot_of as @ drop (length as) arr))"
    using assms parse_yaml_of_docs [of slots_left as arr "length as"] by simp
  have b: "tapsParseYaml (yaml_of bs) (drop (length as) arr) (slots_left - int (length as)) =
      Some (Inr (int (length bs), map slot_of bs @ drop (length as + length bs) arr))"
    using assms parse_yaml_of_docs [of "slots_left - int (length as)" bs "drop (length as) arr" "length bs"]
    by (simp add: add.commute le_diff_conv2)
  show ?thesis using assms a b by (simp add: tapsUpdateProtocols_def)
qed

theorem update_protocols_last_file_counts_witness:
  "tapsUpdateProtocols (Some [(''kernel.yaml'', Some (yaml_of [kernel_tcp, kernel_udp])),
      (''quic.yaml'', Some (yaml_of [kernel_udp]))]) (replicate 4 zero_protocol) 255 =
     Some (Inr (1, [slot_of kernel_tcp, slot_of kernel_udp, slot_of kernel_udp, zero_protocol]))"
  using update_protocols_last_file_counts
    [of "''kernel.yaml''" "''quic.yaml''" "[kernel_tcp, kernel_udp]" "[kernel_udp]" "replicate 4 zero_protocol" 255]
  by (simp add: is_yaml_name_def numeral_eq_Suc)

end
