(* ===== verification/Taps_Preconnection.thy ===== *)
theory Taps_Preconnection
  imports Taps_Bits Taps_Cfg Taps_Listener "HOL-Library.Multiset"
begin

text \<open>
  The Preconnection object, src/src/taps_preconnection.c: which of the protocols found on the
  platform are candidates, and how a listener is started from the first of them. The contents of
  the block that \<open>malloc\<close> returns are an argument, because the source clears only as many bytes
  of it as a pointer has; so is the uninitialised array on the stack. The directory of protocol
  descriptions is the argument of src/src/taps_cfg.c.
\<close>

section \<open>State\<close>

record tapsPreconnection =
  pc_local :: "addr list"
  numLocal :: int
  pc_remote :: "addr list"
  numRemote :: int
  pc_protocol :: "tapsProtocol list"
  numProtocols :: int
  pc_transport :: "transportProperties option"
  pc_security :: "addr option"

abbreviation TAPS_MAX_ENDPOINTS :: int where "TAPS_MAX_ENDPOINTS \<equiv> 8"
abbreviation TAPS_MAX_PROTOCOL_CANDIDATES :: int where "TAPS_MAX_PROTOCOL_CANDIDATES \<equiv> 256"
abbreviation MAX_NUM_PROTOCOLS :: int where "MAX_NUM_PROTOCOLS \<equiv> 256"

section \<open>Operations\<close>

definition numberOfSetBits :: "32 word \<Rightarrow> 32 word" where
  "numberOfSetBits i0 =
     (let i1 = i0 - (drop_bit 1 i0 AND 0x55555555);
          i2 = (i1 AND 0x33333333) + (drop_bit 2 i1 AND 0x33333333);
          i3 = (i2 + drop_bit 4 i2) AND 0x0f0f0f0f
      in drop_bit 24 (i3 * 0x01010101))"

text \<open>\<open>memcpy\<close> of \<open>n\<close> endpoint pointers to the start of an array of eight.\<close>

definition copy_endpoints :: "addr list \<Rightarrow> int \<Rightarrow> addr list \<Rightarrow> fault + addr list" where
  "copy_endpoints src n dst =
     (if n < 0 \<or> int (length src) < n \<or> int (length dst) < n then Inl OutOfBounds
      else Inr (take (nat n) src @ drop (nat n) dst))"

text \<open>
  \<open>memset(pc, 0, sizeof(pc))\<close>: as many bytes as a pointer has, that is the first local endpoint.
\<close>

definition clear_pointer :: "tapsPreconnection \<Rightarrow> tapsPreconnection" where
  "clear_pointer pc = pc\<lparr>pc_local := (pc_local pc)[0 := 0]\<rparr>"

text \<open>The condition of the loop that rejects a protocol for its properties.\<close>

definition unsuitable :: "transportProperties \<Rightarrow> tapsProtocol \<Rightarrow> bool" where
  "unsuitable tp p \<longleftrightarrow>
     p_properties p AND tp_prohibit tp \<noteq> 0 \<or> p_properties p AND tp_require tp \<noteq> tp_require tp"

text \<open>The loop over the protocols found: the candidates are stored, the others released.\<close>

fun choose_protocols ::
  "transportProperties \<Rightarrow> tapsProtocol list \<Rightarrow> tapsPreconnection \<Rightarrow> tapsProtocol list \<Rightarrow>
    fault + tapsPreconnection \<times> tapsProtocol list" where
  "choose_protocols tp [] pc freed = Inr (pc, freed)"
| "choose_protocols tp (p # ps) pc freed =
     (if unsuitable tp p \<or> numProtocols pc = TAPS_MAX_PROTOCOL_CANDIDATES
      then choose_protocols tp ps pc (freed @ [p])
      else if numProtocols pc < 0 \<or> int (length (pc_protocol pc)) \<le> numProtocols pc then Inl OutOfBounds
      else choose_protocols tp ps
        (pc\<lparr>pc_protocol := (pc_protocol pc)[nat (numProtocols pc) := p],
            numProtocols := numProtocols pc + 1\<rparr>) freed)"

text \<open>The loop of \<open>tapsPreconnectionFree\<close>: the protocols released, from the last to the first.\<close>

function free_protocols :: "tapsProtocol list \<Rightarrow> int \<Rightarrow> fault + tapsProtocol list" where
  "free_protocols ps n =
     (if n = 0 then Inr []
      else if n - 1 < 0 \<or> int (length ps) \<le> n - 1 then Inl OutOfBounds
      else andthen (free_protocols ps (n - 1)) (\<lambda>freed. Inr (ps ! nat (n - 1) # freed)))"
  by pat_completeness auto

termination
  by (relation "measure (\<lambda>(ps, n). nat n)") auto

declare free_protocols.simps [simp del]

definition tapsPreconnectionFree :: "tapsPreconnection option \<Rightarrow> fault + tapsProtocol list" where
  "tapsPreconnectionFree pc =
     (case pc of None \<Rightarrow> Inr [] | Some c \<Rightarrow> free_protocols (pc_protocol c) (numProtocols c))"

text \<open>
  \<open>tapsPreconnectionNew\<close>. \<open>block\<close> is what \<open>malloc\<close> returned, \<open>stack\<close> the local array
  of 255 entries. The result is the error number, the object or \<open>NULL\<close>, and the protocols
  released on the way; \<open>None\<close> means that reading the directory never returned.
\<close>

definition tapsPreconnectionNew ::
  "tapsPreconnection option \<Rightarrow> tapsProtocol list \<Rightarrow> dir_entry list option \<Rightarrow> addr list \<Rightarrow> int \<Rightarrow>
    addr list \<Rightarrow> int \<Rightarrow> transportProperties \<Rightarrow>
    (fault + errno option \<times> tapsPreconnection option \<times> tapsProtocol list) option" where
  "tapsPreconnectionNew block stack dir localEndpoint nLocal remoteEndpoint nRemote tp =
     (if TAPS_MAX_ENDPOINTS < nLocal \<or> TAPS_MAX_ENDPOINTS < nRemote then Some (Inr (Some E2BIG, None, []))
      else case block of
        None \<Rightarrow> Some (Inr (Some ENOMEM, None, []))
      | Some b \<Rightarrow>
          let pc = clear_pointer b in
          (case andthen (copy_endpoints localEndpoint nLocal (pc_local pc)) (\<lambda>ls.
                andthen (copy_endpoints remoteEndpoint nRemote (pc_remote pc)) (\<lambda>rs.
                  Inr (pc\<lparr>pc_local := ls, pc_remote := rs, numLocal := nLocal, numRemote := nRemote\<rparr>))) of
             Inl f \<Rightarrow> Some (Inl f)
           | Inr pc1 \<Rightarrow>
               (case tapsUpdateProtocols dir stack MAX_NUM_PROTOCOLS of
                  None \<Rightarrow> None
                | Some (Inl f) \<Rightarrow> Some (Inl f)
                | Some (Inr (n, protos)) \<Rightarrow>
                    if int (length protos) < n then Some (Inl OutOfBounds)
                    else Some (andthen (choose_protocols tp (take (nat n) protos) pc1 []) (\<lambda>(pc2, freed).
                      if numProtocols pc2 = 0 then
                        andthen (tapsPreconnectionFree (Some pc2)) (\<lambda>more_freed.
                          Inr (Some ENOPROTOOPT, None, freed @ more_freed))
                      else Inr (None, Some (pc2\<lparr>pc_transport := Some tp\<rparr>), freed))))))"

text \<open>\<open>htons\<close> on the little-endian hosts the library is built for.\<close>

definition htons :: "uint16 \<Rightarrow> uint16" where
  "htons x = push_bit 8 x OR drop_bit 8 x"

text \<open>
  \<open>tapsPreconnectionListen\<close>. \<open>eps\<close> holds the endpoints, \<open>open_lib\<close> what \<open>dlopen\<close>
  finds under a path, \<open>junk\<close> the uninitialised socket addresses on the stack. A failure before
  the listener is created has no listener and sets \<open>EINVAL\<close>.
\<close>

definition listen_address :: "sockaddr \<Rightarrow> sockaddr \<Rightarrow> tapsEndpoint \<Rightarrow> sockaddr option" where
  "listen_address junk junk6 ep =
     (let (r6, _, sin6) = tapsEndpointGetAddress ep (junk6\<lparr>sa_family := AF_INET6\<rparr>) in
      if r6 < 0 then
        let (r4, _, sin) = tapsEndpointGetAddress ep (junk\<lparr>sa_family := AF_INET\<rparr>) in
        if r4 < 0 then None
        else
          let sin' = sin\<lparr>sa_port := htons (sa_port sin)\<rparr> in
          if sa_port sin' = 0 then None else Some sin'
      else
        let sin6' = sin6\<lparr>sa_port := htons (sa_port sin6)\<rparr> in
        if sa_port sin6' = 0 then None else Some sin6')"

definition tapsPreconnectionListen ::
  "addr option \<Rightarrow> (string option \<Rightarrow> 'p dlib option) \<Rightarrow> bool \<Rightarrow> sockaddr \<Rightarrow> sockaddr \<Rightarrow> tapsEndpoint heap \<Rightarrow>
    tapsPreconnection option \<Rightarrow> ctx \<Rightarrow> bool \<Rightarrow> tapsCallbacks option \<Rightarrow> 'p \<Rightarrow> fault + 'p listener_result" where
  "tapsPreconnectionListen alloc open_lib new_base junk junk6 eps preconn app_ctx base callbacks p =
     (let einval = \<lparr>lr_errno = Some EINVAL, lr_listener = None, lr_proto = p, lr_cleanup = []\<rparr> in
      case (preconn, callbacks) of
        (Some pc, Some cb) \<Rightarrow>
          if numLocal pc < 1 \<or> cb_connectionReceived cb = None \<or> cb_establishmentError cb = None then Inr einval
          else if \<not> base then Inr einval
          else if pc_local pc = [] \<or> pc_protocol pc = [] then Inl OutOfBounds
          else
            andthen (deref eps (pc_local pc ! 0)) (\<lambda>ep.
              case listen_address junk junk6 ep of
                None \<Rightarrow> Inr einval
              | Some sa \<Rightarrow>
                  Inr (tapsListenerNew alloc (open_lib (p_libpath (pc_protocol pc ! 0))) base new_base app_ctx sa cb p))
      | _ \<Rightarrow> Inr einval)"

section \<open>Choosing candidates\<close>

text \<open>The candidates a loop that starts with \<open>k\<close> of them already stored adds.\<close>

definition suitable :: "transportProperties \<Rightarrow> nat \<Rightarrow> tapsProtocol list \<Rightarrow> tapsProtocol list" where
  "suitable tp k ps = take (256 - k) (filter (\<lambda>p. \<not> unsuitable tp p) ps)"

lemma suitable_simps:
  "suitable tp k [] = []"
  "unsuitable tp p \<or> k = 256 \<Longrightarrow> suitable tp k (p # ps) = suitable tp k ps"
  "\<not> unsuitable tp p \<Longrightarrow> k < 256 \<Longrightarrow> suitable tp k (p # ps) = p # suitable tp (Suc k) ps"
  by (auto simp: suitable_def take_Cons' simp flip: diff_Suc_eq_diff_pred)

lemma choose_protocols_ok:
  assumes "numProtocols pc = int k" "k \<le> 256" "length (pc_protocol pc) = 256"
  shows "\<exists>rest. choose_protocols tp ps pc freed =
      Inr (pc\<lparr>pc_protocol := take k (pc_protocol pc) @ suitable tp k ps @
                drop (k + length (suitable tp k ps)) (pc_protocol pc),
              numProtocols := int (k + length (suitable tp k ps))\<rparr>, freed @ rest) \<and>
    mset rest + mset (suitable tp k ps) = mset ps"
  using assms
proof (induction ps arbitrary: pc k freed)
  case Nil
  then show ?case by (cases pc) (simp add: suitable_simps)
next
  case (Cons p ps)
  show ?case
  proof (cases "unsuitable tp p \<or> k = 256")
    case True
    from Cons.IH [OF Cons.prems, of "freed @ [p]"] obtain rest where
      "choose_protocols tp ps pc (freed @ [p]) =
        Inr (pc\<lparr>pc_protocol := take k (pc_protocol pc) @ suitable tp k ps @
                  drop (k + length (suitable tp k ps)) (pc_protocol pc),
                numProtocols := int (k + length (suitable tp k ps))\<rparr>, (freed @ [p]) @ rest)"
      "mset rest + mset (suitable tp k ps) = mset ps" by blast
    moreover have "unsuitable tp p \<or> numProtocols pc = 256" using True Cons.prems by auto
    ultimately show ?thesis using True
      by (intro exI [of _ "p # rest"]) (simp add: suitable_simps(2))
  next
    case False
    then have k: "k < 256" "\<not> unsuitable tp p" using Cons.prems by auto
    let ?pc = "pc\<lparr>pc_protocol := (pc_protocol pc)[k := p], numProtocols := int (Suc k)\<rparr>"
    have "choose_protocols tp (p # ps) pc freed = choose_protocols tp ps ?pc freed"
      using Cons.prems k by (simp add: add.commute)
    moreover from Cons.IH [of ?pc "Suc k" freed] k Cons.prems obtain rest where
      "choose_protocols tp ps ?pc freed =
        Inr (?pc\<lparr>pc_protocol := take (Suc k) ((pc_protocol pc)[k := p]) @ suitable tp (Suc k) ps @
                  drop (Suc k + length (suitable tp (Suc k) ps)) ((pc_protocol pc)[k := p]),
                numProtocols := int (Suc k + length (suitable tp (Suc k) ps))\<rparr>, freed @ rest)"
      "mset rest + mset (suitable tp (Suc k) ps) = mset ps" by auto
    ultimately show ?thesis using k Cons.prems
      by (auto simp: suitable_simps(3) take_nth_split)
  qed
qed

lemma free_protocols_ok: "n \<le> length ps \<Longrightarrow> free_protocols ps (int n) = Inr (rev (take n ps))"
proof (induction n)
  case 0
  show ?case by (simp add: free_protocols.simps)
next
  case (Suc n)
  then have "free_protocols ps (int n) = Inr (rev (take n ps))" by simp
  with Suc.prems show ?case
    by (subst free_protocols.simps) (simp add: take_Suc_conv_app_nth)
qed

text \<open>A protocol is suitable when it offers all that is required and nothing that is prohibited.\<close>

lemma unsuitable_bits:
  "unsuitable tp p \<longleftrightarrow>
     (\<exists>i. bit (p_properties p) i \<and> bit (tp_prohibit tp) i) \<or>
     (\<exists>i. bit (tp_require tp) i \<and> \<not> bit (p_properties p) i)"
proof -
  have "p_properties p AND tp_require tp = tp_require tp \<longleftrightarrow>
      (\<forall>i. bit (tp_require tp) i \<longrightarrow> bit (p_properties p) i)"
    using bit_imp_le_length [of "tp_require tp"] by (auto simp: bit_eq_iff bit_and_iff)
  then show ?thesis unfolding unsuitable_def and_eq_0_bits by auto
qed

lemma suitable_pref:
  assumes "tp_disjoint tp"
  shows "\<not> unsuitable tp p \<longleftrightarrow>
    (\<forall>i. pref_of tp i = TAPS_REQUIRE \<longrightarrow> bit (p_properties p) i) \<and>
    (\<forall>i. pref_of tp i = TAPS_PROHIBIT \<longrightarrow> \<not> bit (p_properties p) i)"
  using assms unfolding tp_disjoint_bits unsuitable_bits pref_of_def
  by (auto split: if_splits)

section \<open>Counting preferred abilities\<close>

text \<open>
  C11. The bit-parallel count of the source equals the reference definition: for every one of the
  2^32 arguments \<open>numberOfSetBits\<close> returns the number of set bits. No stage overflows its
  lanes and the final multiplication wraps without disturbing the top byte.
\<close>

theorem numberOfSetBits_counts: "unat (numberOfSetBits i) = card {k. bit i k}"
proof -
  define e :: "nat \<Rightarrow> nat" where
    "e k = of_bool (bit (unat i) (2 * k)) + of_bool (bit (unat i) (2 * k + 1))" for k
  define g where "g k = e (2 * k) + e (2 * k + 1)" for k
  define h where "h k = g (2 * k) + g (2 * k + 1)" for k
  have e: "e k \<le> 2" for k by (simp add: e_def)
  have g: "g k \<le> 4" for k using e [of "2 * k"] e [of "2 * k + 1"] by (simp add: g_def)
  have h: "h k \<le> 8" for k using g [of "2 * k"] g [of "2 * k + 1"] by (simp add: h_def)
  note stage1 = popcount_stage1 [of i, folded e_def]
  note stage2 = popcount_stage2 [OF stage1 e, folded g_def]
  note stage3 = popcount_stage3 [OF stage2 g, folded h_def]
  note stage4 = popcount_stage4 [OF stage3 h]
  have "unat (numberOfSetBits i) = (\<Sum>k<4. h k)"
    unfolding numberOfSetBits_def Let_def by (rule stage4)
  also have "\<dots> = (\<Sum>k<8. g k)" using sum_pair [of g 4] by (simp add: h_def)
  also have "\<dots> = (\<Sum>k<16. e k)" using sum_pair [of e 8] by (simp add: g_def)
  also have "\<dots> = card {k. bit i k}"
    using sum_pair [of "\<lambda>k. of_bool (bit (unat i) k)" 16] by (simp add: e_def card_bits_word)
  finally show ?thesis .
qed

section \<open>Properties\<close>

text \<open>What the directory yields, as \<open>tapsPreconnectionNew\<close> sees it.\<close>

definition found :: "dir_entry list option \<Rightarrow> tapsProtocol list \<Rightarrow> tapsProtocol list \<Rightarrow> bool" where
  "found dir stack ps \<longleftrightarrow> (\<exists>n arr. tapsUpdateProtocols dir stack MAX_NUM_PROTOCOLS = Some (Inr (n, arr)) \<and>
     n \<le> int (length arr) \<and> ps = take (nat n) arr)"

lemma preconnection_new_unfold:
  assumes "found dir stack ps" "0 \<le> nl" "nl \<le> 8" "0 \<le> nr" "nr \<le> 8"
    "nl \<le> int (length ls)" "nr \<le> int (length rs)"
    "length (pc_local b) = 8" "length (pc_remote b) = 8" "length (pc_protocol b) = 256" "numProtocols b = 0"
  shows "\<exists>rest pc. tapsPreconnectionNew (Some b) stack dir ls nl rs nr tp =
      Some (Inr (if suitable tp 0 ps = [] then (Some ENOPROTOOPT, None, rest) else (None, Some pc, rest))) \<and>
    mset rest + mset (suitable tp 0 ps) = mset ps \<and>
    pc = b\<lparr>pc_local := take (nat nl) ls @ drop (nat nl) ((pc_local b)[0 := 0]),
      pc_remote := take (nat nr) rs @ drop (nat nr) (pc_remote b), numLocal := nl, numRemote := nr,
      pc_protocol := suitable tp 0 ps @ drop (length (suitable tp 0 ps)) (pc_protocol b),
      numProtocols := int (length (suitable tp 0 ps)), pc_transport := Some tp\<rparr>"
proof -
  obtain n arr where up: "tapsUpdateProtocols dir stack 256 = Some (Inr (n, arr))" "n \<le> int (length arr)"
    "ps = take (nat n) arr" using assms(1) by (auto simp: found_def)
  let ?b = "b\<lparr>pc_local := take (nat nl) ls @ drop (nat nl) ((pc_local b)[0 := 0]),
      pc_remote := take (nat nr) rs @ drop (nat nr) (pc_remote b), numLocal := nl, numRemote := nr\<rparr>"
  from choose_protocols_ok [of ?b 0 tp ps "[]"] assms(10,11) obtain rest where
    ch: "choose_protocols tp ps ?b [] =
      Inr (?b\<lparr>pc_protocol := suitable tp 0 ps @ drop (length (suitable tp 0 ps)) (pc_protocol b),
              numProtocols := int (length (suitable tp 0 ps))\<rparr>, rest)"
    and ms: "mset rest + mset (suitable tp 0 ps) = mset ps" by auto
  have cp: "copy_endpoints ls nl ((pc_local b)[0 := 0]) = Inr (take (nat nl) ls @ drop (nat nl) ((pc_local b)[0 := 0]))"
    "copy_endpoints rs nr (pc_remote b) = Inr (take (nat nr) rs @ drop (nat nr) (pc_remote b))"
    using assms by (simp_all add: copy_endpoints_def)
  show ?thesis using ms
    by (auto simp: tapsPreconnectionNew_def cp up(1,2) up(3) [symmetric] ch assms(3,5) not_less
        clear_pointer_def tapsPreconnectionFree_def free_protocols.simps intro!: exI [of _ rest])
qed


definition fresh_block :: tapsPreconnection where
  "fresh_block = \<lparr>pc_local = replicate 8 0, numLocal = 0, pc_remote = replicate 8 0, numRemote = 0,
     pc_protocol = replicate 256 zero_protocol, numProtocols = 0, pc_transport = None, pc_security = None\<rparr>"

definition kernel_dir :: "dir_entry list option" where
  "kernel_dir = Some [(''kernel.yaml'', Some (yaml_of [kernel_tcp, kernel_udp]))]"

lemma kernel_found:
  assumes "length stack = 255"
  shows "found kernel_dir stack [slot_of kernel_tcp, slot_of kernel_udp]"
proof -
  have "tapsParseYaml (yaml_of [kernel_tcp, kernel_udp]) stack 256 =
      Some (Inr (int 2, map slot_of (take 2 [kernel_tcp, kernel_udp]) @ drop 2 stack))"
    by (rule parse_yaml_of_docs) (simp_all add: assms)
  then have "tapsUpdateProtocols kernel_dir stack 256 =
      Some (Inr (2, [slot_of kernel_tcp, slot_of kernel_udp] @ drop 2 stack))"
    by (simp add: tapsUpdateProtocols_def kernel_dir_def is_yaml_name_def numeral_eq_Suc)
  then show ?thesis by (auto simp: found_def assms)
qed

lemma kernel_suitable:
  "unsuitable (default_properties TAPS_LISTENER) (slot_of kernel_tcp) = False"
  "unsuitable (default_properties TAPS_LISTENER) (slot_of kernel_udp) = True"
  by code_simp+




text \<open>
  The default properties of a listener and the descriptions of kernel.yaml give exactly TCP,
  whatever the directory array on the stack held before. The security field is what \<open>malloc\<close> left there.
\<close>

lemma preconnection_kernel_is_tcp:
  assumes "length stack = 255" "length (pc_local b) = 8" "length (pc_remote b) = 8"
    "length (pc_protocol b) = 256" "numProtocols b = 0"
  shows "\<exists>pc. tapsPreconnectionNew (Some b) stack kernel_dir [ep] 1 [] 0 (default_properties TAPS_LISTENER) =
      Some (Inr (None, Some pc, [slot_of kernel_udp])) \<and>
    numProtocols pc = 1 \<and> pc_protocol pc ! 0 = slot_of kernel_tcp \<and> pc_local pc ! 0 = ep \<and>
    numLocal pc = 1 \<and> numRemote pc = 0 \<and> pc_protocol pc \<noteq> [] \<and> pc_local pc \<noteq> [] \<and>
    pc_transport pc = Some (default_properties TAPS_LISTENER) \<and> pc_security pc = pc_security b"
proof -
  have s: "suitable (default_properties TAPS_LISTENER) 0 [slot_of kernel_tcp, slot_of kernel_udp] = [slot_of kernel_tcp]"
    by (simp add: suitable_def kernel_suitable)
  from preconnection_new_unfold [OF kernel_found [OF assms(1)], of 1 0 "[ep]" "[]" b "default_properties TAPS_LISTENER"]
  show ?thesis using assms s by (auto simp: add_eq_conv_diff)
qed

lemma choose_protocols_junk:
  assumes "numProtocols pc < 0 \<or> 256 < numProtocols pc" "length (pc_protocol pc) = 256"
    "\<exists>p\<in>set ps. \<not> unsuitable tp p"
  shows "choose_protocols tp ps pc freed = Inl OutOfBounds"
  using assms by (induction ps arbitrary: freed) auto

text \<open>
  The count of candidates is never initialised: \<open>memset(pc, 0, sizeof(pc))\<close> clears the size
  of a pointer. If the block holds any value outside 0 to 256 there and some protocol found is
  suitable, the first suitable one is written outside the array.
\<close>

theorem preconnection_uninitialised_count:
  assumes "found dir stack ps" "\<exists>p\<in>set ps. \<not> unsuitable tp p"
    "length (pc_local b) = 8" "length (pc_remote b) = 8" "length (pc_protocol b) = 256"
    "numProtocols b < 0 \<or> 256 < numProtocols b"
  shows "tapsPreconnectionNew (Some b) stack dir [ep] 1 [] 0 tp = Some (Inl OutOfBounds)"
proof -
  obtain n arr where up: "tapsUpdateProtocols dir stack 256 = Some (Inr (n, arr))" "n \<le> int (length arr)"
    "ps = take (nat n) arr" using assms(1) by (auto simp: found_def)
  let ?b = "b\<lparr>pc_local := ep # drop 1 ((pc_local b)[0 := 0]), pc_remote := pc_remote b, numLocal := 1, numRemote := 0\<rparr>"
  have "choose_protocols tp ps ?b [] = Inl OutOfBounds"
    using assms by (intro choose_protocols_junk) auto
  then show ?thesis using assms(3,4) up
    by (simp add: tapsPreconnectionNew_def clear_pointer_def copy_endpoints_def Let_def)
qed

theorem preconnection_uninitialised_count_witness:
  "tapsPreconnectionNew (Some (fresh_block\<lparr>numProtocols := 257\<rparr>)) (replicate 255 zero_protocol) kernel_dir
     [40] 1 [] 0 (default_properties TAPS_LISTENER) = Some (Inl OutOfBounds)"
  by (rule preconnection_uninitialised_count [OF kernel_found]) (simp_all add: fresh_block_def kernel_suitable)

section \<open>The array on the stack\<close>

text \<open>
  The array has 255 entries and the parser is told that it has 256. One file that lists that many
  protocols is enough to write past it.
\<close>

lemma one_file_found:
  assumes "is_yaml_name name \<and> length name \<le> 244" "length stack = 255" "length ds \<le> 255"
  shows "found (Some [(name, Some (yaml_of ds))]) stack (map slot_of ds)"
proof -
  have "tapsParseYaml (yaml_of ds) stack 256 = Some (Inr (int (length ds), map slot_of ds @ drop (length ds) stack))"
    using parse_yaml_of_docs [of 256 ds stack "length ds"] assms by simp
  then show ?thesis using assms by (auto simp: found_def tapsUpdateProtocols_def)
qed



section \<open>Listening\<close>

lemma bit_htons: "bit (htons x) i \<longleftrightarrow> 8 \<le> i \<and> i < 16 \<and> bit x (i - 8) \<or> bit x (i + 8)"
  by (auto simp: htons_def bit_or_iff bit_push_bit_iff bit_drop_bit_eq add.commute)

lemma htons_involution [simp]: "htons (htons x) = x"
proof (rule bit_word_eqI)
  fix i assume "i < LENGTH(16)"
  moreover have "\<not> bit x j" if "16 \<le> j" for j using that bit_imp_le_length [of x j] by auto
  ultimately show "bit (htons (htons x)) i = bit x i" by (auto simp: bit_htons)
qed

lemma htons_zero [simp]: "htons x = 0 \<longleftrightarrow> x = 0"
proof -
  have z: "htons 0 = 0" by (simp add: htons_def)
  then show ?thesis using htons_involution [of x] by (metis z)
qed

text \<open>The address a listener binds to, if the endpoint gives one.\<close>

lemma listen_address_spec:
  "listen_address junk junk6 ep =
     (if (has_ipv6 ep \<or> has_ipv4 ep) \<and> has_port ep \<and> port ep \<noteq> 0
      then Some (if has_ipv6 ep
        then junk6\<lparr>sa_family := AF_INET6, sa_port := htons (port ep), sin6_addr := ipv6 ep\<rparr>
        else junk\<lparr>sa_family := AF_INET, sa_port := htons (port ep), sin_addr := ipv4 ep\<rparr>)
      else None)"
  by (cases junk; cases junk6)
    (auto simp: listen_address_def tapsEndpointGetAddress_def AF_INET_def AF_INET6_def Let_def)

lemma listen_unfold:
  assumes "1 \<le> numLocal pc" "pc_local pc = e # es" "pc_protocol pc = q # qs" "eps e = Some (Live ep)"
    "cb_connectionReceived cb \<noteq> None" "cb_establishmentError cb \<noteq> None"
  shows "tapsPreconnectionListen alloc open_lib nb junk junk6 eps (Some pc) app True (Some cb) p =
    Inr (case listen_address junk junk6 ep of
        None \<Rightarrow> \<lparr>lr_errno = Some EINVAL, lr_listener = None, lr_proto = p, lr_cleanup = []\<rparr>
      | Some sa \<Rightarrow> tapsListenerNew alloc (open_lib (p_libpath q)) True nb app sa cb p)"
proof -
  obtain r f where "cb_connectionReceived cb = Some r" "cb_establishmentError cb = Some f"
    using assms(5,6) by blast
  then show ?thesis using assms(1-4)
    by (simp add: tapsPreconnectionListen_def Let_def split: option.split)
qed

text \<open>
  C20. A listener is started from the first local endpoint with the library of the first candidate,
  on the IPv6 address if the endpoint has one and else on the IPv4 address, with the port in
  network byte order. Without an address, without a port or with port 0 the call fails with
  \<open>EINVAL\<close> and starts nothing.
\<close>

theorem preconnection_listen_address:
  assumes "1 \<le> numLocal pc" "pc_local pc = e # es" "pc_protocol pc = q # qs" "eps e = Some (Live ep)"
    "cb_connectionReceived cb \<noteq> None" "cb_establishmentError cb \<noteq> None"
  shows "tapsPreconnectionListen alloc open_lib nb junk junk6 eps (Some pc) app True (Some cb) p =
    Inr (if (has_ipv6 ep \<or> has_ipv4 ep) \<and> has_port ep \<and> port ep \<noteq> 0
      then tapsListenerNew alloc (open_lib (p_libpath q)) True nb app
        (if has_ipv6 ep
         then junk6\<lparr>sa_family := AF_INET6, sa_port := htons (port ep), sin6_addr := ipv6 ep\<rparr>
         else junk\<lparr>sa_family := AF_INET, sa_port := htons (port ep), sin_addr := ipv4 ep\<rparr>) cb p
      else \<lparr>lr_errno = Some EINVAL, lr_listener = None, lr_proto = p, lr_cleanup = []\<rparr>)"
  unfolding listen_unfold [of pc e es q qs eps ep cb, OF assms] listen_address_spec by auto

definition local_endpoint :: tapsEndpoint where
  "local_endpoint = zero_endpoint\<lparr>has_ipv4 := True, ipv4 := 0x0100007f, has_port := True, port := 5555\<rparr>"

lemma htons_5555: "htons 5555 = 0xb315"
  by code_simp

theorem preconnection_listen_address_witness:
  "tapsPreconnectionListen (Some 1) (\<lambda>_. None) True zero_sockaddr zero_sockaddr [40 \<mapsto> Live local_endpoint]
      (Some (fresh_block\<lparr>numLocal := 1, pc_local := [40], pc_protocol := [slot_of kernel_tcp]\<rparr>)) None True
      (Some (stop_callbacks\<lparr>cb_connectionReceived := Some 1, cb_establishmentError := Some 2\<rparr>)) () =
    Inr (tapsListenerNew (Some 1) None True True None
      \<lparr>sa_family = AF_INET, sa_port = 0xb315, sin_addr = 0x0100007f, sin6_addr = 0\<rparr>
      (stop_callbacks\<lparr>cb_connectionReceived := Some 1, cb_establishmentError := Some 2\<rparr>) ())"
  using preconnection_listen_address
    [of "fresh_block\<lparr>numLocal := 1, pc_local := [40], pc_protocol := [slot_of kernel_tcp]\<rparr>" 40 "[]"
      "slot_of kernel_tcp" "[]" "[40 \<mapsto> Live local_endpoint]" local_endpoint
      "stop_callbacks\<lparr>cb_connectionReceived := Some 1, cb_establishmentError := Some 2\<rparr>" "Some 1" "\<lambda>_. None" True
      zero_sockaddr zero_sockaddr None "()"]
  by (simp add: local_endpoint_def zero_endpoint_def zero_sockaddr_def htons_5555)

end
