(* ===== verification/Taps_List.thy ===== *)
theory Taps_List
  imports Taps_Prelude
begin

text \<open>
  The LIST macros of src/src/taps_internals.h: a singly linked list whose head structure points at
  the first and at the last element. The structures that embed a \<open>LIST_ENTRY\<close> differ only in
  their other fields, which are the type parameter of \<open>list_node\<close>. The loops of the macros are
  partial functions, so that a loop that does not end has the value \<open>None\<close>; the lemmas show
  that every one of them ends on a well-formed list. \<open>LIST_PREPEND\<close> lacks a semicolon and
  cannot be compiled, so there is nothing to model for it.
\<close>

section \<open>Elements and list heads\<close>

record 'p list_node =
  next_e :: "addr option"
  elem_data :: 'p

record list_head =
  head_p :: "addr option"
  tail_p :: "addr option"

definition LIST_INIT :: list_head where
  "LIST_INIT = \<lparr>head_p = None, tail_p = None\<rparr>"

definition LIST_EMPTY :: "list_head \<Rightarrow> bool" where
  "LIST_EMPTY lst \<longleftrightarrow> head_p lst = None"

text \<open>\<open>p->next = v\<close>, also through a null pointer.\<close>

definition set_next ::
  "addr option \<Rightarrow> addr option \<Rightarrow> 'p list_node heap \<Rightarrow> fault + 'p list_node heap" where
  "set_next p v h =
     (case p of None \<Rightarrow> Inl NullDeref
      | Some a \<Rightarrow> andthen (deref h a) (\<lambda>n. Inr (hput h a (n\<lparr>next_e := v\<rparr>))))"

definition LIST_APPEND ::
  "list_head \<Rightarrow> addr \<Rightarrow> 'p list_node heap \<Rightarrow> fault + list_head \<times> 'p list_node heap" where
  "LIST_APPEND lst elem h =
     andthen
       (if head_p lst = None then Inr (lst\<lparr>head_p := Some elem\<rparr>, h)
        else andthen (set_next (tail_p lst) (Some elem) h) (\<lambda>h1. Inr (lst, h1)))
       (\<lambda>(lst1, h1). andthen (set_next (Some elem) None h1)
          (\<lambda>h2. Inr (lst1\<lparr>tail_p := Some elem\<rparr>, h2)))"

text \<open>The search loop of \<open>LIST_INSERT_ORDER\<close>; \<open>test\<close> is the condition on the element \<open>var\<close>.\<close>

partial_function (option) insert_scan ::
  "'p list_node heap \<Rightarrow> ('p \<Rightarrow> bool) \<Rightarrow> addr option \<Rightarrow> (fault + addr option) option" where
  "insert_scan h test var =
     (case var of None \<Rightarrow> Some (Inr None)
      | Some v \<Rightarrow>
          (case deref h v of Inl f \<Rightarrow> Some (Inl f)
           | Inr n \<Rightarrow>
               if test (elem_data n) then Some (Inr (Some v))
               else insert_scan h test (next_e n)))"

definition insert_link ::
  "list_head \<Rightarrow> addr option \<Rightarrow> addr \<Rightarrow> 'p list_node heap \<Rightarrow>
    fault + list_head \<times> 'p list_node heap" where
  "insert_link lst var elem h =
     (let lst1 = (if var = head_p lst then lst\<lparr>head_p := Some elem\<rparr> else lst) in
      andthen
        (if var = None then
           andthen (set_next (tail_p lst1) (Some elem) h)
             (\<lambda>h1. Inr (lst1\<lparr>tail_p := Some elem\<rparr>, h1))
         else Inr (lst1, h))
        (\<lambda>(lst2, h1). andthen (set_next (Some elem) var h1) (\<lambda>h2. Inr (lst2, h2))))"

definition LIST_INSERT_ORDER ::
  "list_head \<Rightarrow> addr \<Rightarrow> ('p \<Rightarrow> bool) \<Rightarrow> 'p list_node heap \<Rightarrow>
    (fault + list_head \<times> 'p list_node heap) option" where
  "LIST_INSERT_ORDER lst elem test h =
     (case insert_scan h test (head_p lst) of None \<Rightarrow> None
      | Some r \<Rightarrow> Some (andthen r (\<lambda>var. insert_link lst var elem h)))"

text \<open>\<open>LIST_FOREACH\<close> around a body that reads the element and changes the state \<open>s\<close>.\<close>

partial_function (option) LIST_FOREACH ::
  "('p \<Rightarrow> 's \<Rightarrow> 's) \<Rightarrow> 'p list_node heap \<Rightarrow> addr option \<Rightarrow> 's \<Rightarrow> (fault + 's) option" where
  "LIST_FOREACH body h var s =
     (case var of None \<Rightarrow> Some (Inr s)
      | Some v \<Rightarrow>
          (case deref h v of Inl f \<Rightarrow> Some (Inl f)
           | Inr n \<Rightarrow> LIST_FOREACH body h (next_e n) (body (elem_data n) s)))"

definition LIST_DELETE_FIRST ::
  "list_head \<Rightarrow> 'p list_node heap \<Rightarrow> fault + addr \<times> list_head" where
  "LIST_DELETE_FIRST lst h =
     (case head_p lst of None \<Rightarrow> Inl NullDeref
      | Some v \<Rightarrow> andthen (deref h v)
          (\<lambda>n. let lst1 = lst\<lparr>head_p := next_e n\<rparr> in
             Inr (v, if tail_p lst1 = Some v then lst1\<lparr>tail_p := None\<rparr> else lst1)))"

partial_function (option) LIST_DELETE ::
  "('p \<Rightarrow> 's \<Rightarrow> 's) \<Rightarrow> list_head \<Rightarrow> 'p list_node heap \<Rightarrow> 's \<Rightarrow>
    (fault + list_head \<times> 'p list_node heap \<times> 's) option" where
  "LIST_DELETE instructions lst h s =
     (if LIST_EMPTY lst then Some (Inr (lst, h, s))
      else case LIST_DELETE_FIRST lst h of Inl f \<Rightarrow> Some (Inl f)
      | Inr (v, lst1) \<Rightarrow>
          (case deref h v of Inl f \<Rightarrow> Some (Inl f)
           | Inr n \<Rightarrow>
               (case hfree h v of Inl f \<Rightarrow> Some (Inl f)
                | Inr h1 \<Rightarrow> LIST_DELETE instructions lst1 h1 (instructions (elem_data n) s))))"

section \<open>Well-formed lists\<close>

text \<open>\<open>chain h xs ds e\<close>: the cells \<open>xs\<close> hold the data \<open>ds\<close>, linked in order and then to \<open>e\<close>.\<close>

fun chain :: "'p list_node heap \<Rightarrow> addr list \<Rightarrow> 'p list \<Rightarrow> addr option \<Rightarrow> bool" where
  "chain h [] ds e \<longleftrightarrow> ds = []"
| "chain h (x # xs) ds e \<longleftrightarrow>
     (\<exists>d ds'. ds = d # ds' \<and> h x = Some (Live \<lparr>next_e = hd_or e xs, elem_data = d\<rparr>) \<and>
       chain h xs ds' e)"

definition list_rep :: "list_head \<times> 'p list_node heap \<Rightarrow> addr list \<Rightarrow> 'p list \<Rightarrow> bool" where
  "list_rep q xs ds \<longleftrightarrow> distinct xs \<and> chain (snd q) xs ds None \<and>
     head_p (fst q) = hd_or None xs \<and> tail_p (fst q) = last_or None xs"

lemma chain_cong: "(\<And>x. x \<in> set xs \<Longrightarrow> h x = h' x) \<Longrightarrow> chain h xs ds e = chain h' xs ds e"
  by (induction xs arbitrary: ds) auto

lemma chain_hput [simp]: "a \<notin> set xs \<Longrightarrow> chain (hput h a n) xs ds e = chain h xs ds e"
  by (rule chain_cong) auto

lemma chain_append:
  "chain h (xs @ ys) ds e \<longleftrightarrow>
     (\<exists>as bs. ds = as @ bs \<and> chain h xs as (hd_or e ys) \<and> chain h ys bs e)"
proof (induction xs arbitrary: ds)
  case Nil
  then show ?case by simp
next
  case (Cons x xs)
  show ?case (is "?l = ?r")
  proof
    assume ?l
    then show ?r by (auto simp: Cons.IH) (metis append_Cons)
  qed (fastforce simp: Cons.IH)
qed

lemma chain_split:
  "length xs = length as \<Longrightarrow>
    chain h (xs @ ys) (as @ bs) e \<longleftrightarrow> chain h xs as (hd_or e ys) \<and> chain h ys bs e"
  by (induction xs as rule: list_induct2) auto

lemma list_rep_empty [simp]: "list_rep (LIST_INIT, h) xs ds \<longleftrightarrow> xs = [] \<and> ds = []"
  by (cases xs) (auto simp: list_rep_def LIST_INIT_def)

lemma list_rep_EMPTY: "list_rep (lst, h) xs ds \<Longrightarrow> LIST_EMPTY lst \<longleftrightarrow> xs = []"
  by (cases xs) (auto simp: list_rep_def LIST_EMPTY_def)

text \<open>Redirecting the last link of a chain.\<close>

lemma chain_relink:
  assumes "chain h (xs @ [x]) ds e" "x \<notin> set xs"
  shows "\<exists>h'. set_next (Some x) e' h = Inr h' \<and> chain h' (xs @ [x]) ds e' \<and>
    (\<forall>y. y \<noteq> x \<longrightarrow> h' y = h y)"
  using assms by (auto simp: chain_append set_next_def)

section \<open>What the macros do\<close>

lemma LIST_APPEND_rep:
  assumes rep: "list_rep (lst, h) xs ds" and new: "elem \<notin> set xs" "h elem = Some (Live n)"
  shows "\<exists>q. LIST_APPEND lst elem h = Inr q \<and> list_rep q (xs @ [elem]) (ds @ [elem_data n]) \<and>
    (\<forall>a. a \<notin> set (elem # xs) \<longrightarrow> snd q a = h a)"
proof (cases xs rule: rev_cases)
  case Nil
  with rep new show ?thesis
    by (cases n) (auto simp: LIST_APPEND_def list_rep_def set_next_def)
next
  case (snoc ys y)
  with rep have "chain h (ys @ [y]) ds None" "y \<notin> set ys" and t: "tail_p lst = Some y"
    by (auto simp: list_rep_def)
  from chain_relink [OF this(1,2), of "Some elem"] obtain h1 where
    h1: "set_next (Some y) (Some elem) h = Inr h1" "chain h1 xs ds (Some elem)"
      "\<forall>a. a \<noteq> y \<longrightarrow> h1 a = h a"
    using snoc by auto
  from h1(3) new snoc have e: "h1 elem = Some (Live n)" by auto
  obtain x where x: "head_p lst = Some x" "hd_or (Some elem) xs = Some x"
    using rep snoc by (cases ys) (auto simp: list_rep_def)
  have "chain (hput h1 elem (n\<lparr>next_e := None\<rparr>)) (xs @ [elem]) (ds @ [elem_data n]) None"
    using h1(2) new(1) by (cases n) (auto simp: chain_append)
  moreover have "LIST_APPEND lst elem h =
      Inr (lst\<lparr>tail_p := Some elem\<rparr>, hput h1 elem (n\<lparr>next_e := None\<rparr>))"
    using x t h1(1) e by (simp add: LIST_APPEND_def) (simp add: set_next_def)
  ultimately show ?thesis
    using rep x h1(3) new snoc by (auto simp: list_rep_def)
qed

lemma LIST_DELETE_FIRST_rep:
  assumes "list_rep (lst, h) (x # xs) (d # ds)"
  shows "\<exists>lst'. LIST_DELETE_FIRST lst h = Inr (x, lst') \<and>
    list_rep (lst', h(x := c)) xs ds \<and> h x = Some (Live \<lparr>next_e = hd_or None xs, elem_data = d\<rparr>)"
proof -
  have "chain (h(x := c)) xs ds None"
    using assms by (subst chain_cong [of xs _ h]) (auto simp: list_rep_def)
  with assms show ?thesis
    by (cases xs rule: rev_cases) (auto simp: LIST_DELETE_FIRST_def list_rep_def)
qed

lemma LIST_FOREACH_rep: "chain h xs ds None \<Longrightarrow> LIST_FOREACH body h (hd_or None xs) s = Some (Inr (fold body ds s))"
proof (induction xs arbitrary: ds s)
  case Nil
  then show ?case by (simp add: LIST_FOREACH.simps [of _ _ None])
next
  case (Cons x xs)
  then show ?case by (auto simp: LIST_FOREACH.simps [of _ _ "Some x"])
qed

text \<open>The deletion loop ends after as many rounds as the list has elements.\<close>

lemma LIST_DELETE_rep:
  assumes "list_rep (lst, h) xs ds"
  shows "\<exists>h'. LIST_DELETE instructions lst h s = Some (Inr (LIST_INIT, h', fold instructions ds s)) \<and>
    (\<forall>a \<in> set xs. \<exists>n. h' a = Some (Freed n)) \<and> (\<forall>a. a \<notin> set xs \<longrightarrow> h' a = h a)"
  using assms
proof (induction xs arbitrary: lst h ds s)
  case Nil
  then have "lst = LIST_INIT" by (cases lst) (simp add: list_rep_def LIST_INIT_def)
  with Nil show ?case
    by (subst LIST_DELETE.simps) (simp add: list_rep_def LIST_EMPTY_def LIST_INIT_def)
next
  case (Cons x xs)
  then obtain d ds' where ds: "ds = d # ds'" by (auto simp: list_rep_def)
  let ?n = "\<lparr>next_e = hd_or None xs, elem_data = d\<rparr>"
  let ?h = "h(x := Some (Freed ?n))"
  from LIST_DELETE_FIRST_rep [of lst h x xs d ds' "Some (Freed ?n)"] Cons.prems ds
  obtain lst' where first: "LIST_DELETE_FIRST lst h = Inr (x, lst')"
    and rest: "list_rep (lst', ?h) xs ds'" and live: "h x = Some (Live ?n)" by auto
  from Cons.prems have "x \<notin> set xs" by (simp add: list_rep_def)
  have "LIST_DELETE instructions lst h s = LIST_DELETE instructions lst' ?h (instructions d s)"
    using first live list_rep_EMPTY [OF Cons.prems] by (subst LIST_DELETE.simps) simp
  with Cons.IH [OF rest, of "instructions d s"] ds \<open>x \<notin> set xs\<close> show ?case by fastforce
qed

text \<open>Several elements appended one after the other.\<close>

fun append_all ::
  "addr list \<Rightarrow> list_head \<times> 'p list_node heap \<Rightarrow> fault + list_head \<times> 'p list_node heap" where
  "append_all [] q = Inr q"
| "append_all (x # xs) q = andthen (LIST_APPEND (fst q) x (snd q)) (append_all xs)"

definition datum :: "'p list_node heap \<Rightarrow> addr \<Rightarrow> 'p option" where
  "datum h a = (case h a of Some (Live n) \<Rightarrow> Some (elem_data n) | _ \<Rightarrow> None)"

lemma datum_eq_Some: "datum h a = Some d \<longleftrightarrow> (\<exists>n. h a = Some (Live n) \<and> d = elem_data n)"
  by (auto simp: datum_def split: option.splits cell.splits)

lemma append_all_rep:
  assumes "list_rep q xs ds" "distinct (xs @ ys)" "map (datum (snd q)) ys = map Some es"
  shows "\<exists>q'. append_all ys q = Inr q' \<and> list_rep q' (xs @ ys) (ds @ es)"
  using assms
proof (induction ys arbitrary: q xs ds es)
  case Nil
  then show ?case by simp
next
  case (Cons y ys)
  from Cons.prems(3) obtain e es' n where es: "es = e # es'"
      "map (datum (snd q)) ys = map Some es'" "snd q y = Some (Live n)" "e = elem_data n"
    by (auto simp: datum_eq_Some Cons_eq_map_conv)
  have rep: "list_rep (fst q, snd q) xs ds" "y \<notin> set xs" using Cons.prems by auto
  from LIST_APPEND_rep [OF rep es(3)] obtain q1 where
    q1: "LIST_APPEND (fst q) y (snd q) = Inr q1" "list_rep q1 (xs @ [y]) (ds @ [e])"
      "\<forall>a. a \<notin> set (y # xs) \<longrightarrow> snd q1 a = snd q a" using es(4) by auto
  have "map (datum (snd q1)) ys = map (datum (snd q)) ys"
    using q1(3) Cons.prems(2) by (auto simp: datum_def)
  with Cons.IH [OF q1(2)] Cons.prems(2) es q1(1) show ?case by auto
qed

text \<open>
  C22. The list macros form a queue whose loops end: appending any distinct live elements to an
  initialised list succeeds, \<open>LIST_FOREACH\<close> then visits their data in the order of the appends,
  and \<open>LIST_DELETE\<close> returns (it cannot loop), having run its instructions on the data in that
  order, having freed every element exactly once and nothing else, and leaving the list as
  \<open>LIST_INIT\<close> made it.
\<close>

theorem list_macros_queue:
  assumes "distinct xs" "map (datum h) xs = map Some ds"
  shows "\<exists>lst h1 h2. append_all xs (LIST_INIT, h) = Inr (lst, h1) \<and>
    LIST_FOREACH body h1 (head_p lst) s = Some (Inr (fold body ds s)) \<and>
    LIST_DELETE instructions lst h1 s = Some (Inr (LIST_INIT, h2, fold instructions ds s)) \<and>
    (\<forall>a \<in> set xs. \<exists>n. h2 a = Some (Freed n)) \<and> (\<forall>a. a \<notin> set xs \<longrightarrow> h2 a = h1 a)"
proof -
  from append_all_rep [of "(LIST_INIT, h)" "[]" "[]" xs ds] assms
  obtain lst h1 where q: "append_all xs (LIST_INIT, h) = Inr (lst, h1)" "list_rep (lst, h1) xs ds"
    by auto
  with LIST_DELETE_rep [OF q(2), of instructions s] LIST_FOREACH_rep [of h1 xs ds body s]
  show ?thesis by (auto simp: list_rep_def)
qed

definition demo_nodes :: "int list_node heap" where
  "demo_nodes =
     [1 \<mapsto> Live \<lparr>next_e = None, elem_data = 30\<rparr>, 2 \<mapsto> Live \<lparr>next_e = None, elem_data = 10\<rparr>,
      3 \<mapsto> Live \<lparr>next_e = None, elem_data = 20\<rparr>]"

theorem list_macros_queue_witness:
  "\<exists>lst h1 h2. append_all [1, 2] (LIST_INIT, demo_nodes) = Inr (lst, h1) \<and>
    LIST_FOREACH (\<lambda>d s. s @ [d]) h1 (head_p lst) [] = Some (Inr [30, 10]) \<and>
    LIST_DELETE (\<lambda>d s. s @ [d]) lst h1 [] = Some (Inr (LIST_INIT, h2, [30, 10]))"
  using list_macros_queue [of "[1, 2]" demo_nodes "[30, 10]" "\<lambda>d s. s @ [d]" "[]" "\<lambda>d s. s @ [d]"]
  by (fastforce simp: demo_nodes_def datum_def)

section \<open>Ordered insertion\<close>

lemma insert_scan_chain:
  "chain h (xs @ ys) (as @ bs) None \<Longrightarrow> length xs = length as \<Longrightarrow> (\<forall>d \<in> set as. \<not> test d) \<Longrightarrow>
    (bs = [] \<or> test (hd bs)) \<Longrightarrow>
    insert_scan h test (hd_or None (xs @ ys)) = Some (Inr (hd_or None ys))"
proof (induction xs arbitrary: as)
  case Nil
  then show ?case
    by (cases ys) (auto simp: insert_scan.simps [of _ _ None] insert_scan.simps [of _ _ "Some _"])
next
  case (Cons x xs)
  then obtain d as' where "as = d # as'" by (cases as) auto
  with Cons show ?case by (auto simp: insert_scan.simps [of _ _ "Some x"])
qed

lemma insert_link_back:
  assumes rep: "list_rep (lst, h) xs ds" "xs \<noteq> []"
    and new: "elem \<notin> set xs" "h elem = Some (Live n)"
  shows "\<exists>q. insert_link lst None elem h = Inr q \<and> list_rep q (xs @ [elem]) (ds @ [elem_data n])"
proof -
  from rep(2) obtain zs z where xs: "xs = zs @ [z]" by (cases xs rule: rev_cases) auto
  with rep have z: "z \<notin> set zs" "tail_p lst = Some z" "chain h (zs @ [z]) ds None"
    by (auto simp: list_rep_def)
  from chain_relink [OF z(3,1), of "Some elem"] xs obtain h1 where
    h1: "set_next (Some z) (Some elem) h = Inr h1" "chain h1 xs ds (Some elem)"
      "\<forall>a. a \<noteq> z \<longrightarrow> h1 a = h a" by auto
  have e: "h1 elem = Some (Live n)" using h1(3) new xs by auto
  have hd: "head_p lst \<noteq> None" using rep xs by (cases zs) (auto simp: list_rep_def)
  have "chain (hput h1 elem (n\<lparr>next_e := None\<rparr>)) (xs @ [elem]) (ds @ [elem_data n]) None"
    using h1(2) new(1) by (cases n) (auto simp: chain_append)
  moreover have "insert_link lst None elem h =
      Inr (lst\<lparr>tail_p := Some elem\<rparr>, hput h1 elem (n\<lparr>next_e := None\<rparr>))"
    using z(2) h1(1) e hd by (simp add: insert_link_def) (auto simp: set_next_def)
  ultimately show ?thesis using rep new(1) xs by (auto simp: list_rep_def)
qed

text \<open>
  C36. \<open>LIST_INSERT_ORDER\<close> on a non-empty list whose elements \<open>xs\<close> come before the new one
  and whose elements \<open>ys\<close> come after it: the macro ends, and the element is in the list, in
  order, when it belongs at the front or at the back. Between two elements the macro links the new
  element to its successor only: the list is unchanged and the new element is not in it.
\<close>

theorem list_insert_order:
  assumes rep: "list_rep (lst, h) (xs @ ys) (as @ bs)" and len: "length xs = length as"
    and pre: "\<forall>d \<in> set as. \<not> test d" and post: "bs = [] \<or> test (hd bs)"
    and new: "elem \<notin> set (xs @ ys)" "h elem = Some (Live n)" and ne: "xs @ ys \<noteq> []"
  shows "\<exists>q. LIST_INSERT_ORDER lst elem test h = Some (Inr q) \<and>
    (if xs = [] \<or> ys = [] then list_rep q (xs @ elem # ys) (as @ elem_data n # bs)
     else list_rep q (xs @ ys) (as @ bs))"
proof -
  have scan: "insert_scan h test (head_p lst) = Some (Inr (hd_or None ys))"
    using insert_scan_chain [OF _ len pre post] rep by (simp add: list_rep_def)
  have ch: "chain h xs as (hd_or None ys)" "chain h ys bs None"
    using rep by (simp_all add: list_rep_def chain_split [OF len])
  note defs = LIST_INSERT_ORDER_def insert_link_def set_next_def list_rep_def
  show ?thesis
  proof (cases ys)
    case Nil
    with ne rep len post ch have "xs \<noteq> []" "list_rep (lst, h) xs as" "bs = []" by auto
    with insert_link_back [of lst h xs as elem n] new scan Nil show ?thesis
      by (auto simp: LIST_INSERT_ORDER_def)
  next
    case (Cons y ys')
    let ?h = "hput h elem (n\<lparr>next_e := Some y\<rparr>)"
    have keep: "chain ?h xs as (Some y)" "chain ?h ys bs None" using ch new Cons by auto
    show ?thesis
    proof (cases "xs = []")
      case True
      with keep rep scan new Cons len show ?thesis by (cases n) (auto simp: defs)
    next
      case False
      then obtain x xs' where xs: "xs = x # xs'" by (cases xs) auto
      with rep Cons have "x \<noteq> y" by (auto simp: list_rep_def)
      with keep rep scan new Cons xs show ?thesis by (auto simp: defs chain_append)
    qed
  qed
qed

theorem list_insert_order_witness:
  "\<exists>lst h q. append_all [1, 2] (LIST_INIT, demo_nodes) = Inr (lst, h) \<and>
    LIST_INSERT_ORDER lst 3 (\<lambda>d. 20 > d) h = Some (Inr q) \<and> list_rep q [1, 2] [30, 10]"
proof -
  from append_all_rep [of "(LIST_INIT, demo_nodes)" "[]" "[]" "[1, 2]" "[30, 10]"]
  obtain q where q: "append_all [1, 2] (LIST_INIT, demo_nodes) = Inr q" "list_rep q [1, 2] [30, 10]"
    by (auto simp: demo_nodes_def datum_def)
  then have "snd q 3 = Some (Live \<lparr>next_e = None, elem_data = 20\<rparr>)"
    by (auto simp: LIST_APPEND_def set_next_def LIST_INIT_def demo_nodes_def)
  with q list_insert_order [of "fst q" "snd q" "[1]" "[2]" "[30]" "[10]" "\<lambda>d. 20 > d" 3]
  show ?thesis by (cases q) auto
qed

text \<open>On an empty list the macro writes through the null tail pointer.\<close>

lemma list_insert_order_empty:
  "LIST_INSERT_ORDER LIST_INIT elem test h = Some (Inl NullDeref)"
  by (simp add: LIST_INSERT_ORDER_def insert_link_def LIST_INIT_def set_next_def
      insert_scan.simps [of _ _ None])

end
