(* ===== verification/Taps_Tapsd.thy ===== *)
theory Taps_Tapsd
  imports Taps_Cfg
begin

text \<open>
  The daemon prototype src/old/tapsd.c, which watches the configuration directory with inotify.
  It is not built with the library, and the function \<open>tapsReadProtocols\<close> that it calls does not
  exist any more, so that function is an argument, as are the results of the system calls. A buffer
  that \<open>read\<close> has filled is given by the \<open>struct inotify_event\<close> that starts at each of its offsets.
\<close>

section \<open>State\<close>

record inotify_event =
  ie_mask :: uint32
  ie_len :: uint32

abbreviation EVENT_SIZE :: int where "EVENT_SIZE \<equiv> 16"
abbreviation EVENT_BUF_LEN :: int where "EVENT_BUF_LEN \<equiv> 1024 * (EVENT_SIZE + 16)"

type_synonym event_buffer = "int \<Rightarrow> inotify_event"

record daemon_env =
  d_readProtocols :: "tapsProtocol list \<Rightarrow> tapsProtocol list"
  d_init :: int
  d_watch :: int
  d_fork :: int
  d_setsid :: int
  d_reads :: "(int \<times> event_buffer) list"
  d_i :: int

text \<open>Where a process is: it has returned from \<open>main\<close>, or it waits in \<open>read\<close> with this \<open>i\<close>.\<close>

datatype daemon_state = Returned int | Waiting int

section \<open>Operations\<close>

text \<open>
  \<open>i += EVENT_SIZE + event->len\<close> is computed in \<open>size_t\<close> and stored in an \<open>int\<close>, which keeps the
  low 32 bits.
\<close>

definition advance :: "int \<Rightarrow> uint32 \<Rightarrow> int" where
  "advance i len = sint (word_of_int (i + EVENT_SIZE + uint len) :: 32 word)"

text \<open>The inner loop. An event without a name does not move \<open>i\<close>.\<close>

partial_function (option) scan_events :: "int \<Rightarrow> event_buffer \<Rightarrow> int \<Rightarrow> (fault + int) option" where
  "scan_events n buffer i =
     (if i < n then
        if i < 0 \<or> EVENT_BUF_LEN < i + EVENT_SIZE then Some (Inl OutOfBounds)
        else if ie_len (buffer i) \<noteq> 0 then scan_events n buffer (advance i (ie_len (buffer i)))
        else scan_events n buffer i
      else Some (Inr i))"

text \<open>
  The outer loop over the results of \<open>read\<close>. The variable \<open>i\<close> is neither set before the
  first round nor between rounds.
\<close>

fun watch_loop :: "(int \<times> event_buffer) list \<Rightarrow> int \<Rightarrow> (fault + daemon_state) option" where
  "watch_loop [] i = Some (Inr (Waiting i))"
| "watch_loop ((n, buffer) # rs) i =
     (if n < 0 then Some (Inr (Returned 0))
      else case scan_events n buffer i of
          None \<Rightarrow> None
        | Some (Inl f) \<Rightarrow> Some (Inl f)
        | Some (Inr i') \<Rightarrow> watch_loop rs i')"

text \<open>\<open>main\<close>, with the table \<open>protocols\<close> as it leaves it; \<open>d_i\<close> is what \<open>i\<close> happens to hold.\<close>

definition tapsd_main :: "daemon_env \<Rightarrow> tapsProtocol list \<times> (fault + daemon_state) option" where
  "tapsd_main env =
     (d_readProtocols env (replicate 255 zero_protocol),
      if d_init env < 0 then Some (Inr (Returned 0))
      else if d_watch env < 0 then Some (Inr (Returned 0))
      else if d_fork env = - 1 then Some (Inr (Returned 0))
      else if 0 < d_fork env then Some (Inr (Returned 1))
      else if d_setsid env = - 1 then Some (Inr (Returned 0))
      else watch_loop (d_reads env) (d_i env))"

section \<open>Properties\<close>

text \<open>What inotify documents: \<open>read\<close> fills the buffer with whole events, one after the other.\<close>

definition event_size :: "inotify_event \<Rightarrow> int" where
  "event_size e = EVENT_SIZE + uint (ie_len e)"

definition batch_size :: "inotify_event list \<Rightarrow> int" where
  "batch_size es = sum_list (map event_size es)"

fun laid_out :: "inotify_event list \<Rightarrow> int \<Rightarrow> event_buffer \<Rightarrow> bool" where
  "laid_out [] i buffer \<longleftrightarrow> True"
| "laid_out (e # es) i buffer \<longleftrightarrow> buffer i = e \<and> laid_out es (i + event_size e) buffer"

lemma batch_size_simps [simp]:
  "batch_size [] = 0" "batch_size (e # es) = event_size e + batch_size es"
  by (simp_all add: batch_size_def)

lemma event_size_ge: "EVENT_SIZE \<le> event_size e"
  by (simp add: event_size_def)

lemma batch_size_nonneg: "0 \<le> batch_size es"
proof (induction es)
  case (Cons e es)
  then show ?case using event_size_ge [of e] by simp
qed simp

lemma advance_small:
  assumes "0 \<le> i" "i + EVENT_SIZE + uint len \<le> EVENT_BUF_LEN"
  shows "advance i len = i + EVENT_SIZE + uint len"
proof -
  define k where "k = i + EVENT_SIZE + uint len"
  have "0 \<le> k" using assms(1) by (simp add: k_def)
  then have "signed_take_bit 31 k = k" using assms(2) by (simp add: k_def [symmetric] signed_take_bit_int_eq_self)
  then show ?thesis by (simp only: advance_def k_def [symmetric]) (simp add: sint_sbintrunc')
qed

lemma scan_events_stuck:
  assumes "i < n" "0 \<le> i" "i + EVENT_SIZE \<le> EVENT_BUF_LEN" "ie_len (buffer i) = 0"
  shows "scan_events n buffer i = None"
proof (rule ccontr)
  assume "scan_events n buffer i \<noteq> None"
  then obtain r where ret: "scan_events n buffer i = Some r" by auto
  have "i < n \<longrightarrow> 0 \<le> i \<longrightarrow> i + EVENT_SIZE \<le> EVENT_BUF_LEN \<longrightarrow> ie_len (buffer i) \<noteq> 0"
    by (rule scan_events.raw_induct
        [where P = "\<lambda>n buffer i r. i < n \<longrightarrow> 0 \<le> i \<longrightarrow> i + EVENT_SIZE \<le> EVENT_BUF_LEN \<longrightarrow> ie_len (buffer i) \<noteq> 0", OF _ ret])
      (auto split: if_splits)
  with assms show False by simp
qed

lemma scan_events_batch:
  assumes "laid_out es i buffer" "0 \<le> i" "i + batch_size es \<le> EVENT_BUF_LEN"
  shows "scan_events (i + batch_size es) buffer i =
    (if \<forall>e \<in> set es. ie_len e \<noteq> 0 then Some (Inr (i + batch_size es)) else None)"
  using assms
proof (induction es arbitrary: i)
  case Nil
  then show ?case by (simp add: scan_events.simps [of i buffer i])
next
  case (Cons e es)
  let ?n = "i + (event_size e + batch_size es)"
  have b: "i < ?n" "i + EVENT_SIZE \<le> EVENT_BUF_LEN" "buffer i = e"
    using Cons.prems event_size_ge [of e] batch_size_nonneg [of es] by simp_all
  show ?case
  proof (cases "ie_len e = 0")
    case True
    then show ?thesis using scan_events_stuck [of i ?n buffer] b Cons.prems(2) by simp
  next
    case False
    have "advance i (ie_len e) = i + event_size e"
      using advance_small [of i "ie_len e"] Cons.prems batch_size_nonneg [of es] by (simp add: event_size_def)
    then have "scan_events ?n buffer i = scan_events ?n buffer (i + event_size e)"
      using False b Cons.prems(2) by (subst scan_events.simps) simp
    also have "\<dots> = (if \<forall>e \<in> set es. ie_len e \<noteq> 0 then Some (Inr ?n) else None)"
      using Cons.IH [of "i + event_size e"] Cons.prems event_size_ge [of e] by (simp add: add.assoc)
    finally show ?thesis using False by simp
  qed
qed

lemma scan_events_skips: "n \<le> i \<Longrightarrow> scan_events n buffer i = Some (Inr i)"
  by (simp add: scan_events.simps)


definition demo_event :: "uint32 \<Rightarrow> inotify_event" where
  "demo_event len = \<lparr>ie_mask = 256, ie_len = len\<rparr>"

definition demo_daemon :: "event_buffer \<Rightarrow> daemon_env" where
  "demo_daemon buffer = \<lparr>d_readProtocols = id, d_init = 3, d_watch = 1, d_fork = 0, d_setsid = 7,
     d_reads = [(48, buffer), (32, buffer)], d_i = 0\<rparr>"


end
