(* ===== verification/Taps_Tcp_Frame.thy ===== *)
theory Taps_Tcp_Frame
  imports Taps_Tcp
begin

text \<open>
  What a handler or an entry point of the TCP module does to the other connections: their contexts
  keep their contents and their events stay pending or not as they were, because every connection
  has events of its own.
\<close>

section \<open>Frames\<close>

text \<open>The events of a connection, and whom it reports its end to.\<close>

definition conn_events :: "addr \<Rightarrow> 'e tcp_state \<Rightarrow> addr option list" where
  "conn_events x p = (case tconns p x of Some (Live cc) \<Rightarrow> [closeEvent cc, sendEvent cc, receiveEvent cc] | _ \<Rightarrow> [])"

definition conn_owner :: "addr \<Rightarrow> 'e tcp_state \<Rightarrow> (fnptr \<times> ctx) option" where
  "conn_owner x p = (case tconns p x of Some (Live cc) \<Rightarrow> Some (t_closed cc, t_taps_ctx cc) | _ \<Rightarrow> None)"

text \<open>
  \<open>tcp_apart E x\<close>: of the contexts only \<open>x\<close> has changed, and of the events only those in \<open>E\<close>.
  \<open>tcp_frame x\<close>: moreover these events are those of \<open>x\<close>, \<open>x\<close> keeps them and its owner, and no listener changed.
\<close>

definition tcp_apart :: "'e evlib \<Rightarrow> addr option set \<Rightarrow> addr \<Rightarrow> 'e tcp_state \<Rightarrow> 'e tcp_state \<Rightarrow> bool" where
  "tcp_apart L E x p p' \<longleftrightarrow> (\<forall>y. y \<noteq> x \<longrightarrow> tconns p' y = tconns p y) \<and>
     (\<forall>b. b \<notin> E \<longrightarrow> event_pending L b (ev p') = event_pending L b (ev p))"

definition tcp_frame :: "'e evlib \<Rightarrow> addr \<Rightarrow> 'e tcp_state \<Rightarrow> 'e tcp_state \<Rightarrow> bool" where
  "tcp_frame L x p p' \<longleftrightarrow> tcp_apart L (set (conn_events x p)) x p p' \<and>
     conn_events x p' = conn_events x p \<and> conn_owner x p' = conn_owner x p \<and>
     tlisteners p' = tlisteners p \<and> t_faults p' = t_faults p"

lemma tcp_apart_trans: "tcp_apart L E x p p' \<Longrightarrow> tcp_apart L E x p' p'' \<Longrightarrow> tcp_apart L E x p p''"
  by (simp add: tcp_apart_def)

lemma tcp_frame_trans: "tcp_frame L x p p' \<Longrightarrow> tcp_frame L x p' p'' \<Longrightarrow> tcp_frame L x p p''"
  using tcp_apart_trans by (auto simp: tcp_frame_def)

lemma conn_apart:
  assumes "tcp_apart L E x p p'" "y \<noteq> x"
  shows "tconns p' y = tconns p y" "conn_events y p' = conn_events y p" "conn_owner y p' = conn_owner y p"
  using assms by (simp_all add: tcp_apart_def conn_events_def conn_owner_def)

section \<open>The module\<close>

lemma tcp_received_frame:
  assumes "libevent_ok L" "tconns p x = Some (Live cc)" "tcp_received L n (Some x) p = (cbs, p')"
  shows "tcp_frame L x p p'"
  using assms libevent_fired(2) [OF assms(1)]
  by (auto simp: tcp_received_def tcp_frame_def tcp_apart_def conn_events_def conn_owner_def Let_def split: if_splits)

lemma tcp_fire_frame:
  assumes "libevent_ok L" "tconns p x = Some (Live cc)" "tcp_fire L x p = (r, p')"
  shows "tcp_frame L x p p'"
  using assms libevent_fired(2) [OF assms(1)]
  by (auto simp: tcp_fire_def tcp_sent_def tcp_frame_def tcp_apart_def conn_events_def conn_owner_def Let_def split: if_splits)

lemma tcp_Send_frame:
  assumes "libevent_ok L" "tconns p x = Some (Live cc)"
    "tcp_Send L v (Some x) a vs n sent expired sendError p = (r, p')"
  shows "tcp_frame L x p p'"
proof -
  obtain k e where e: "event_add L (sendEvent cc) (ev p) = (k, e)" by fastforce
  have "event_pending L b e = event_pending L b (ev p)" if "b \<noteq> sendEvent cc" for b
    using libevent_add(2) [OF assms(1) e, of b] that by simp
  then show ?thesis using assms(2,3) e
    by (cases "t_sent cc") (auto simp: tcp_Send_def tcp_frame_def tcp_apart_def conn_events_def conn_owner_def Let_def split: if_splits)
qed

lemma tcp_Receive_frame:
  assumes "libevent_ok L" "tconns p x = Some (Live cc)"
    "tcp_Receive L (Some x) a own vs n received receivedPartial receiveError p = (r, p')"
  shows "tcp_frame L x p p'"
proof -
  obtain k e where e: "event_add L (receiveEvent cc) (ev p) = (k, e)" by fastforce
  have "event_pending L b e = event_pending L b (ev p)" if "b \<noteq> receiveEvent cc" for b
    using libevent_add(2) [OF assms(1) e, of b] that by simp
  then show ?thesis using assms(2,3) e
    by (cases "t_received cc") (auto simp: tcp_Receive_def tcp_frame_def tcp_apart_def conn_events_def conn_owner_def Let_def split: if_splits)
qed

text \<open>The documented effect of the other calls of libevent: each of them concerns one event.\<close>

definition libevent_local :: "'e evlib \<Rightarrow> bool" where
  "libevent_local L \<longleftrightarrow>
     (\<forall>fd k e a e' b. event_new L fd k e = (a, e') \<longrightarrow> b \<noteq> a \<longrightarrow> event_pending L b e' = event_pending L b e) \<and>
     (\<forall>a b e. b \<noteq> a \<longrightarrow> event_pending L b (event_del L a e) = event_pending L b e) \<and>
     (\<forall>a b e. b \<noteq> a \<longrightarrow> event_pending L b (event_free L a e) = event_pending L b e)"

lemma set_events_local: "libevent_local set_events"
  by (auto simp: libevent_local_def set_events_def)

lemma event_new_other: "libevent_local L \<Longrightarrow> event_new L fd k e = (a, e') \<Longrightarrow> b \<noteq> a \<Longrightarrow> event_pending L b e' = event_pending L b e"
  by (simp add: libevent_local_def)

lemma event_removed_other:
  "libevent_local L \<Longrightarrow> b \<noteq> a \<Longrightarrow> event_pending L b (event_free L a (event_del L a e)) = event_pending L b e"
  by (simp add: libevent_local_def)

text \<open>The end of a connection takes its own events and its own context.\<close>

lemma tcp_closed_apart:
  assumes "libevent_local L" "tconns p x = Some (Live cc)"
  shows "\<exists>p'. tcp_closed L (Some x) p = ([CbClosed (t_closed cc) (t_taps_ctx cc)], p') \<and>
    tcp_apart L (set (conn_events x p)) x p p' \<and> \<not> allocated (tconns p') x \<and>
    closed_fds p' = closed_fds p @ [t_fd cc] \<and> written p' = written p \<and>
    tlisteners p' = tlisteners p \<and> t_faults p' = t_faults p"
  using assms(2) event_removed_other [OF assms(1)]
  by (simp add: tcp_closed_def tcp_apart_def conn_events_def allocated_def Let_def)

text \<open>A new connection takes the events \<open>event_new\<close> gives it; the first receive is posted while it is accepted.\<close>

definition new_conn_events :: "'e evlib \<Rightarrow> int \<Rightarrow> 'e \<Rightarrow> addr option list" where
  "new_conn_events L fd e =
     (let (ce, e1) = event_new L fd EV_CLOSED e; (se, e2) = event_new L fd EV_WRITE e1; (re, e3) = event_new L fd EV_READ e2
      in [ce, se, re])"

lemma tcp_accept_apart:
  assumes env: "tcp_env_ok L env" and loc: "libevent_local L" and lc: "tlisteners p tla = Some (Live lc)" and fd: "0 \<le> fd"
    and p1: "tcp_connection_received L (Some (x, zc)) fd (Some tla) p = (cb, p1)"
    and p2: "p2 = tcp_connection_received_end x (Some c) (h_receive (tcp_handles L env l) (Some x) r own vs n p1)"
  shows "tcp_apart L (set (new_conn_events L fd (ev p))) x p p2 \<and> conn_events x p2 = new_conn_events L fd (ev p) \<and>
    conn_owner x p2 = Some (lc_closed lc, Some c) \<and> written p2 = written p \<and> tlisteners p2 = tlisteners p \<and> t_faults p2 = t_faults p"
proof -
  have lib: "libevent_ok L" using env by (simp add: tcp_env_ok_def)
  obtain ce e1 where 1: "event_new L fd EV_CLOSED (ev p) = (ce, e1)" by fastforce
  obtain se e2 where 2: "event_new L fd EV_WRITE e1 = (se, e2)" by fastforce
  obtain re e3 where 3: "event_new L fd EV_READ e2 = (re, e3)" by fastforce
  obtain k e4 where 4: "event_add L ce e3 = (k, e4)" by fastforce
  have k: "0 \<le> k" using env 4 by (metis tcp_env_ok_def fst_conv)
  have new: "new_conn_events L fd (ev p) = [ce, se, re]" by (simp add: new_conn_events_def 1 2 3)
  let ?cc = "zc\<lparr>t_fd := fd, closeEvent := ce, sendEvent := se, receiveEvent := re, errorEvent := None,
      t_closed := lc_closed lc, t_connectionError := lc_connectionError lc\<rparr>"
  have q1: "p1 = set_tconn x ?cc (p\<lparr>ev := e4\<rparr>)"
    using p1 lc fd 1 2 3 4 k by (simp add: tcp_connection_received_def Let_def)
  have "event_pending L b e4 = event_pending L b (ev p)" if "b \<notin> {ce, se, re}" for b
    using that event_new_other [OF loc 1, of b] event_new_other [OF loc 2, of b] event_new_other [OF loc 3, of b]
      libevent_add(2) [OF lib 4, of b] by simp
  then have a1: "tcp_apart L {ce, se, re} x p p1" by (simp add: q1 tcp_apart_def hput_def)
  have c1: "tconns p1 x = Some (Live ?cc)" by (simp add: q1)
  define p3 where "p3 = h_receive (tcp_handles L env l) (Some x) r own vs n p1"
  have f: "tcp_frame L x p1 p3"
    using tcp_Receive_frame [OF lib c1 prod.collapse [symmetric]] by (simp add: p3_def tcp_handles_def)
  have e3: "conn_events x p1 = [ce, se, re]" using c1 by (simp add: conn_events_def)
  then obtain cc where cc: "tconns p3 x = Some (Live cc)" "[closeEvent cc, sendEvent cc, receiveEvent cc] = [ce, se, re]"
    using f by (auto simp: tcp_frame_def conn_events_def split: option.splits cell.splits)
  have own: "t_closed cc = lc_closed lc"
    using f cc(1) c1 by (simp add: tcp_frame_def conn_owner_def)
  have q2: "p2 = set_tconn x (cc\<lparr>t_taps_ctx := Some c\<rparr>) p3"
    using p2 cc(1) by (simp add: p3_def tcp_connection_received_end_def)
  have "tcp_apart L {ce, se, re} x p1 p3" using f e3 by (simp add: tcp_frame_def)
  then have "tcp_apart L {ce, se, re} x p p3" by (rule tcp_apart_trans [OF a1])
  then have "tcp_apart L {ce, se, re} x p p2" by (simp add: q2 tcp_apart_def hput_def)
  moreover have "written p3 = written p1"
    by (simp add: p3_def tcp_handles_def tcp_Receive_def Let_def split: sum.split prod.split)
  ultimately show ?thesis using cc own f
    by (simp add: new q2 conn_events_def conn_owner_def tcp_frame_def q1)
qed

text \<open>\<open>Stop\<close> takes the event and the context of the listener.\<close>

lemma tcp_stop_apart:
  assumes "libevent_local L" "tlisteners p tla = Some (Live lc)"
  obtains p' where "h_stop (tcp_handles L env l) (Some tla) p = (True, p')" "tcp_apart L {lc_event lc} x p p'"
    "t_faults p' = t_faults p @ [UseAfterFree]" "written p' = written p"
  using assms(2) event_removed_other [OF assms(1)]
  by (simp add: tcp_handles_def tcp_Stop_def tcp_apart_def t_fault_def)

end
