(* ===== verification/Taps_Echo.thy ===== *)
theory Taps_Echo
  imports Taps_Conn_Frame Taps_Tcp_Frame Taps_Preconnection
begin

text \<open>
  The example application, src/examples/echoapp.c: a server that sends back what it receives. Its
  callbacks run on top of the library's model, so the development covers a whole program: the
  callbacks are the last action of the library functions that call them (only the callback for a new
  connection runs in the middle of \<open>_taps_connection_received\<close>), hence running the library
  function and then the callback it asked for is what the C program does. Printing is not
  modelled. What \<open>malloc\<close> returns is an argument.
\<close>

section \<open>State\<close>

abbreviation MIN_BUF :: size_t where "MIN_BUF \<equiv> 0"
abbreviation BUF_SIZE :: size_t where "BUF_SIZE \<equiv> 1024"

record app_listener =
  al_base :: bool
  al_taps :: ctx
  al_callbacks :: tapsCallbacks

record app_conn =
  ac_l :: addr
  ac_taps :: addr

text \<open>
  The buffer is the first field of \<open>struct app_msg\<close>, so its address is that of the structure;
  its bytes are part of the memory.
\<close>

record app_msg =
  am_taps :: ctx

text \<open>The library's state, the memory of the application, and what ends the program.\<close>

record 'p echo_world =
  sys :: "'p conn_world"
  app_listeners :: "app_listener heap"
  app_conns :: "app_conn heap"
  app_msgs :: "app_msg heap"
  loop_broken :: bool
  exited :: bool

text \<open>What the calls of \<open>malloc\<close> return while one callback runs, in the application and below.\<close>

record echo_alloc =
  ea_send :: "addr option"
  ea_msg :: "addr option"
  ea_taps :: "addr option"
  ea_recv :: "addr option"

definition app_log :: "'p echo_world \<Rightarrow> fault + 'p echo_world \<Rightarrow> 'p echo_world" where
  "app_log e r = (case r of Inl f \<Rightarrow> e\<lparr>sys := add_fault f (sys e)\<rparr> | Inr e' \<Rightarrow> e')"

section \<open>Callbacks\<close>

text \<open>The table \<open>cbs\<close>, with the callbacks numbered in the order of its fields.\<close>

definition cbs :: tapsCallbacks where
  "cbs = \<lparr>cb_connectionReceived = Some 1, cb_establishmentError = Some 2,
     cb_stopped = Some 3, cb_sent = Some 4, cb_expired = Some 5, cb_sendError = Some 6,
     cb_received = Some 7, cb_receivedPartial = Some 8, cb_receiveError = Some 9,
     cb_closed = Some 10, cb_connectionError = Some 11\<rparr>"

text \<open>\<open>tapsMessageFree(m->taps)\<close> on the heap of messages, and \<open>free(m)\<close>.\<close>

definition app_message_free :: "ctx \<Rightarrow> 'p echo_world \<Rightarrow> fault + 'p echo_world" where
  "app_message_free t e =
     andthen (deref_opt (msgs (sys e)) t) (\<lambda>(a, tm).
       Inr (e\<lparr>sys := (sys e)\<lparr>msgs := (msgs (sys e))(a := Some (Freed tm))\<rparr>\<rparr>))"

definition app_msg_free :: "addr \<Rightarrow> 'p echo_world \<Rightarrow> fault + 'p echo_world" where
  "app_msg_free m e = andthen (hfree (app_msgs e) m) (\<lambda>h. Inr (e\<lparr>app_msgs := h\<rparr>))"

definition app_send_error :: "ctx \<Rightarrow> ctx \<Rightarrow> 'p echo_world \<Rightarrow> fault + 'p echo_world" where
  "app_send_error conn msg e =
     andthen (deref_opt (app_msgs e) msg) (\<lambda>(m, am). app_message_free (am_taps am) e)"

definition app_expired :: "ctx \<Rightarrow> ctx \<Rightarrow> 'p echo_world \<Rightarrow> fault + 'p echo_world" where
  "app_expired conn msg e =
     andthen (deref_opt (app_msgs e) msg) (\<lambda>(m, am).
       andthen (app_message_free (am_taps am) e) (app_msg_free m))"

definition app_sent :: "ctx \<Rightarrow> ctx \<Rightarrow> 'p echo_world \<Rightarrow> fault + 'p echo_world" where
  "app_sent conn msg e =
     andthen (deref_opt (app_msgs e) msg) (\<lambda>(m, am).
       andthen (app_message_free (am_taps am) e) (app_msg_free m))"

text \<open>
  The lines that post the next receive, in \<open>_app_received_partial\<close> and in
  \<open>_app_connection_received\<close>: a new buffer with a message over it. Without memory for the
  buffer the program exits, without memory for the message it stops receiving.
\<close>

definition app_post_receive ::
  "'p proto_handles \<Rightarrow> echo_alloc \<Rightarrow> app_conn \<Rightarrow> 'p echo_world \<Rightarrow> fault + 'p echo_world" where
  "app_post_receive h al c e =
     (case ea_msg al of
        None \<Rightarrow> Inr (e\<lparr>exited := True\<rparr>)
      | Some m \<Rightarrow>
          let e1 = e\<lparr>app_msgs := hput (app_msgs e) m \<lparr>am_taps = ea_taps al\<rparr>\<rparr> in
          (case (ea_taps al, snd (tapsMessageNew (ea_taps al \<noteq> None) m BUF_SIZE)) of
             (Some t, Some tm) \<Rightarrow>
               andthen (deref (app_listeners e1) (ac_l c)) (\<lambda>l.
                 let (r, _, w) = tapsConnectionReceive h (ea_recv al) (ac_taps c) (Some m) t MIN_BUF BUF_SIZE
                       (Some (al_callbacks l)) ((sys e1)\<lparr>msgs := hput (msgs (sys e1)) t tm\<rparr>)
                 in Inr (e1\<lparr>sys := w\<rparr>))
           | _ \<Rightarrow> Inr e1))"

text \<open>
  \<open>_app_received_partial\<close>: the message is cut to what was received and sent back. If the send
  is refused the message and its buffer are freed at once. After a fault inside the library the
  value it returns means nothing.
\<close>

definition app_received_partial ::
  "'p proto_handles \<Rightarrow> echo_alloc \<Rightarrow> ctx \<Rightarrow> ctx \<Rightarrow> size_t \<Rightarrow> bool \<Rightarrow> 'p echo_world \<Rightarrow> fault + 'p echo_world" where
  "app_received_partial h al conn msg bytes eom e =
     andthen (deref_opt (app_msgs e) msg) (\<lambda>(m, am).
     andthen (deref_opt (msgs (sys e)) (am_taps am)) (\<lambda>(t, tm).
     andthen (tapsMessageGetFirstBuf tm) (\<lambda>_.
     andthen (tapsMessageTruncate bytes tm) (\<lambda>tm'.
     andthen (deref_opt (app_conns e) conn) (\<lambda>(ca, c).
     andthen (deref (app_listeners e) (ac_l c)) (\<lambda>l.
       let (r, _, w) = tapsConnectionSend h (ea_send al) (ac_taps c) t (Some m) (Some (al_callbacks l))
             ((sys e)\<lparr>msgs := hput (msgs (sys e)) t tm'\<rparr>);
           e1 = e\<lparr>sys := w\<rparr>
       in andthen (if r < 0 then andthen (app_message_free (Some t) e1) (app_msg_free m) else Inr e1)
            (app_post_receive h al c)))))))"

definition app_received ::
  "'p proto_handles \<Rightarrow> echo_alloc \<Rightarrow> ctx \<Rightarrow> ctx \<Rightarrow> size_t \<Rightarrow> 'p echo_world \<Rightarrow> fault + 'p echo_world" where
  "app_received h al conn msg bytes e = app_received_partial h al conn msg bytes True e"

text \<open>\<open>_app_receive_error\<close> frees the buffer and forgets the message over it.\<close>

definition app_receive_error :: "ctx \<Rightarrow> ctx \<Rightarrow> 'p echo_world \<Rightarrow> fault + 'p echo_world" where
  "app_receive_error conn msg e = (case msg of None \<Rightarrow> Inr e | Some m \<Rightarrow> app_msg_free m e)"

text \<open>The error callbacks that \<open>tapsConnectionFree\<close> makes for what is still queued.\<close>

fun app_queue_errors :: "app_event list \<Rightarrow> 'p echo_world \<Rightarrow> fault + 'p echo_world" where
  "app_queue_errors [] e = Inr e"
| "app_queue_errors ((f, SendError conn msg reason) # evs) e =
     andthen (if Some f = cb_sendError cbs then app_send_error conn msg e else Inr e) (app_queue_errors evs)"
| "app_queue_errors ((f, ReceiveError conn msg reason) # evs) e =
     andthen (if Some f = cb_receiveError cbs then app_receive_error conn msg e else Inr e) (app_queue_errors evs)"
| "app_queue_errors (_ # evs) e = app_queue_errors evs e"

definition new_events :: "'p conn_world \<Rightarrow> 'p conn_world \<Rightarrow> app_event list" where
  "new_events w w' = drop (length (trace w)) (trace w')"

definition app_closed :: "ctx \<Rightarrow> 'p echo_world \<Rightarrow> fault + 'p echo_world" where
  "app_closed conn e =
     andthen (deref_opt (app_conns e) conn) (\<lambda>(ca, c).
       let w = tapsConnectionFree (ac_taps c) (sys e) in
       andthen (app_queue_errors (new_events (sys e) w) (e\<lparr>sys := w\<rparr>)) (\<lambda>e1.
       andthen (hfree (app_conns e1) ca) (\<lambda>ch. Inr (e1\<lparr>app_conns := ch\<rparr>))))"

definition app_connection_error :: "ctx \<Rightarrow> 'p echo_world \<Rightarrow> fault + 'p echo_world" where
  "app_connection_error conn e =
     andthen (deref_opt (app_conns e) conn) (\<lambda>(ca, c).
       let w = tapsConnectionFree (ac_taps c) (sys e) in
       andthen (app_queue_errors (new_events (sys e) w) (e\<lparr>sys := w\<rparr>)) (\<lambda>e1.
       andthen (hfree (app_conns e1) ca) (\<lambda>ch. Inr (e1\<lparr>app_conns := ch\<rparr>))))"

text \<open>
  \<open>_app_connection_received\<close>: the context and the callbacks it gives to the library. The
  statement \<open>exit -1;\<close> after a failed allocation is an expression without effect, so the null
  pointer is written through.
\<close>

definition app_connection_received ::
  "'p proto_handles \<Rightarrow> echo_alloc \<Rightarrow> addr option \<Rightarrow> ctx \<Rightarrow> addr \<Rightarrow> 'p echo_world \<Rightarrow>
    fault + ctx \<times> tapsCallbacks option \<times> 'p echo_world" where
  "app_connection_received h al alloc listener conn e =
     (case alloc of
        None \<Rightarrow> Inl NullDeref
      | Some ca \<Rightarrow>
          andthen (deref_opt (app_listeners e) listener) (\<lambda>(la, l).
            let c = \<lparr>ac_l = la, ac_taps = conn\<rparr> in
            andthen (app_post_receive h al c (e\<lparr>app_conns := hput (app_conns e) ca c\<rparr>)) (\<lambda>e1.
              Inr (Some ca, Some (al_callbacks l), e1))))"

definition app_stopped :: "ctx \<Rightarrow> 'p echo_world \<Rightarrow> fault + 'p echo_world" where
  "app_stopped listener e =
     andthen (deref_opt (app_listeners e) listener) (\<lambda>_. Inr (e\<lparr>loop_broken := True\<rparr>))"

text \<open>
  The callback of the table \<open>cbs\<close> that an event asks for. That for a new connection runs inside the
  library's handler, see \<open>echo_accept\<close>, and the library makes no call for an establishment error.
\<close>

fun app_event ::
  "'p proto_handles \<Rightarrow> echo_alloc \<Rightarrow> app_event \<Rightarrow> 'p echo_world \<Rightarrow> fault + 'p echo_world" where
  "app_event h al (f, Stopped l) e = (if Some f = cb_stopped cbs then app_stopped l e else Inr e)"
| "app_event h al (f, Sent c m) e = (if Some f = cb_sent cbs then app_sent c m e else Inr e)"
| "app_event h al (f, Expired c m) e = (if Some f = cb_expired cbs then app_expired c m e else Inr e)"
| "app_event h al (f, SendError c m r) e = (if Some f = cb_sendError cbs then app_send_error c m e else Inr e)"
| "app_event h al (f, Received c m n) e = (if Some f = cb_received cbs then app_received h al c m n e else Inr e)"
| "app_event h al (f, ReceivedPartial c m n eom) e =
     (if Some f = cb_receivedPartial cbs then app_received_partial h al c m n eom e else Inr e)"
| "app_event h al (f, ReceiveError c m r) e = (if Some f = cb_receiveError cbs then app_receive_error c m e else Inr e)"
| "app_event h al (f, Closed c) e = (if Some f = cb_closed cbs then app_closed c e else Inr e)"
| "app_event h al (f, ConnectionError c r) e = (if Some f = cb_connectionError cbs then app_connection_error c e else Inr e)"
| "app_event h al (f, ConnectionReceived l c) e = Inr e"
| "app_event h al (f, EstablishmentError l r) e = Inr e"

fun app_events ::
  "'p proto_handles \<Rightarrow> echo_alloc \<Rightarrow> app_event list \<Rightarrow> 'p echo_world \<Rightarrow> fault + 'p echo_world" where
  "app_events h al [] e = Inr e"
| "app_events h al (x # xs) e = andthen (app_event h al x e) (app_events h al xs)"

text \<open>A function of the library followed by the callbacks it asked for.\<close>

definition deliver ::
  "'p proto_handles \<Rightarrow> echo_alloc \<Rightarrow> ('p conn_world \<Rightarrow> 'p conn_world) \<Rightarrow> 'p echo_world \<Rightarrow> 'p echo_world" where
  "deliver h al op e =
     (let w = op (sys e); e1 = e\<lparr>sys := w\<rparr> in app_log e1 (app_events h al (new_events (sys e) w) e1))"

definition app_sighandler ::
  "'p proto_handles \<Rightarrow> echo_alloc \<Rightarrow> ctx \<Rightarrow> 'p echo_world \<Rightarrow> 'p echo_world" where
  "app_sighandler h al arg e =
     app_log e (andthen (deref_opt (app_listeners e) arg) (\<lambda>(la, l).
       Inr (deliver h al (\<lambda>w. snd (snd (tapsListenerStop h (al_taps l) (Some (al_callbacks l)) w))) e)))"

section \<open>A connection that waits for data\<close>

definition echo_message :: "addr \<Rightarrow> size_t \<Rightarrow> tapsMessage" where
  "echo_message m n = \<lparr>buf = \<lparr>iov_base = m, iov_len = n\<rparr>, list_m = None, iovcnt = 1\<rparr>"

definition posted_item :: "addr \<Rightarrow> addr \<Rightarrow> addr \<Rightarrow> recv_item" where
  "posted_item c m t = \<lparr>next_i = None, prev_i = None, r_message = t, minLength = MIN_BUF, maxLength = BUF_SIZE,
     currLength = 0, r_connection = c, r_app_ctx = Some m, r_received = Some 7, r_receivedPartial = Some 8,
     r_receiveError = Some 9\<rparr>"

definition reply_item :: "addr \<Rightarrow> addr \<Rightarrow> addr \<Rightarrow> send_item" where
  "reply_item c m t = \<lparr>next_i = None, prev_i = None, s_message = t, s_connection = c, s_app_ctx = Some m,
     s_sent = Some 4, s_expired = Some 5, s_sendError = Some 6\<rparr>"

text \<open>
  The connection \<open>c\<close> of the application's connection \<open>ca\<close> has one receive \<open>r\<close> posted, for
  the buffer \<open>m\<close> with the message \<open>t\<close>, and at most one send under way: \<open>q\<close> names its item,
  buffer and message.
\<close>

definition echo_ok ::
  "ctx \<Rightarrow> addr \<Rightarrow> addr \<Rightarrow> addr \<Rightarrow> addr \<Rightarrow> addr \<Rightarrow> addr \<Rightarrow> (addr \<times> addr \<times> addr) option \<Rightarrow> 'p echo_world \<Rightarrow> bool" where
  "echo_ok pctx c ca la r m t q e \<longleftrightarrow>
     (\<exists>cn. cheap (sys e) c = Some (Live cn) \<and> c_app_ctx cn = Some ca \<and> c_proto_ctx cn = pctx \<and>
        \<not> receiveReady cn \<and> sendReady cn \<and> c_closed cn = Some 10 \<and> c_listener cn \<noteq> None) \<and>
     app_conns e ca = Some (Live \<lparr>ac_l = la, ac_taps = c\<rparr>) \<and>
     (\<exists>l. app_listeners e la = Some (Live l) \<and> al_callbacks l = cbs) \<and>
     recv_ok c [r] (sys e) \<and> view (rheap (sys e)) r = Some (posted_item c m t) \<and>
     app_msgs e m = Some (Live \<lparr>am_taps = Some t\<rparr>) \<and> msgs (sys e) t = Some (Live (echo_message m BUF_SIZE)) \<and>
     send_ok c (case q of None \<Rightarrow> [] | Some (a, _) \<Rightarrow> [a]) (sys e) \<and>
     (case q of None \<Rightarrow> True
      | Some (a, m', t') \<Rightarrow> m' \<noteq> m \<and> t' \<noteq> t \<and> view (sheap (sys e)) a = Some (reply_item c m' t') \<and>
          app_msgs e m' = Some (Live \<lparr>am_taps = Some t'\<rparr>))"

lemma echo_truncate:
  "n \<le> BUF_SIZE \<Longrightarrow> tapsMessageTruncate n (echo_message m BUF_SIZE) = Inr (echo_message m n)"
  by (simp add: tapsMessageTruncate_def echo_message_def msg_vec_def set_msg_vec_def not_less)

lemma echo_message_simps [simp]:
  "msg_vec (echo_message m n) = [\<lparr>iov_base = m, iov_len = n\<rparr>]" "iovcnt (echo_message m n) = 1"
  "msg_ok (echo_message m n)" "snd (tapsMessageNew True m n) = Some (echo_message m n)"
  "tapsMessageGetFirstBuf (echo_message m n) = Inr (m, n)"
  by (simp_all add: echo_message_def msg_vec_def msg_ok_def tapsMessageNew_def tapsMessageGetFirstBuf_def)

lemma new_events_snoc [simp]: "trace w' = trace w @ evs \<Longrightarrow> new_events w w' = evs"
  by (simp add: new_events_def)

text \<open>Posting a receive with fresh memory on a connection that has none.\<close>

lemma send_ok_cong:
  assumes "send_ok c xs w" "sheap w' = sheap w" "\<And>t. allocated (msgs w) t \<Longrightarrow> allocated (msgs w') t"
    "cheap w' c = Some (Live cn')" "c_handles cn' \<noteq> None"
    "\<exists>cn. cheap w c = Some (Live cn) \<and> sndq cn' = sndq cn"
  shows "send_ok c xs w'"
  using assms unfolding send_ok_def by fastforce

lemma post_receive_any:
  assumes ok: "recv_ok c [] (sys e)"
    and cn: "cheap (sys e) c = Some (Live cn)" "receiveReady cn" "c_proto_ctx cn = pctx"
    and l: "app_listeners e la = Some (Live l)" "al_callbacks l = cbs"
    and fresh: "\<not> allocated (rheap (sys e)) r"
    and al: "ea_msg al = Some m" "ea_taps al = Some t" "ea_recv al = Some r"
  shows "\<exists>w. app_post_receive h al \<lparr>ac_l = la, ac_taps = c\<rparr> e =
      Inr (e\<lparr>app_msgs := hput (app_msgs e) m \<lparr>am_taps = Some t\<rparr>, sys := w\<rparr>) \<and>
    recv_ok c [r] w \<and> view (rheap w) r = Some (posted_item c m t) \<and>
    cheap w = hput (cheap (sys e)) c (cn\<lparr>rcvq := Some r, receiveReady := False\<rparr>) \<and>
    msgs w = hput (msgs (sys e)) t (echo_message m BUF_SIZE) \<and> sheap w = sheap (sys e) \<and>
    trace w = trace (sys e) \<and> faults w = faults (sys e) \<and> lst w = lst (sys e) \<and>
    proto w = h_receive h pctx r None [\<lparr>iov_base = m, iov_len = BUF_SIZE\<rparr>] 1 (proto (sys e)) \<and>
    (\<forall>b. b \<noteq> r \<longrightarrow> rheap w b = rheap (sys e) b)"
proof -
  let ?w = "(sys e)\<lparr>msgs := hput (msgs (sys e)) t (echo_message m BUF_SIZE)\<rparr>"
  have r0: "recv_ok c [] ?w" using ok by (auto simp: recv_ok_def)
  from recv_new_ok [OF r0, of cn r t "echo_message m BUF_SIZE" cbs h "Some m" MIN_BUF BUF_SIZE] cn fresh
  obtain w where w: "tapsConnectionReceive h (Some r) c (Some m) t MIN_BUF BUF_SIZE (Some cbs) ?w = (0, None, w)"
    "recv_ok c [r] w" "trace w = trace ?w" "faults w = faults ?w" "msgs w = msgs ?w" "sheap w = sheap ?w"
    "lst w = lst ?w" "cheap w = hput (cheap ?w) c (cn\<lparr>rcvq := Some r, receiveReady := False\<rparr>)"
    "view (rheap w) r = Some (posted_item c m t)"
    "proto w = h_receive h pctx r None [\<lparr>iov_base = m, iov_len = BUF_SIZE\<rparr>] 1 (proto ?w)"
    by (auto simp: cbs_def posted_item_def)
  moreover have "rheap w b = rheap (sys e) b" if "b \<noteq> r" for b
    using receive_local [OF r0 _ _ _ w(1) that] cn fresh by simp
  ultimately show ?thesis using al l by (auto simp: app_post_receive_def)
qed

lemma post_receive_ok:
  assumes ok: "recv_ok c [] (sys e)" "send_ok c xs (sys e)"
    and cn: "cheap (sys e) c = Some (Live cn)" "receiveReady cn" "c_proto_ctx cn = pctx"
    and l: "app_listeners e la = Some (Live l)" "al_callbacks l = cbs"
    and fresh: "\<not> allocated (rheap (sys e)) r" "\<not> allocated (msgs (sys e)) t"
    and al: "ea_msg al = Some m" "ea_taps al = Some t" "ea_recv al = Some r"
  shows "\<exists>w. app_post_receive h al \<lparr>ac_l = la, ac_taps = c\<rparr> e =
      Inr (e\<lparr>app_msgs := hput (app_msgs e) m \<lparr>am_taps = Some t\<rparr>, sys := w\<rparr>) \<and>
    recv_ok c [r] w \<and> send_ok c xs w \<and> view (rheap w) r = Some (posted_item c m t) \<and>
    cheap w = hput (cheap (sys e)) c (cn\<lparr>rcvq := Some r, receiveReady := False\<rparr>) \<and>
    msgs w = hput (msgs (sys e)) t (echo_message m BUF_SIZE) \<and> sheap w = sheap (sys e) \<and>
    trace w = trace (sys e) \<and> faults w = faults (sys e) \<and> lst w = lst (sys e) \<and>
    proto w = h_receive h pctx r None [\<lparr>iov_base = m, iov_len = BUF_SIZE\<rparr>] 1 (proto (sys e)) \<and>
    (\<forall>b. b \<noteq> r \<longrightarrow> rheap w b = rheap (sys e) b)"
proof -
  from post_receive_any [OF ok(1) cn l fresh(1) al, of h] obtain w where
    w: "app_post_receive h al \<lparr>ac_l = la, ac_taps = c\<rparr> e =
      Inr (e\<lparr>app_msgs := hput (app_msgs e) m \<lparr>am_taps = Some t\<rparr>, sys := w\<rparr>)"
    "recv_ok c [r] w" "view (rheap w) r = Some (posted_item c m t)"
    "cheap w = hput (cheap (sys e)) c (cn\<lparr>rcvq := Some r, receiveReady := False\<rparr>)"
    "msgs w = hput (msgs (sys e)) t (echo_message m BUF_SIZE)" "sheap w = sheap (sys e)"
    "trace w = trace (sys e)" "faults w = faults (sys e)" "lst w = lst (sys e)"
    "proto w = h_receive h pctx r None [\<lparr>iov_base = m, iov_len = BUF_SIZE\<rparr>] 1 (proto (sys e))"
    "\<forall>b. b \<noteq> r \<longrightarrow> rheap w b = rheap (sys e) b" by blast
  have "send_ok c xs w"
    by (rule send_ok_cong [OF ok(2), where cn' = "cn\<lparr>rcvq := Some r, receiveReady := False\<rparr>"])
      (use w ok(2) cn in \<open>auto simp: send_ok_def allocated_def\<close>)
  with w show ?thesis by blast
qed

text \<open>
  What the handler of arriving data does to a waiting connection: the message is cut, sent with the
  item \<open>a\<close>, and a fresh buffer is posted. \<open>al\<close> names fresh memory.
\<close>

definition fresh_alloc :: "addr \<Rightarrow> addr \<Rightarrow> addr \<Rightarrow> addr \<Rightarrow> 'p echo_world \<Rightarrow> bool" where
  "fresh_alloc a m t r e \<longleftrightarrow> \<not> allocated (sheap (sys e)) a \<and> \<not> allocated (app_msgs e) m \<and>
     \<not> allocated (msgs (sys e)) t \<and> \<not> allocated (rheap (sys e)) r"

definition take_alloc :: "addr \<Rightarrow> addr \<Rightarrow> addr \<Rightarrow> addr \<Rightarrow> echo_alloc" where
  "take_alloc a m t r = \<lparr>ea_send = Some a, ea_msg = Some m, ea_taps = Some t, ea_recv = Some r\<rparr>"

lemma take_alloc_simps [simp]:
  "ea_send (take_alloc a m t r) = Some a" "ea_msg (take_alloc a m t r) = Some m"
  "ea_taps (take_alloc a m t r) = Some t" "ea_recv (take_alloc a m t r) = Some r"
  by (simp_all add: take_alloc_def)

text \<open>The library's part of it.\<close>

lemma echo_partial:
  assumes ok: "echo_ok pctx c ca la r m t q e" and w: "w = taps_received_partial h va r None n (sys e)"
  shows "recv_ok c [] w \<and> send_ok c (case q of None \<Rightarrow> [] | Some (a, _) \<Rightarrow> [a]) w \<and> sheap w = sheap (sys e) \<and>
    msgs w = msgs (sys e) \<and> lst w = lst (sys e) \<and> proto w = proto (sys e) \<and>
    trace w = trace (sys e) @ [(8, ReceivedPartial (Some ca) (Some m) n False)] \<and>
    faults w = faults (sys e) @ [UseAfterFree] \<and>
    (\<forall>b. \<not> allocated (rheap (sys e)) b \<longrightarrow> \<not> allocated (rheap w) b) \<and>
    (\<exists>cn. cheap w c = Some (Live cn) \<and> receiveReady cn \<and> sendReady cn \<and> c_proto_ctx cn = pctx \<and>
      c_app_ctx cn = Some ca \<and> c_closed cn = Some 10 \<and> c_listener cn \<noteq> None) \<and> apart {} c (sys e) w"
proof -
  from ok obtain cn where cn: "cheap (sys e) c = Some (Live cn)" "c_app_ctx cn = Some ca" "c_proto_ctx cn = pctx"
    "sendReady cn" "c_closed cn = Some 10" "c_listener cn \<noteq> None" and r: "recv_ok c ([] @ r # []) (sys e)" and v: "view (rheap (sys e)) r = Some (posted_item c m t)"
    by (auto simp: echo_ok_def)
  from v obtain it where it: "rheap (sys e) r = Some (Live it)" "posted_item c m t = it\<lparr>next_i := None, prev_i := None\<rparr>"
    by (rule view_SomeE)
  then have f: "currLength it = 0" "minLength it = 0" "r_receivedPartial it = Some 8" "r_app_ctx it = Some m"
    by (cases it, simp add: posted_item_def)+
  have p: "recv_ok c [] w" "msgs w = msgs (sys e)" "sheap w = sheap (sys e)" "lst w = lst (sys e)"
    "trace w = trace (sys e) @ [(8, ReceivedPartial (Some ca) (Some m) n False)]"
    "faults w = faults (sys e) @ [UseAfterFree]" "\<forall>b. b \<noteq> r \<longrightarrow> view (rheap w) b = view (rheap (sys e)) b"
    "\<exists>q. cheap w = hput (cheap (sys e)) c (cn\<lparr>receiveReady := True, rcvq := q\<rparr>)" "proto w = proto (sys e)"
    using partial_enough [OF r cn(1) it(1) _ _ f(3) w] f cn by (simp_all add: free_data_def)
  have live: "allocated (rheap x) b \<longleftrightarrow> view (rheap x) b \<noteq> None" for x :: "'a conn_world" and b
    by (auto simp: allocated_def view_def payload_def split: option.splits cell.splits)
  have "\<not> allocated (rheap (sys e)) b \<longrightarrow> \<not> allocated (rheap w) b" for b
    using p(7) it(1) live by (cases "b = r") (auto simp: allocated_def)
  moreover have "send_ok c (case q of None \<Rightarrow> [] | Some (a, _) \<Rightarrow> [a]) w"
    using ok p(2,3,8) cn by (auto simp: echo_ok_def send_ok_def)
  moreover have "apart {} c (sys e) w"
  proof -
    have "rheap w b = rheap (sys e) b" if "rheap (sys e) b = Some (Live k)" "r_connection k \<noteq> c" for b k
      using partial_enough_local [OF r it(1), of n None "sys e" b h va] recv_ok_items [OF r _ it(1)] it(1) w f that
      by (cases "b = r") (simp_all add: free_data_def)
    then show ?thesis using p(2,3,8) by (auto simp: apart_def)
  qed
  ultimately show ?thesis using p cn by auto
qed

lemma echo_send_back:
  assumes ok: "send_ok c xs w" "recv_ok c [] w" and cn: "cheap w c = Some (Live cn)" "sendReady cn" "c_proto_ctx cn = pctx"
    and a: "\<not> allocated (sheap w) a"
    and s: "h_send h pctx a [\<lparr>iov_base = m, iov_len = n\<rparr>] 1 (proto w) = (v, p1)"
  shows "\<exists>w2. tapsConnectionSend h (Some a) c t (Some m) (Some cbs) (w\<lparr>msgs := hput (msgs w) t (echo_message m n)\<rparr>) =
      (v, None, w2) \<and> send_ok c (xs @ [a]) w2 \<and> recv_ok c [] w2 \<and>
    send_frame (w\<lparr>msgs := hput (msgs w) t (echo_message m n)\<rparr>) w2 \<and>
    cheap w2 = hput (cheap w) c (cn\<lparr>sndq := Some a\<rparr>) \<and> view (sheap w2) a = Some (reply_item c m t) \<and> proto w2 = p1 \<and>
    (\<forall>b. b \<noteq> a \<longrightarrow> view (sheap w2) b = view (sheap w) b) \<and> apart {t} c w w2"
proof -
  let ?w = "w\<lparr>msgs := hput (msgs w) t (echo_message m n)\<rparr>"
  have s0: "send_ok c xs ?w"
    by (rule send_ok_cong [OF ok(1), where cn' = cn]) (use cn ok(1) in \<open>auto simp: send_ok_def allocated_def\<close>)
  from send_new_ok [OF s0 _ _, of cn a t "echo_message m n" h "Some m" cbs] assms
  obtain w2 where w2: "tapsConnectionSend h (Some a) c t (Some m) (Some cbs) ?w = (v, None, w2)"
    "send_ok c (xs @ [a]) w2" "send_frame ?w w2" "cheap w2 = hput (cheap w) c (cn\<lparr>sndq := Some a\<rparr>)"
    "view (sheap w2) a = Some (reply_item c m t)" "proto w2 = p1" "\<forall>b. b \<noteq> a \<longrightarrow> view (sheap w2) b = view (sheap w) b"
    by (auto simp: reply_item_def cbs_def)
  moreover have "recv_ok c [] w2" using ok(2) cn(1) w2(3,4) by (auto simp: recv_ok_def send_frame_def)
  moreover have "apart {t} c w w2"
  proof -
    have "recv_ok c [] ?w" using ok(2) by (simp add: recv_ok_def)
    from only_send [OF s0 this _ _ w2(1)] a have "apart {t} c ?w w2" by (intro apart_conn) (simp add: allocated_def)
    moreover have "apart {t} c w ?w" by (rule apart_heaps) simp_all
    ultimately show ?thesis by (metis apart_trans)
  qed
  ultimately show ?thesis by blast
qed

lemma echo_read_ok:
  assumes ok: "echo_ok pctx c ca la r m t None e" and fresh: "fresh_alloc a m2 t2 r2 e" and n: "n \<le> BUF_SIZE"
    and s: "h_send h pctx a [\<lparr>iov_base = m, iov_len = n\<rparr>] 1 (proto (sys e)) = (v, p1)" "0 \<le> v"
    and e': "e' = deliver h (take_alloc a m2 t2 r2) (taps_received_partial h va r None n) e"
  shows "echo_ok pctx c ca la r2 m2 t2 (Some (a, m, t)) e' \<and>
    proto (sys e') = h_receive h pctx r2 None [\<lparr>iov_base = m2, iov_len = BUF_SIZE\<rparr>] 1 p1 \<and>
    faults (sys e') = faults (sys e) @ [UseAfterFree] \<and> lst (sys e') = lst (sys e) \<and>
    app_msgs e' = hput (app_msgs e) m2 \<lparr>am_taps = Some t2\<rparr> \<and>
    msgs (sys e') = hput (hput (msgs (sys e)) t (echo_message m n)) t2 (echo_message m2 BUF_SIZE) \<and>
    exited e' = exited e \<and> apart {t, t2} c (sys e) (sys e') \<and> app_conns e' = app_conns e \<and>
    app_listeners e' = app_listeners e \<and> loop_broken e' = loop_broken e"
proof -
  define w where "w = taps_received_partial h va r None n (sys e)"
  from ok obtain l where app: "app_conns e ca = Some (Live \<lparr>ac_l = la, ac_taps = c\<rparr>)"
    "app_listeners e la = Some (Live l)" "al_callbacks l = cbs" "app_msgs e m = Some (Live \<lparr>am_taps = Some t\<rparr>)"
    "msgs (sys e) t = Some (Live (echo_message m BUF_SIZE))" by (auto simp: echo_ok_def)
  note part = echo_partial [OF ok w_def]
  then obtain cn where cn: "cheap w c = Some (Live cn)" "receiveReady cn" "sendReady cn" "c_proto_ctx cn = pctx"
    "c_app_ctx cn = Some ca" "c_closed cn = Some 10" "c_listener cn \<noteq> None" by blast
  let ?w1 = "w\<lparr>msgs := hput (msgs w) t (echo_message m n)\<rparr>"
  obtain w2 where w2: "tapsConnectionSend h (Some a) c t (Some m) (Some cbs) ?w1 = (v, None, w2)"
    "send_ok c [a] w2" "recv_ok c [] w2" "send_frame ?w1 w2" "cheap w2 = hput (cheap w) c (cn\<lparr>sndq := Some a\<rparr>)"
    "view (sheap w2) a = Some (reply_item c m t)" "proto w2 = p1" "apart {t} c w w2"
    using echo_send_back [of c "[]" w cn pctx a h m n v p1 t] part cn fresh s(1) by (auto simp: fresh_alloc_def)
  note fr = w2(4) [unfolded send_frame_def, simplified]
  let ?e2 = "e\<lparr>sys := w2\<rparr>"
  have r2: "recv_ok c [] (sys ?e2)" using w2(3) by simp
  have f2: "\<not> allocated (rheap (sys ?e2)) r2" "\<not> allocated (msgs (sys ?e2)) t2" "t2 \<noteq> t"
    using fr part fresh app(5) by (auto simp: fresh_alloc_def allocated_def)
  from post_receive_ok [OF r2, of "[a]" "cn\<lparr>sndq := Some a\<rparr>" pctx la l r2 t2 "take_alloc a m2 t2 r2" m2 h]
    w2 cn app(2,3) f2(1,2)
  obtain w3 where w3: "app_post_receive h (take_alloc a m2 t2 r2) \<lparr>ac_l = la, ac_taps = c\<rparr> ?e2 =
      Inr (?e2\<lparr>app_msgs := hput (app_msgs ?e2) m2 \<lparr>am_taps = Some t2\<rparr>, sys := w3\<rparr>)"
    "recv_ok c [r2] w3" "send_ok c [a] w3" "view (rheap w3) r2 = Some (posted_item c m2 t2)"
    "cheap w3 = hput (cheap w2) c (cn\<lparr>sndq := Some a, rcvq := Some r2, receiveReady := False\<rparr>)"
    "msgs w3 = hput (msgs w2) t2 (echo_message m2 BUF_SIZE)" "sheap w3 = sheap w2" "faults w3 = faults w2" "lst w3 = lst w2"
    "proto w3 = h_receive h pctx r2 None [\<lparr>iov_base = m2, iov_len = BUF_SIZE\<rparr>] 1 p1"
    "\<forall>b. b \<noteq> r2 \<longrightarrow> rheap w3 b = rheap w2 b"
    by auto
  have "app_event h (take_alloc a m2 t2 r2) (8, ReceivedPartial (Some ca) (Some m) n False) (e\<lparr>sys := w\<rparr>) =
      Inr (?e2\<lparr>app_msgs := hput (app_msgs ?e2) m2 \<lparr>am_taps = Some t2\<rparr>, sys := w3\<rparr>)"
    using app part w2(1) s(2) w3(1) echo_truncate [OF n, of m]
    by (simp add: app_received_partial_def) (simp add: cbs_def)
  then have e3: "e' = e\<lparr>sys := w3, app_msgs := hput (app_msgs e) m2 \<lparr>am_taps = Some t2\<rparr>\<rparr>"
    using part by (simp add: e' deliver_def w_def [symmetric] app_log_def Let_def)
  have "m2 \<noteq> m" using fresh app(4) by (auto simp: fresh_alloc_def allocated_def)
  then have "echo_ok pctx c ca la r2 m2 t2 (Some (a, m, t)) e'"
    using app w2 w3 cn part fr f2(3) by (simp add: e3 echo_ok_def)
  moreover have "apart {t, t2} c (sys e) w3"
  proof -
    have "apart {t, t2} c (sys e) w" "apart {t, t2} c w w2" using part w2(8) by (auto elim: apart_mono)
    moreover have "apart {t, t2} c w2 w3" using w3 f2(1) by (auto simp: apart_def allocated_def)
    ultimately show ?thesis by (metis apart_trans)
  qed
  ultimately show ?thesis using w2 w3 part fr by (simp add: e3)
qed

text \<open>The report that the send is complete: the callback frees the message and its buffer.\<close>

lemma echo_sent_ok:
  assumes ok: "echo_ok pctx c ca la r m t (Some (a, m', t')) e" and e': "e' = deliver h al (taps_sent h a) e"
  shows "echo_ok pctx c ca la r m t None e' \<and> proto (sys e') = proto (sys e) \<and>
    faults (sys e') = faults (sys e) \<and> lst (sys e') = lst (sys e) \<and> exited e' = exited e \<and>
    app_msgs e' = (app_msgs e)(m' := Some (Freed \<lparr>am_taps = Some t'\<rparr>)) \<and>
    (\<exists>tm. msgs (sys e') = (msgs (sys e))(t' := Some (Freed tm))) \<and> apart {t'} c (sys e) (sys e') \<and>
    app_conns e' = app_conns e \<and> app_listeners e' = app_listeners e \<and> loop_broken e' = loop_broken e"
proof -
  define w where "w = taps_sent h a (sys e)"
  from ok obtain cn where cn: "cheap (sys e) c = Some (Live cn)" "c_app_ctx cn = Some ca" "c_proto_ctx cn = pctx"
      "\<not> receiveReady cn" "sendReady cn" "c_closed cn = Some 10" "c_listener cn \<noteq> None"
    and s: "send_ok c ([] @ a # []) (sys e)" "view (sheap (sys e)) a = Some (reply_item c m' t')"
    and app: "app_msgs e m' = Some (Live \<lparr>am_taps = Some t'\<rparr>)" "m' \<noteq> m" "t' \<noteq> t"
    and r: "recv_ok c [r] (sys e)" "view (rheap (sys e)) r = Some (posted_item c m t)"
    by (auto simp: echo_ok_def)
  have w: "w = outcome_op h OSent a (sys e)" by (simp add: w_def)
  have p: "send_ok c [] w" "send_frame (sys e) w" "trace w = trace (sys e) @ [(4, Sent (Some ca) (Some m'))]"
    "\<exists>q. cheap w = hput (cheap (sys e)) c (cn\<lparr>sndq := q, sendReady := True\<rparr>)" "proto w = proto (sys e)"
    using outcome_ok [OF s(1) cn(1) s(2) _ w, of 4] cn(2) by (auto simp: reply_item_def)
  note fr = p(2) [unfolded send_frame_def]
  obtain tm where tm: "msgs (sys e) t' = Some (Live tm)"
    using s by (auto simp: send_ok_def reply_item_def allocated_def)
  let ?w = "w\<lparr>msgs := (msgs (sys e))(t' := Some (Freed tm))\<rparr>"
  have "e' = e\<lparr>sys := ?w, app_msgs := (app_msgs e)(m' := Some (Freed \<lparr>am_taps = Some t'\<rparr>))\<rparr>"
    using p(3) app tm fr
    by (simp add: e' deliver_def w_def [symmetric] app_log_def Let_def app_sent_def app_message_free_def
        app_msg_free_def) (simp add: cbs_def)
  moreover have "recv_ok c [r] ?w"
    using r app(3) p(4) fr cn(1) by (auto simp: recv_ok_def recv_item_ok_def posted_item_def)
  moreover have "send_ok c [] ?w" using p(1) by (simp add: send_ok_def)
  moreover have "apart {t'} c (sys e) ?w"
  proof -
    have "apart {t'} c (sys e) w" unfolding w by (rule apart_conn [OF only_outcome [OF s(1) r(1) s(2)]]) (simp add: reply_item_def)
    moreover have "apart {t'} c w ?w" by (rule apart_heaps) (simp_all add: fr)
    ultimately show ?thesis by (rule apart_trans)
  qed
  ultimately show ?thesis using ok p(4,5) fr app cn by (auto simp: echo_ok_def)
qed

text \<open>
  Data that arrive while the reply to earlier data is under way: if the protocol refuses the second
  send, \<open>tapsConnectionSend\<close> reports an error but keeps the item queued, and the application
  frees the message the item points to.
\<close>

lemma echo_overlap_read:
  assumes ok: "echo_ok pctx c ca la r m t (Some (a, m', t')) e" and fresh: "fresh_alloc a2 m2 t2 r2 e" and n: "n \<le> BUF_SIZE"
    and s: "h_send h pctx a2 [\<lparr>iov_base = m, iov_len = n\<rparr>] 1 (proto (sys e)) = (v, p1)" "v < 0"
    and e': "e' = deliver h (take_alloc a2 m2 t2 r2) (taps_received_partial h va r None n) e"
  shows "(\<exists>cn. cheap (sys e') c = Some (Live cn) \<and> item_queue (sheap (sys e')) (sndq cn) [a, a2]) \<and>
    view (sheap (sys e')) a = Some (reply_item c m' t') \<and> view (sheap (sys e')) a2 = Some (reply_item c m t) \<and>
    msgs (sys e') t = Some (Freed (echo_message m n)) \<and> faults (sys e') = faults (sys e) @ [UseAfterFree] \<and>
    proto (sys e') = h_receive h pctx r2 None [\<lparr>iov_base = m2, iov_len = BUF_SIZE\<rparr>] 1 p1"
proof -
  define w where "w = taps_received_partial h va r None n (sys e)"
  from ok obtain l where app: "app_conns e ca = Some (Live \<lparr>ac_l = la, ac_taps = c\<rparr>)"
    "app_listeners e la = Some (Live l)" "al_callbacks l = cbs" "app_msgs e m = Some (Live \<lparr>am_taps = Some t\<rparr>)"
    "msgs (sys e) t = Some (Live (echo_message m BUF_SIZE))" "view (sheap (sys e)) a = Some (reply_item c m' t')"
    by (auto simp: echo_ok_def)
  note part = echo_partial [OF ok w_def, simplified]
  then obtain cn where cn: "cheap w c = Some (Live cn)" "receiveReady cn" "sendReady cn" "c_proto_ctx cn = pctx" by blast
  let ?w1 = "w\<lparr>msgs := hput (msgs w) t (echo_message m n)\<rparr>"
  obtain w2 where w2: "tapsConnectionSend h (Some a2) c t (Some m) (Some cbs) ?w1 = (v, None, w2)"
    "send_ok c [a, a2] w2" "recv_ok c [] w2" "send_frame ?w1 w2" "cheap w2 = hput (cheap w) c (cn\<lparr>sndq := Some a2\<rparr>)"
    "view (sheap w2) a2 = Some (reply_item c m t)" "proto w2 = p1" "\<forall>b. b \<noteq> a2 \<longrightarrow> view (sheap w2) b = view (sheap w) b"
    using echo_send_back [of c "[a]" w cn pctx a2 h m n v p1 t] part cn fresh s(1) by (auto simp: fresh_alloc_def)
  note fr = w2(4) [unfolded send_frame_def, simplified]
  let ?w3 = "w2\<lparr>msgs := (msgs w2)(t := Some (Freed (echo_message m n)))\<rparr>"
  let ?e3 = "e\<lparr>sys := ?w3, app_msgs := (app_msgs e)(m := Some (Freed \<lparr>am_taps = Some t\<rparr>))\<rparr>"
  have f: "\<not> allocated (rheap (sys ?e3)) r2" "t2 \<noteq> t" "a \<noteq> a2"
    using fr part fresh app(5,6) by (auto simp: fresh_alloc_def allocated_def elim!: view_SomeE)
  have "recv_ok c [] (sys ?e3)" using w2(3) by (simp add: recv_ok_def)
  from post_receive_any [OF this, of "cn\<lparr>sndq := Some a2\<rparr>" pctx la l r2 "take_alloc a2 m2 t2 r2" m2 t2 h] w2(5) cn app(2,3) f(1)
  obtain w4 where w4: "app_post_receive h (take_alloc a2 m2 t2 r2) \<lparr>ac_l = la, ac_taps = c\<rparr> ?e3 =
      Inr (?e3\<lparr>app_msgs := hput (app_msgs ?e3) m2 \<lparr>am_taps = Some t2\<rparr>, sys := w4\<rparr>)"
    "cheap w4 = hput (cheap w2) c (cn\<lparr>sndq := Some a2, rcvq := Some r2, receiveReady := False\<rparr>)"
    "msgs w4 = hput (msgs ?w3) t2 (echo_message m2 BUF_SIZE)" "sheap w4 = sheap w2" "faults w4 = faults w2"
    "proto w4 = h_receive h pctx r2 None [\<lparr>iov_base = m2, iov_len = BUF_SIZE\<rparr>] 1 (proto w2)"
    by auto
  have "app_event h (take_alloc a2 m2 t2 r2) (8, ReceivedPartial (Some ca) (Some m) n False) (e\<lparr>sys := w\<rparr>) =
      Inr (?e3\<lparr>app_msgs := hput (app_msgs ?e3) m2 \<lparr>am_taps = Some t2\<rparr>, sys := w4\<rparr>)"
    using app part w2(1) fr s(2) w4(1) echo_truncate [OF n, of m]
    by (simp add: app_received_partial_def app_message_free_def app_msg_free_def) (simp add: cbs_def)
  then have "sys e' = w4"
    using part by (simp add: e' deliver_def w_def [symmetric] app_log_def Let_def)
  then show ?thesis using w2 w4 f fr part app(6) by (auto simp: send_ok_def)
qed

text \<open>The completion of the first reply then hands the freed message to the protocol.\<close>

lemma sent_next_freed:
  assumes "cheap w c = Some (Live cn)" "item_queue (sheap w) (sndq cn) [a, b]"
    "view (sheap w) a = Some (reply_item c m t)" "view (sheap w) b = Some (reply_item c m' t')" "msgs w t' = Some (Freed tm)"
  shows "taps_sent h a w = add_fault UseAfterFree w"
proof -
  from assms(3) obtain it where it: "sheap w a = Some (Live it)" "reply_item c m t = it\<lparr>next_i := None, prev_i := None\<rparr>"
    by (rule view_SomeE)
  then have c: "s_connection it = c" by (cases it) (simp add: reply_item_def)
  have nx: "next_i it = Some b" "b \<noteq> a" using assms(2) it(1) by (auto simp: item_queue_def)
  from delete_item_queue [of "sheap w" "sndq cn" "[]" a "[b]", OF _ it(1)] assms(2) obtain h' q where
    d: "delete_item a (sheap w) (sndq cn) = Inr (h', q)" "payload h' b = payload (sheap w) b" using nx(2) by auto
  from view_cong [OF d(2)] assms(4) obtain it' where it': "h' b = Some (Live it')"
    "reply_item c m' t' = it'\<lparr>next_i := None, prev_i := None\<rparr>" by (auto elim: view_SomeE)
  then have "s_message it' = t'" by (cases it') (simp add: reply_item_def)
  then show ?thesis
    using assms(1,5) it(1) c nx d(1) it'(1)
    by (simp add: taps_sent_def taps_send_common_def call_send_def log_fault_def Let_def)
qed

section \<open>The end of a connection\<close>

text \<open>The buffer and the message of the reply under way, and the live blocks of a heap.\<close>

fun reply_buffer :: "(addr \<times> addr \<times> addr) option \<Rightarrow> addr set" where
  "reply_buffer None = {}"
| "reply_buffer (Some (a, m, t)) = {m}"

fun reply_message :: "(addr \<times> addr \<times> addr) option \<Rightarrow> addr set" where
  "reply_message None = {}"
| "reply_message (Some (a, m, t)) = {t}"

definition live :: "'n heap \<Rightarrow> addr set" where
  "live h = {a. allocated h a}"

lemma live_simps [simp]:
  "live (hput h a n) = insert a (live h)" "live (h(a := Some (Freed n))) = live h - {a}"
  by (auto simp: live_def allocated_def)

text \<open>\<open>tapsConnectionFree\<close> of a connection with one receive posted and at most one reply under way.\<close>

fun reply_errors :: "addr \<Rightarrow> (addr \<times> addr \<times> addr) option \<Rightarrow> app_event list" where
  "reply_errors ca None = []"
| "reply_errors ca (Some (a, m, t)) = [(6, SendError (Some ca) (Some m) ''Connection died'')]"

lemma free_echo_connection:
  assumes ok: "echo_ok pctx c ca la r m t q e"
    and w: "rheap w = rheap (sys e)" "sheap w = sheap (sys e)" "cheap (sys e) c = Some (Live cn)"
      "cheap w c = Some (Live (cn\<lparr>c_listener := lc, c_proto_ctx := pc\<rparr>))"
  shows "tapsConnectionFree c w = w\<lparr>cheap := (cheap w)(c := Some (Freed (cn\<lparr>c_listener := lc, c_proto_ctx := pc\<rparr>))),
    trace := trace w @ reply_errors ca q @ [(9, ReceiveError (Some ca) (Some m) ''Connection died'')]\<rparr>"
proof -
  from ok w(3) have cn: "c_app_ctx cn = Some ca" "item_queue (rheap w) (rcvq cn) [r]"
      "item_queue (sheap w) (sndq cn) (case q of None \<Rightarrow> [] | Some (a, _) \<Rightarrow> [a])"
      "view (rheap w) r = Some (posted_item c m t)"
    by (auto simp: echo_ok_def recv_ok_def send_ok_def w)
  from cn(4) obtain it where it: "rheap w r = Some (Live it)" "posted_item c m t = it\<lparr>next_i := None, prev_i := None\<rparr>"
    by (rule view_SomeE)
  then have f: "r_receiveError it = Some 9" "r_app_ctx it = Some m" by (cases it, simp add: posted_item_def)+
  have rq: "rcvq cn = Some r" using cn(2) by (simp add: item_queue_def)
  have rf: "flush_queue (rheap w) (Some r) = ([it], rheap w, None)" using flush_single [of "rheap w"] cn(2) rq it(1) by simp
  show ?thesis
  proof (cases q)
    case None
    then have "sndq cn = None" using cn(3) by (simp add: item_queue_def)
    then show ?thesis using w(4) cn(1) rq rf f None by (simp add: tapsConnectionFree_def call_all_def app_call_def Let_def del: flush_queue.simps(2))
  next
    case (Some k)
    obtain a m' t' where k: "k = (a, m', t')" by (cases k)
    from ok Some k have "view (sheap w) a = Some (reply_item c m' t')" by (simp add: echo_ok_def w)
    then obtain st where st: "sheap w a = Some (Live st)" "reply_item c m' t' = st\<lparr>next_i := None, prev_i := None\<rparr>"
      by (rule view_SomeE)
    then have g: "s_sendError st = Some 6" "s_app_ctx st = Some m'" by (cases st, simp add: reply_item_def)+
    have sq: "sndq cn = Some a" using cn(3) Some k by (simp add: item_queue_def)
    have "flush_queue (sheap w) (Some a) = ([st], sheap w, None)" using flush_single [of "sheap w"] cn(3) sq st(1) Some k by simp
    then show ?thesis using w(4) cn(1) rq rf f sq g Some k
      by (simp add: tapsConnectionFree_def call_all_def app_call_def Let_def del: flush_queue.simps(2))
  qed
qed

text \<open>
  The report that the peer has closed, with what it leaves alone: the library gives the reference
  back, which may be the last one of a listener that was stopped, and the application releases the
  connection and the receive buffer, and of a reply under way the message but not the buffer.
\<close>

lemma app_reply_errors:
  assumes "app_msgs e m = Some (Live \<lparr>am_taps = Some t\<rparr>)"
    "case q of None \<Rightarrow> True | Some (a, m', t') \<Rightarrow> app_msgs e m' = Some (Live \<lparr>am_taps = Some t'\<rparr>) \<and> msgs (sys e) t' = Some (Live tm)"
  shows "app_queue_errors (reply_errors ca q @ [(9, ReceiveError (Some ca) (Some m) ''Connection died'')]) e =
    Inr (e\<lparr>sys := (sys e)\<lparr>msgs := (case q of None \<Rightarrow> msgs (sys e) | Some (a, m', t') \<Rightarrow> (msgs (sys e))(t' := Some (Freed tm)))\<rparr>,
      app_msgs := (app_msgs e)(m := Some (Freed \<lparr>am_taps = Some t\<rparr>))\<rparr>)"
proof (cases q)
  case None
  then show ?thesis using assms by (simp add: cbs_def app_receive_error_def app_msg_free_def)
next
  case (Some k)
  then show ?thesis using assms
    by (cases k) (simp add: cbs_def app_receive_error_def app_msg_free_def app_send_error_def app_message_free_def)
qed

lemma echo_close_world:
  assumes ok: "echo_ok pctx c ca la r m t q e"
    and st: "readyToStop (lst (sys e)) \<Longrightarrow> l_stopped (lst (sys e)) = Some 3 \<and> l_app_ctx (lst (sys e)) = Some la"
    and e': "e' = deliver h al (taps_closed c) e"
  shows "let n = ref_count (lst (sys e)) - 1; last = (readyToStop (lst (sys e)) \<and> n = 0) in
    faults (sys e') = faults (sys e) \<and> exited e' = exited e \<and> proto (sys e') = proto (sys e) \<and>
    lst (sys e') = (lst (sys e))\<lparr>ref_count := n, l_stopped := (if last then None else l_stopped (lst (sys e)))\<rparr> \<and>
    loop_broken e' = (loop_broken e \<or> last) \<and>
    \<not> allocated (cheap (sys e')) c \<and> app_conns e' = (app_conns e)(ca := Some (Freed \<lparr>ac_l = la, ac_taps = c\<rparr>)) \<and>
    app_msgs e' = (app_msgs e)(m := Some (Freed \<lparr>am_taps = Some t\<rparr>)) \<and> app_listeners e' = app_listeners e \<and>
    live (msgs (sys e')) = live (msgs (sys e)) - reply_message q \<and> rheap (sys e') = rheap (sys e) \<and>
    apart (reply_message q) c (sys e) (sys e')"
proof -
  from ok obtain cn l tm where cn: "cheap (sys e) c = Some (Live cn)" "c_app_ctx cn = Some ca" "c_closed cn = Some 10"
      "c_listener cn \<noteq> None"
    and app: "app_conns e ca = Some (Live \<lparr>ac_l = la, ac_taps = c\<rparr>)" "app_msgs e m = Some (Live \<lparr>am_taps = Some t\<rparr>)"
      "app_listeners e la = Some (Live l)"
    and q: "case q of None \<Rightarrow> True | Some (a, m', t') \<Rightarrow> app_msgs e m' = Some (Live \<lparr>am_taps = Some t'\<rparr>) \<and> msgs (sys e) t' = Some (Live tm)"
    by (cases q) (auto simp: echo_ok_def send_ok_def reply_item_def allocated_def)
  define last where "last = (readyToStop (lst (sys e)) \<and> ref_count (lst (sys e)) - 1 = 0)"
  let ?l = "(lst (sys e))\<lparr>ref_count := ref_count (lst (sys e)) - 1, l_stopped := (if last then None else l_stopped (lst (sys e)))\<rparr>"
  let ?cn = "cn\<lparr>c_listener := None, c_proto_ctx := None\<rparr>"
  define w2 where "w2 = set_conn c ?cn ((sys e)\<lparr>lst := ?l, trace := trace (sys e) @ (if last then [(3, Stopped (Some la))] else []) @
      [(10, Closed (Some ca))]\<rparr>)"
  have w2: "taps_closed c (sys e) = w2"
    using closed_with_listener [OF cn(1,4)] st cn(2,3)
    by (cases "lst (sys e)") (auto simp: Let_def tapsListenerDeref_def app_call_def set_conn_def w2_def last_def)
  have w2': "cheap w2 = hput (cheap (sys e)) c ?cn" "sheap w2 = sheap (sys e)" "rheap w2 = rheap (sys e)" "msgs w2 = msgs (sys e)"
    "trace w2 = trace (sys e) @ (if last then [(3, Stopped (Some la))] else []) @ [(10, Closed (Some ca))]"
    "lst w2 = ?l" "proto w2 = proto (sys e)" "faults w2 = faults (sys e)"
    by (simp_all add: w2_def)
  define w3 where "w3 = w2\<lparr>cheap := (cheap w2)(c := Some (Freed ?cn)),
    trace := trace w2 @ reply_errors ca q @ [(9, ReceiveError (Some ca) (Some m) ''Connection died'')]\<rparr>"
  have w3: "tapsConnectionFree c w2 = w3"
    unfolding w3_def by (rule free_echo_connection [OF ok _ _ cn(1)]) (simp_all add: w2')
  have w3': "msgs w3 = msgs (sys e)"
    "trace w3 = trace w2 @ reply_errors ca q @ [(9, ReceiveError (Some ca) (Some m) ''Connection died'')]"
    by (simp_all add: w3_def w2')
  let ?e2 = "e\<lparr>sys := w2, loop_broken := (loop_broken e \<or> last)\<rparr>"
  let ?w4 = "w3\<lparr>msgs := (case q of None \<Rightarrow> msgs (sys e) | Some (a, m', t') \<Rightarrow> (msgs (sys e))(t' := Some (Freed tm)))\<rparr>"
  let ?e4 = "?e2\<lparr>sys := ?w4, app_msgs := (app_msgs e)(m := Some (Freed \<lparr>am_taps = Some t\<rparr>)),
      app_conns := (app_conns e)(ca := Some (Freed \<lparr>ac_l = la, ac_taps = c\<rparr>))\<rparr>"
  have cl: "app_closed (Some ca) ?e2 = Inr ?e4"
    using app(1,2) app_reply_errors [of "?e2\<lparr>sys := w3\<rparr>" m t tm q ca] q
    by (cases q) (auto simp add: app_closed_def w3 w3')
  have "e' = ?e4"
    using app(3) cl by (cases last) (simp_all add: e' deliver_def w2 w2'(5) app_log_def app_stopped_def cbs_def)
  moreover have "live (msgs ?w4) = live (msgs (sys e)) - reply_message q" by (cases q) auto
  moreover have "apart (reply_message q) c (sys e) ?w4" by (cases q) (auto simp: apart_def w3_def w2')
  ultimately show ?thesis by (simp add: Let_def allocated_def w3_def w2') (auto simp: last_def)
qed

text \<open>
  When the peer closes a connection on which the server waits, the library and the application
  release the connection on both sides, give the listener's reference back and free the receive
  buffer, without a fault. The TAPS message over that buffer and the queue item are not freed: every
  closed connection leaks one of each.
\<close>

theorem echo_close_releases:
  assumes ok: "echo_ok pctx c ca la r m t None e" and nr: "\<not> readyToStop (lst (sys e))"
    and e': "e' = deliver h al (taps_closed c) e"
  shows "faults (sys e') = faults (sys e) \<and> ref_count (lst (sys e')) = ref_count (lst (sys e)) - 1 \<and>
    \<not> allocated (cheap (sys e')) c \<and> \<not> allocated (app_conns e') ca \<and>
    app_msgs e' = (app_msgs e)(m := Some (Freed \<lparr>am_taps = Some t\<rparr>)) \<and>
    allocated (msgs (sys e')) t \<and> allocated (rheap (sys e')) r"
proof -
  have "view (rheap (sys e)) r \<noteq> None" "t \<in> live (msgs (sys e))" using ok by (auto simp: echo_ok_def live_def allocated_def)
  then have "allocated (rheap (sys e)) r" "t \<in> live (msgs (sys e))" by (auto simp: allocated_def elim: view_SomeE)
  then show ?thesis using echo_close_world [OF ok _ e'] nr by (auto simp: Let_def live_def allocated_def)
qed

section \<open>The application over TCP\<close>

text \<open>\<open>readv\<close>: the bytes fill the pieces of the scatter list in order.\<close>

fun scatter :: "memory \<Rightarrow> iovec list \<Rightarrow> 8 word list \<Rightarrow> memory" where
  "scatter mem [] data = mem"
| "scatter mem (v # vs) data =
     scatter (\<lambda>a. if iov_base v \<le> a \<and> a < iov_base v + min (unat (iov_len v)) (length data)
                  then data ! (a - iov_base v) else mem a) vs (drop (unat (iov_len v)) data)"

lemma scatter_one:
  assumes "length data \<le> 1024"
  shows "vec_bytes (scatter mem [\<lparr>iov_base = m, iov_len = BUF_SIZE\<rparr>] data)
    [\<lparr>iov_base = m, iov_len = of_nat (length data)\<rparr>] = data"
proof -
  have "unat (of_nat (length data) :: size_t) = length data"
    using assms by (simp add: unat_of_nat take_bit_nat_eq_self)
  with assms show ?thesis by (auto simp: iov_bytes_def intro!: nth_equalityI)
qed

text \<open>
  The whole program with one connection in the TCP context \<open>x\<close>: the byte memory, what was read
  from the socket so far and what was written to it, and the number of reads.
\<close>

record 'e echo_tcp =
  ew :: "'e tcp_state echo_world"
  mem :: memory
  got :: "8 word list"
  put :: "8 word list"
  reads :: nat

definition set_proto :: "'p \<Rightarrow> 'p echo_world \<Rightarrow> 'p echo_world" where
  "set_proto p e = e\<lparr>sys := (sys e)\<lparr>proto := p\<rparr>\<rparr>"

text \<open>What the calls of \<open>writev\<close> have written since: as many bytes of the scatter list as they returned.\<close>

definition wire_since :: "'e tcp_state \<Rightarrow> memory \<Rightarrow> 'e tcp_state \<Rightarrow> 8 word list" where
  "wire_since p0 mm p = concat (map (\<lambda>(_, _, vs, k). take (nat k) (vec_bytes mm vs)) (drop (length (written p0)) (written p)))"

text \<open>Data arrive: libevent runs \<open>_tcp_received\<close>, which runs the rest.\<close>

definition echo_read ::
  "'e evlib \<Rightarrow> 'e tcp_env \<Rightarrow> ctx \<Rightarrow> addr \<Rightarrow> echo_alloc \<Rightarrow> addr option \<Rightarrow> 8 word list \<Rightarrow> 'e echo_tcp \<Rightarrow> 'e echo_tcp" where
  "echo_read L env l x al va data s =
     (let h = tcp_handles L env l; p = proto (sys (ew s));
          bufs = (case tconns p x of Some (Live cc) \<Rightarrow> take (nat (t_iovcnt cc)) (snd (receive_buffer cc)) | _ \<Rightarrow> []);
          mem' = scatter (mem s) bufs data
      in case tcp_received L (int (length data)) (Some x) p of
           ([CbReceivedPartial f (Some r) own n], p1) \<Rightarrow>
             if f = Some fn_received_partial then
               let e = deliver h al (taps_received_partial h va r own (of_int n)) (set_proto p1 (ew s))
               in s\<lparr>ew := e, mem := mem', got := got s @ data,
                    put := put s @ wire_since p mem' (proto (sys e)), reads := Suc (reads s)\<rparr>
             else s\<lparr>ew := set_proto p1 (ew s), mem := mem', got := got s @ data\<rparr>
         | (_, p1) \<Rightarrow> s\<lparr>ew := set_proto p1 (ew s), mem := mem', got := got s @ data\<rparr>)"

text \<open>The socket is writable again: libevent runs \<open>_tcp_sent\<close>.\<close>

definition echo_sent ::
  "'e evlib \<Rightarrow> 'e tcp_env \<Rightarrow> ctx \<Rightarrow> addr \<Rightarrow> echo_alloc \<Rightarrow> 'e echo_tcp \<Rightarrow> 'e echo_tcp" where
  "echo_sent L env l x al s =
     (let h = tcp_handles L env l; p = proto (sys (ew s)) in
      case tcp_fire L x p of
        (Some a, p1) \<Rightarrow>
          let e = deliver h al (taps_sent h a) (set_proto p1 (ew s))
          in s\<lparr>ew := e, put := put s @ wire_since p (mem s) (proto (sys e))\<rparr>
      | (None, p1) \<Rightarrow> s\<lparr>ew := set_proto p1 (ew s)\<rparr>)"

text \<open>
  The TCP context has the item \<open>r\<close> with the buffer \<open>m\<close>; it waits for data if the event is
  pending too.
\<close>

definition tcp_posts :: "'e evlib \<Rightarrow> addr \<Rightarrow> addr \<Rightarrow> addr \<Rightarrow> 'e tcp_state \<Rightarrow> bool" where
  "tcp_posts L x r m p \<longleftrightarrow>
     (\<exists>cc. tconns p x = Some (Live cc) \<and> tcp_conn_ok L cc (ev p) \<and> sendEvent cc \<noteq> receiveEvent cc \<and>
        t_received cc = Some fn_received \<and> t_receivedPartial cc = Some fn_received_partial \<and>
        t_receive_ctx cc = Some r \<and> receive_buffer cc = (None, [\<lparr>iov_base = m, iov_len = BUF_SIZE\<rparr>]) \<and>
        t_iovcnt cc = 1)"

definition tcp_hears :: "'e evlib \<Rightarrow> addr \<Rightarrow> 'e tcp_state \<Rightarrow> bool" where
  "tcp_hears L x p \<longleftrightarrow> (case tconns p x of Some (Live cc) \<Rightarrow> event_pending L (receiveEvent cc) (ev p) | _ \<Rightarrow> False)"

definition tcp_waits :: "'e evlib \<Rightarrow> addr \<Rightarrow> addr \<Rightarrow> addr \<Rightarrow> 'e tcp_state \<Rightarrow> bool" where
  "tcp_waits L x r m p \<longleftrightarrow> tcp_posts L x r m p \<and> tcp_hears L x p"

lemmas tcp_waits_defs = tcp_waits_def tcp_posts_def tcp_hears_def

lemma tcp_receive_event:
  assumes "libevent_ok L" "tcp_waits L x r m p" "tcp_busy L x p = None" "0 < n"
  shows "\<exists>cc p1. tcp_received L n (Some x) p = ([CbReceivedPartial (Some fn_received_partial) (Some r) None n], p1) \<and>
    written p1 = written p \<and> t_faults p1 = t_faults p \<and> tconns p1 x = Some (Live cc) \<and> tconns p x = Some (Live cc) \<and> t_sent cc \<in> {None, Some fn_sent} \<and> sendEvent cc \<noteq> receiveEvent cc \<and>
    t_received cc = Some fn_received \<and> t_receivedPartial cc = Some fn_received_partial \<and>
    take (nat (t_iovcnt cc)) (snd (receive_buffer cc)) = [\<lparr>iov_base = m, iov_len = BUF_SIZE\<rparr>] \<and>
    \<not> event_pending L (sendEvent cc) (ev p1) \<and> \<not> event_pending L (receiveEvent cc) (ev p1)"
  using assms libevent_fired [OF assms(1)]
  by (auto simp: tcp_waits_defs tcp_conn_ok_def tcp_busy_def tcp_received_def Let_def split: if_splits)

text \<open>The reply and the next receive, as the module handles them.\<close>

lemma tcp_reply:
  assumes env: "tcp_env_ok L env" and c: "tconns p x = Some (Live cc)" "t_sent cc \<in> {None, Some fn_sent}"
    "sendEvent cc \<noteq> receiveEvent cc" "t_received cc = Some fn_received" "t_receivedPartial cc = Some fn_received_partial"
    and np: "\<not> event_pending L (sendEvent cc) (ev p)" "\<not> event_pending L (receiveEvent cc) (ev p)"
  shows "\<exists>v p1. h_send (tcp_handles L env l) (Some x) a vs 1 p = (v, p1) \<and> 0 \<le> v \<and>
    (let p2 = h_receive (tcp_handles L env l) (Some x) r None [\<lparr>iov_base = m, iov_len = BUF_SIZE\<rparr>] 1 p1 in
     tcp_waits L x r m p2 \<and> tcp_busy L x p2 = Some a \<and> written p2 = written p @ [(x, a, take 1 vs, env_writev env p (take 1 vs))] \<and>
     t_faults p2 = t_faults p)"
proof -
  have lib: "libevent_ok L" and w: "0 \<le> env_writev env p (take 1 vs)" using env by (simp_all add: tcp_env_ok_def)
  obtain r1 e1 where e1: "event_add L (sendEvent cc) (ev p) = (r1, e1)" by fastforce
  obtain r2 e2 where e2: "event_add L (receiveEvent cc) e1 = (r2, e2)" by fastforce
  have pos: "0 \<le> r1" "0 \<le> r2" using env e1 e2 by (metis tcp_env_ok_def fst_conv)+
  have pend: "event_pending L (sendEvent cc) e2" "event_pending L (receiveEvent cc) e2" "\<not> event_pending L (receiveEvent cc) e1"
    using libevent_add [OF lib e1] libevent_add [OF lib e2] pos c(3) np by auto
  show ?thesis
    using c np w e1 e2 pos pend
    by (cases "t_sent cc")
      (auto simp: tcp_handles_def tcp_Send_def tcp_Receive_def tcp_waits_defs tcp_conn_ok_def tcp_busy_def Let_def)
qed

lemma tcp_send_event:
  assumes "libevent_ok L" "tcp_posts L x r m p" "tcp_busy L x p = Some a"
  shows "\<exists>p1. tcp_fire L x p = (Some a, p1) \<and> tcp_posts L x r m p1 \<and> tcp_hears L x p1 = tcp_hears L x p \<and>
    tcp_busy L x p1 = None \<and> written p1 = written p"
  using assms libevent_fired [OF assms(1)]
  by (auto simp: tcp_waits_defs tcp_conn_ok_def tcp_busy_def tcp_fire_def tcp_sent_def split: if_splits)

text \<open>The same when a reply is still under way: the send is refused and nothing is written.\<close>

lemma tcp_refused_reply:
  assumes env: "tcp_env_ok L env" and w: "tcp_waits L x r m p" "tcp_busy L x p = Some a" and n: "0 < n"
  shows "\<exists>p1 v p2. tcp_received L n (Some x) p = ([CbReceivedPartial (Some fn_received_partial) (Some r) None n], p1) \<and>
    h_send (tcp_handles L env l) (Some x) b vs 1 p1 = (v, p2) \<and> v < 0 \<and>
    (let p3 = h_receive (tcp_handles L env l) (Some x) r2 None [\<lparr>iov_base = m2, iov_len = BUF_SIZE\<rparr>] 1 p2 in
     tcp_waits L x r2 m2 p3 \<and> tcp_busy L x p3 = Some a \<and> written p3 = written p)"
proof -
  have lib: "libevent_ok L" using env by (simp add: tcp_env_ok_def)
  from w obtain cc where c: "tconns p x = Some (Live cc)" "sendEvent cc \<noteq> receiveEvent cc" "t_received cc = Some fn_received"
    "t_receivedPartial cc = Some fn_received_partial" "t_receive_ctx cc = Some r" "event_pending L (sendEvent cc) (ev p)"
    "t_sent cc = Some fn_sent" "t_send_ctx cc = Some a" "receive_buffer cc = (None, [\<lparr>iov_base = m, iov_len = BUF_SIZE\<rparr>])"
    by (auto simp: tcp_waits_defs tcp_conn_ok_def tcp_busy_def split: if_splits)
  let ?p1 = "p\<lparr>ev := event_fired L (receiveEvent cc) (ev p)\<rparr>"
  obtain k e2 where e2: "event_add L (receiveEvent cc) (ev ?p1) = (k, e2)" by fastforce
  have k: "0 \<le> k" using env e2 by (metis tcp_env_ok_def fst_conv)
  have pend: "event_pending L (sendEvent cc) (ev ?p1)" "\<not> event_pending L (receiveEvent cc) (ev ?p1)"
    "event_pending L (sendEvent cc) e2" "event_pending L (receiveEvent cc) e2"
    using libevent_fired [OF lib] libevent_add [OF lib e2] k c(2,6) by auto
  show ?thesis using c n e2 pend k
    by (simp add: tcp_received_def tcp_handles_def tcp_Send_def tcp_Receive_def tcp_waits_defs tcp_conn_ok_def tcp_busy_def Let_def)
qed

text \<open>
  The connection waits for data with at most one reply under way, and the live buffers and messages are those of the rest of the program (\<open>M\<close> and
  \<open>T\<close>), the posted one and the one being sent.
\<close>

definition echo_state ::
  "'e evlib \<Rightarrow> addr \<Rightarrow> addr \<Rightarrow> addr \<Rightarrow> addr \<Rightarrow> addr set \<Rightarrow> addr set \<Rightarrow> addr \<Rightarrow> addr \<Rightarrow> addr \<Rightarrow>
    (addr \<times> addr \<times> addr) option \<Rightarrow> 'e echo_tcp \<Rightarrow> bool" where
  "echo_state L x c ca la M T r m t q s \<longleftrightarrow>
     echo_ok (Some x) c ca la r m t q (ew s) \<and> tcp_waits L x r m (proto (sys (ew s))) \<and>
     tcp_busy L x (proto (sys (ew s))) = map_option fst q \<and>
     live (app_msgs (ew s)) = M \<union> {m} \<union> reply_buffer q \<and> M \<inter> ({m} \<union> reply_buffer q) = {} \<and>
     live (msgs (sys (ew s))) = T \<union> {t} \<union> reply_message q \<and> T \<inter> ({t} \<union> reply_message q) = {} \<and>
     faults (sys (ew s)) = replicate (reads s) UseAfterFree \<and> \<not> exited (ew s)"

lemma set_proto_simps [simp]:
  "proto (sys (set_proto p e)) = p" "faults (sys (set_proto p e)) = faults (sys e)"
  "app_msgs (set_proto p e) = app_msgs e" "msgs (sys (set_proto p e)) = msgs (sys e)"
  "exited (set_proto p e) = exited e" "lst (sys (set_proto p e)) = lst (sys e)" "loop_broken (set_proto p e) = loop_broken e"
  "app_conns (set_proto p e) = app_conns e" "app_listeners (set_proto p e) = app_listeners e"
  "apart U c (sys (set_proto p e)) w = apart U c (sys e) w"
  "cheap (sys (set_proto p e)) = cheap (sys e)" "sheap (sys (set_proto p e)) = sheap (sys e)"
  "rheap (sys (set_proto p e)) = rheap (sys e)" "trace (sys (set_proto p e)) = trace (sys e)"
  "echo_ok pctx c ca la r m t q (set_proto p e) = echo_ok pctx c ca la r m t q e"
  "fresh_alloc a m t r (set_proto p e) = fresh_alloc a m t r e"
  by (cases q; simp add: set_proto_def echo_ok_def recv_ok_def recv_item_ok_def send_ok_def fresh_alloc_def apart_def)+

text \<open>The module's part of a read, with what it leaves alone.\<close>

lemma tcp_read_reply:
  assumes env: "tcp_env_ok L env" and w: "tcp_waits L x r m p" "tcp_busy L x p = None" and n: "0 < n"
  obtains cc p1 v p2 where "tcp_received L n (Some x) p = ([CbReceivedPartial (Some fn_received_partial) (Some r) None n], p1)"
    "tconns p x = Some (Live cc)" "take (nat (t_iovcnt cc)) (snd (receive_buffer cc)) = [\<lparr>iov_base = m, iov_len = BUF_SIZE\<rparr>]"
    "h_send (tcp_handles L env l) (Some x) a [vec] 1 p1 = (v, p2)" "0 \<le> v"
    "\<And>p3. p3 = h_receive (tcp_handles L env l) (Some x) r2 None [\<lparr>iov_base = m2, iov_len = BUF_SIZE\<rparr>] 1 p2 \<Longrightarrow>
      tcp_waits L x r2 m2 p3 \<and> tcp_busy L x p3 = Some a \<and> tcp_frame L x p p3 \<and>
      (\<exists>k. written p3 = written p @ [(x, a, [vec], k)] \<and> (whole_writes env \<longrightarrow> k = int (vec_total [vec])))"
proof -
  have lib: "libevent_ok L" using env by (simp add: tcp_env_ok_def)
  obtain cc p1 where p1: "tcp_received L n (Some x) p = ([CbReceivedPartial (Some fn_received_partial) (Some r) None n], p1)"
    "written p1 = written p" "tconns p1 x = Some (Live cc)" "tconns p x = Some (Live cc)"
    "take (nat (t_iovcnt cc)) (snd (receive_buffer cc)) = [\<lparr>iov_base = m, iov_len = BUF_SIZE\<rparr>]"
    and cc: "t_sent cc \<in> {None, Some fn_sent}" "sendEvent cc \<noteq> receiveEvent cc" "t_received cc = Some fn_received"
      "t_receivedPartial cc = Some fn_received_partial" "\<not> event_pending L (sendEvent cc) (ev p1)"
      "\<not> event_pending L (receiveEvent cc) (ev p1)"
    using tcp_receive_event [OF lib w n] by auto
  from tcp_reply [OF env p1(3) cc, of l a "[vec]" r2 m2] obtain v p2 where
    p2: "h_send (tcp_handles L env l) (Some x) a [vec] 1 p1 = (v, p2)" "0 \<le> v"
    and rep: "\<And>p3. p3 = h_receive (tcp_handles L env l) (Some x) r2 None [\<lparr>iov_base = m2, iov_len = BUF_SIZE\<rparr>] 1 p2 \<Longrightarrow>
      tcp_waits L x r2 m2 p3 \<and> tcp_busy L x p3 = Some a \<and> written p3 = written p1 @ [(x, a, [vec], env_writev env p1 [vec])]"
    by (auto simp: Let_def)
  have f1: "tcp_frame L x p p1" by (rule tcp_received_frame [OF lib p1(4,1)])
  have f2: "tcp_frame L x p1 p2" using tcp_Send_frame [OF lib p1(3)] p2(1) by simp
  then obtain cc' where c2: "tconns p2 x = Some (Live cc')"
    using p1(3) by (auto simp: tcp_frame_def conn_events_def split: option.splits cell.splits)
  have "tcp_frame L x p p3" if "p3 = h_receive (tcp_handles L env l) (Some x) r2 None [\<lparr>iov_base = m2, iov_len = BUF_SIZE\<rparr>] 1 p2" for p3
    using tcp_Receive_frame [OF lib c2 prod.collapse [symmetric]] tcp_frame_trans [OF tcp_frame_trans [OF f1 f2]] that
    by (simp add: tcp_handles_def)
  with that [OF p1(1,4,5) p2] rep p1(2) show thesis by (simp add: whole_writes_def)
qed

text \<open>One read, with what it leaves alone.\<close>

lemma echo_read_world:
  assumes env: "tcp_env_ok L env" and ok: "echo_ok (Some x) c ca la r m t None (ew s)"
    and w: "tcp_waits L x r m (proto (sys (ew s)))" "tcp_busy L x (proto (sys (ew s))) = None"
    and d: "data \<noteq> []" "length data \<le> 1024" and fresh: "fresh_alloc a m2 t2 r2 (ew s)"
  obtains e mm k where "echo_read L env l x (take_alloc a m2 t2 r2) va data s =
      s\<lparr>ew := e, mem := mm, got := got s @ data, put := put s @ take (nat k) data, reads := Suc (reads s)\<rparr>"
    "echo_ok (Some x) c ca la r2 m2 t2 (Some (a, m, t)) e" "tcp_waits L x r2 m2 (proto (sys e))"
    "tcp_busy L x (proto (sys e)) = Some a" "faults (sys e) = faults (sys (ew s)) @ [UseAfterFree]"
    "app_msgs e = hput (app_msgs (ew s)) m2 \<lparr>am_taps = Some t2\<rparr>"
    "live (msgs (sys e)) = insert t2 (live (msgs (sys (ew s))))"
    "exited e = exited (ew s)" "lst (sys e) = lst (sys (ew s))" "apart {t, t2} c (sys (ew s)) (sys e)"
    "app_conns e = app_conns (ew s)" "app_listeners e = app_listeners (ew s)" "loop_broken e = loop_broken (ew s)"
    "tcp_frame L x (proto (sys (ew s))) (proto (sys e))"
    "written (proto (sys e)) = written (proto (sys (ew s))) @ [(x, a, [\<lparr>iov_base = m, iov_len = of_nat (length data)\<rparr>], k)]"
    "vec_bytes mm [\<lparr>iov_base = m, iov_len = of_nat (length data)\<rparr>] = data" "whole_writes env \<longrightarrow> nat k = length data"
proof -
  let ?p = "proto (sys (ew s))" and ?h = "tcp_handles L env l" and ?n = "of_nat (length data) :: size_t"
  obtain cc p1 v p2 where ev: "tcp_received L (int (length data)) (Some x) ?p =
      ([CbReceivedPartial (Some fn_received_partial) (Some r) None (int (length data))], p1)"
    "tconns ?p x = Some (Live cc)" "take (nat (t_iovcnt cc)) (snd (receive_buffer cc)) = [\<lparr>iov_base = m, iov_len = BUF_SIZE\<rparr>]"
    and p2: "h_send ?h (Some x) a [\<lparr>iov_base = m, iov_len = ?n\<rparr>] 1 p1 = (v, p2)" "0 \<le> v"
    and rep: "\<And>p3. p3 = h_receive ?h (Some x) r2 None [\<lparr>iov_base = m2, iov_len = BUF_SIZE\<rparr>] 1 p2 \<Longrightarrow>
      tcp_waits L x r2 m2 p3 \<and> tcp_busy L x p3 = Some a \<and> tcp_frame L x ?p p3 \<and>
      (\<exists>k. written p3 = written ?p @ [(x, a, [\<lparr>iov_base = m, iov_len = ?n\<rparr>], k)] \<and>
        (whole_writes env \<longrightarrow> k = int (vec_total [\<lparr>iov_base = m, iov_len = ?n\<rparr>])))"
    by (rule tcp_read_reply [OF env w, of "int (length data)" l a "\<lparr>iov_base = m, iov_len = ?n\<rparr>" r2 m2]) (use d(1) in auto)
  define e where "e = deliver ?h (take_alloc a m2 t2 r2) (taps_received_partial ?h va r None ?n) (set_proto p1 (ew s))"
  have n: "?n \<le> BUF_SIZE" using d(2) by (simp add: word_le_nat_alt unat_of_nat take_bit_nat_eq_self)
  have e: "echo_ok (Some x) c ca la r2 m2 t2 (Some (a, m, t)) e"
    "proto (sys e) = h_receive ?h (Some x) r2 None [\<lparr>iov_base = m2, iov_len = BUF_SIZE\<rparr>] 1 p2"
    "faults (sys e) = faults (sys (ew s)) @ [UseAfterFree]"
    "app_msgs e = hput (app_msgs (ew s)) m2 \<lparr>am_taps = Some t2\<rparr>"
    "msgs (sys e) = hput (hput (msgs (sys (ew s))) t (echo_message m ?n)) t2 (echo_message m2 BUF_SIZE)"
    "exited e = exited (ew s)" "lst (sys e) = lst (sys (ew s))" "apart {t, t2} c (sys (ew s)) (sys e)"
    "app_conns e = app_conns (ew s)" "app_listeners e = app_listeners (ew s)" "loop_broken e = loop_broken (ew s)"
    using echo_read_ok [of "Some x" c ca la r m t "set_proto p1 (ew s)" a m2 t2 r2 ?n ?h v p2 e va] ok fresh n p2
    by (simp_all add: e_def)
  let ?mem = "scatter (mem s) [\<lparr>iov_base = m, iov_len = BUF_SIZE\<rparr>] data"
  from rep [OF e(2)] obtain k where q: "tcp_waits L x r2 m2 (proto (sys e))" "tcp_busy L x (proto (sys e)) = Some a"
    "written (proto (sys e)) = written ?p @ [(x, a, [\<lparr>iov_base = m, iov_len = ?n\<rparr>], k)]" "tcp_frame L x ?p (proto (sys e))"
    "whole_writes env \<longrightarrow> k = int (vec_total [\<lparr>iov_base = m, iov_len = ?n\<rparr>])" by auto
  have vb: "vec_bytes ?mem [\<lparr>iov_base = m, iov_len = ?n\<rparr>] = data" using scatter_one [OF d(2), of "mem s" m] by simp
  then have s': "echo_read L env l x (take_alloc a m2 t2 r2) va data s =
      s\<lparr>ew := e, mem := ?mem, got := got s @ data, put := put s @ take (nat k) data, reads := Suc (reads s)\<rparr>"
    using ev q(3) vb by (simp add: echo_read_def e_def [symmetric] wire_since_def del: scatter.simps vec_bytes_simps)
  have k: "whole_writes env \<longrightarrow> nat k = length data"
    using q(5) length_vec_bytes [of ?mem "[\<lparr>iov_base = m, iov_len = ?n\<rparr>]"] unfolding vb by simp
  have "t \<in> live (msgs (sys (ew s)))" using ok by (simp add: echo_ok_def live_def allocated_def)
  then have l: "live (msgs (sys e)) = insert t2 (live (msgs (sys (ew s))))" using e(5) by auto
  from that [OF s' e(1) q(1,2) e(3,4) l e(6-11) q(4,3) vb k] show thesis .
qed

lemma echo_state_read:
  assumes env: "tcp_env_ok L env" and st: "echo_state L x c ca la M T r m t None s"
    and d: "data \<noteq> []" "length data \<le> 1024" and fresh: "fresh_alloc a m2 t2 r2 (ew s)"
  shows "echo_state L x c ca la M T r2 m2 t2 (Some (a, m, t)) (echo_read L env l x (take_alloc a m2 t2 r2) va data s)"
proof -
  from st have ok: "echo_ok (Some x) c ca la r m t None (ew s)" "tcp_waits L x r m (proto (sys (ew s)))"
      "tcp_busy L x (proto (sys (ew s))) = None"
    by (auto simp: echo_state_def)
  have nf: "m2 \<notin> live (app_msgs (ew s))" "t2 \<notin> live (msgs (sys (ew s)))"
    using fresh by (auto simp: fresh_alloc_def live_def)
  show ?thesis
    by (rule echo_read_world [OF env ok d fresh, of l va]) (use st nf in \<open>auto simp: echo_state_def replicate_append_same\<close>)
qed

text \<open>The completion of a reply, with what it leaves alone.\<close>

lemma echo_sent_world:
  assumes env: "tcp_env_ok L env" and ok: "echo_ok (Some x) c ca la r m t (Some (a, m', t')) (ew s)"
    and w: "tcp_posts L x r m (proto (sys (ew s)))" "tcp_busy L x (proto (sys (ew s))) = Some a"
  obtains e where "echo_sent L env l x al s = s\<lparr>ew := e\<rparr>" "echo_ok (Some x) c ca la r m t None e"
    "tcp_posts L x r m (proto (sys e))" "tcp_hears L x (proto (sys e)) = tcp_hears L x (proto (sys (ew s)))"
    "tcp_busy L x (proto (sys e)) = None" "faults (sys e) = faults (sys (ew s))" "exited e = exited (ew s)"
    "app_msgs e = (app_msgs (ew s))(m' := Some (Freed \<lparr>am_taps = Some t'\<rparr>))"
    "live (msgs (sys e)) = live (msgs (sys (ew s))) - {t'}" "lst (sys e) = lst (sys (ew s))"
    "apart {t'} c (sys (ew s)) (sys e)" "app_conns e = app_conns (ew s)" "app_listeners e = app_listeners (ew s)"
    "loop_broken e = loop_broken (ew s)" "tcp_frame L x (proto (sys (ew s))) (proto (sys e))"
    "written (proto (sys e)) = written (proto (sys (ew s)))"
proof -
  let ?p = "proto (sys (ew s))" and ?h = "tcp_handles L env l"
  have lib: "libevent_ok L" using env by (simp add: tcp_env_ok_def)
  from tcp_send_event [OF lib w] obtain p1 where p1: "tcp_fire L x ?p = (Some a, p1)" "tcp_posts L x r m p1"
    "tcp_hears L x p1 = tcp_hears L x ?p" "tcp_busy L x p1 = None" "written p1 = written ?p" by auto
  define e where "e = deliver ?h al (taps_sent ?h a) (set_proto p1 (ew s))"
  have e: "echo_ok (Some x) c ca la r m t None e" "proto (sys e) = p1" "faults (sys e) = faults (sys (ew s))"
    "exited e = exited (ew s)" "app_msgs e = (app_msgs (ew s))(m' := Some (Freed \<lparr>am_taps = Some t'\<rparr>))"
    "live (msgs (sys e)) = live (msgs (sys (ew s))) - {t'}" "lst (sys e) = lst (sys (ew s))"
    "apart {t'} c (sys (ew s)) (sys e)" "app_conns e = app_conns (ew s)" "app_listeners e = app_listeners (ew s)"
    "loop_broken e = loop_broken (ew s)"
    using echo_sent_ok [of "Some x" c ca la r m t a m' t' "set_proto p1 (ew s)" e ?h al] ok by (auto simp: e_def)
  have s': "echo_sent L env l x al s = s\<lparr>ew := e\<rparr>"
    using p1 e(2) by (simp add: echo_sent_def e_def [symmetric] wire_since_def)
  obtain cc where "tconns ?p x = Some (Live cc)" using w(1) by (auto simp: tcp_posts_def)
  from tcp_fire_frame [OF lib this p1(1)] have "tcp_frame L x ?p (proto (sys e))" by (simp add: e(2))
  from that [OF s' e(1) _ _ _ e(3-11) this] p1(2-5) e(2) show thesis by simp
qed

section \<open>A new connection\<close>

text \<open>
  libevent runs \<open>_tcp_connection_received\<close> for the TCP listener \<open>tla\<close>: TAPS makes the
  connection, the application posts the first receive on it, TAPS installs the callbacks and TCP
  keeps the connection. A fault of the application ends the run there.
\<close>

definition echo_accept ::
  "'e evlib \<Rightarrow> 'e tcp_env \<Rightarrow> (addr \<times> tcp_conn_ctx) option \<Rightarrow> int \<Rightarrow> addr option \<Rightarrow> echo_alloc \<Rightarrow> addr option \<Rightarrow>
    addr \<Rightarrow> addr \<Rightarrow> 'e tcp_state echo_world \<Rightarrow> 'e tcp_state echo_world" where
  "echo_accept L env block fd alloc al app_alloc tla hs e =
     (case tcp_connection_received L block fd (Some tla) (proto (sys e)) of
        ([CbConnectionReceived f (Some l) x], p1) \<Rightarrow>
          if f \<noteq> Some fn_connection_received then set_proto p1 e
          else
            (case taps_connection_received_begin alloc l hs (Some x) (sys (set_proto p1 e)) of
               (None, w1) \<Rightarrow> set_proto (tcp_connection_received_end x None (proto w1)) (e\<lparr>sys := w1\<rparr>)
             | (Some c, w1) \<Rightarrow>
                 (case app_connection_received (tcp_handles L env (Some l)) al app_alloc (l_app_ctx (lst w1)) c (e\<lparr>sys := w1\<rparr>) of
                    Inl flt \<Rightarrow> e\<lparr>sys := add_fault flt w1\<rparr>
                  | Inr (app, cb, e2) \<Rightarrow>
                      let (res, w2) = taps_connection_received_end c app cb (sys e2)
                      in set_proto (tcp_connection_received_end x res (proto w2)) (e2\<lparr>sys := w2\<rparr>)))
      | (_, p1) \<Rightarrow> set_proto p1 e)"

text \<open>The TCP side: a context whose callbacks are not set, and three events of which none is shared.\<close>

definition accept_events :: "'e evlib \<Rightarrow> int \<Rightarrow> 'e \<Rightarrow> bool" where
  "accept_events L fd e \<longleftrightarrow>
     (let (ce, e1) = event_new L fd EV_CLOSED e; (se, e2) = event_new L fd EV_WRITE e1;
          (re, e3) = event_new L fd EV_READ e2
      in distinct [ce, se, re] \<and> \<not> event_pending L se e3 \<and> \<not> event_pending L re e3)"

lemma tcp_accept_waits:
  assumes env: "tcp_env_ok L env" and lc: "tlisteners p tla = Some (Live lc)" "lc_taps_ctx lc = Some l"
    "lc_connectionReceived lc = Some fn_connection_received" and fd: "0 \<le> fd"
    and z: "t_sent zc = None" "t_received zc = None" and evs: "accept_events L fd (ev p)"
  shows "\<exists>p1. tcp_connection_received L (Some (x, zc)) fd (Some tla) p =
      ([CbConnectionReceived (Some fn_connection_received) (Some l) x], p1) \<and> t_faults p1 = t_faults p \<and>
    (let p2 = tcp_connection_received_end x (Some c)
        (h_receive (tcp_handles L env (Some l)) (Some x) r None [\<lparr>iov_base = m, iov_len = BUF_SIZE\<rparr>] 1 p1)
     in tcp_waits L x r m p2 \<and> tcp_busy L x p2 = None \<and> t_faults p2 = t_faults p)"
proof -
  have lib: "libevent_ok L" using env by (simp add: tcp_env_ok_def)
  obtain ce e1 where 1: "event_new L fd EV_CLOSED (ev p) = (ce, e1)" by fastforce
  obtain se e2 where 2: "event_new L fd EV_WRITE e1 = (se, e2)" by fastforce
  obtain re e3 where 3: "event_new L fd EV_READ e2 = (re, e3)" by fastforce
  obtain k e4 where 4: "event_add L ce e3 = (k, e4)" by fastforce
  obtain k' e5 where 5: "event_add L re e4 = (k', e5)" by fastforce
  from evs 1 2 3 have d: "ce \<noteq> se" "ce \<noteq> re" "se \<noteq> re" "\<not> event_pending L se e3" "\<not> event_pending L re e3"
    by (auto simp: accept_events_def)
  have k: "0 \<le> k" "0 \<le> k'" using env 4 5 by (metis tcp_env_ok_def fst_conv)+
  have pend: "\<not> event_pending L se e4" "\<not> event_pending L re e4" "\<not> event_pending L se e5" "event_pending L re e5"
    using libevent_add [OF lib 4] libevent_add [OF lib 5] d k by auto
  show ?thesis using lc fd z 1 2 3 4 5 k d pend
    by (simp add: tcp_connection_received_def tcp_connection_received_end_def tcp_handles_def tcp_Receive_def
        tcp_waits_defs tcp_conn_ok_def tcp_busy_def Let_def)
qed

text \<open>The TAPS and application side, for any protocol.\<close>

lemma app_accept_ok:
  fixes e :: "'p echo_world"
  assumes w1: "taps_connection_received_begin (Some c) l hs pctx (sys e) = (Some c, w1)"
    and lst: "l_app_ctx (lst (sys e)) = Some la" "l_connectionReceived (lst (sys e)) = Some f"
    and app: "app_listeners e la = Some (Live lo)" "al_callbacks lo = cbs"
    and fresh: "\<not> allocated (rheap (sys e)) r" "\<not> allocated (msgs (sys e)) t"
    and al: "ea_msg al = Some m" "ea_taps al = Some t" "ea_recv al = Some r"
  shows "\<exists>e2 w2. app_connection_received h al (Some ca) (l_app_ctx (lst w1)) c (e\<lparr>sys := w1\<rparr>) = Inr (Some ca, Some cbs, e2) \<and>
    taps_connection_received_end c (Some ca) (Some cbs) (sys e2) = (Some c, w2) \<and>
    echo_ok pctx c ca la r m t None (e2\<lparr>sys := w2\<rparr>) \<and>
    proto w2 = h_receive h pctx r None [\<lparr>iov_base = m, iov_len = BUF_SIZE\<rparr>] 1 (proto (sys e)) \<and>
    faults w2 = faults (sys e) \<and> ref_count (lst w2) = ref_count (lst (sys e)) + 1 \<and> exited e2 = exited e \<and>
    app_msgs e2 = hput (app_msgs e) m \<lparr>am_taps = Some t\<rparr> \<and>
    msgs w2 = hput (msgs (sys e)) t (echo_message m BUF_SIZE) \<and> apart {t} c (sys e) w2 \<and>
    app_conns e2 = hput (app_conns e) ca \<lparr>ac_l = la, ac_taps = c\<rparr> \<and> app_listeners e2 = app_listeners e \<and>
    loop_broken e2 = loop_broken e \<and> lst w2 = (lst (sys e))\<lparr>ref_count := ref_count (lst (sys e)) + 1\<rparr>"
proof -
  let ?cn = "new_conn pctx hs l" and ?c = "\<lparr>ac_l = la, ac_taps = c\<rparr>"
  have w1': "w1 = app_call (Some f) (ConnectionReceived (Some la) c) (listener_ref (set_conn c ?cn (sys e)))"
    using w1 lst by (simp add: taps_connection_received_begin_def tapsConnectionNew_def new_conn_def Let_def)
  let ?e1 = "e\<lparr>sys := w1, app_conns := hput (app_conns e) ca ?c\<rparr>"
  have q: "recv_ok c [] (sys ?e1)" "send_ok c [] (sys ?e1)"
    by (simp_all add: w1' recv_ok_def send_ok_def new_conn_def)
  have fr: "\<not> allocated (rheap (sys ?e1)) r" "\<not> allocated (msgs (sys ?e1)) t"
    using fresh by (simp_all add: w1' listener_ref_def)
  have cn: "cheap (sys ?e1) c = Some (Live ?cn)" "receiveReady ?cn" "c_proto_ctx ?cn = pctx"
    by (simp_all add: w1' new_conn_def)
  obtain w where w: "app_post_receive h al ?c ?e1 = Inr (?e1\<lparr>app_msgs := hput (app_msgs e) m \<lparr>am_taps = Some t\<rparr>, sys := w\<rparr>)"
    "recv_ok c [r] w" "send_ok c [] w" "view (rheap w) r = Some (posted_item c m t)"
    "cheap w = hput (cheap w1) c (?cn\<lparr>rcvq := Some r, receiveReady := False\<rparr>)"
    "msgs w = hput (msgs w1) t (echo_message m BUF_SIZE)" "faults w = faults w1" "lst w = lst w1"
    "proto w = h_receive h pctx r None [\<lparr>iov_base = m, iov_len = BUF_SIZE\<rparr>] 1 (proto w1)"
    "sheap w = sheap w1" "\<forall>b. b \<noteq> r \<longrightarrow> rheap w b = rheap w1 b"
    using post_receive_ok [OF q cn _ _ fr al, of la lo h] app by auto
  let ?e2 = "?e1\<lparr>app_msgs := hput (app_msgs e) m \<lparr>am_taps = Some t\<rparr>, sys := w\<rparr>"
  let ?cn2 = "?cn\<lparr>rcvq := Some r, receiveReady := False, c_app_ctx := Some ca, c_closed := Some 10, c_connectionError := Some 11\<rparr>"
  let ?w2 = "set_conn c ?cn2 w"
  have r2: "recv_ok c [r] ?w2"
    by (rule recv_ok_cong [OF w(2), where cn' = ?cn2]) (use w(5) in \<open>auto simp: new_conn_def\<close>)
  have s2: "send_ok c [] ?w2"
    by (rule send_ok_cong [OF w(3), where cn' = ?cn2]) (use w(5) in \<open>auto simp: new_conn_def\<close>)
  have "app_connection_received h al (Some ca) (l_app_ctx (lst w1)) c (e\<lparr>sys := w1\<rparr>) = Inr (Some ca, Some cbs, ?e2)"
    using w(1) app lst by (simp add: app_connection_received_def w1')
  moreover have "taps_connection_received_end c (Some ca) (Some cbs) (sys ?e2) = (Some c, ?w2)"
    using w(5) by (simp add: taps_connection_received_end_def tapsConnectionInitialize_def cbs_def)
  moreover have "echo_ok pctx c ca la r m t None (?e2\<lparr>sys := ?w2\<rparr>)"
    using app r2 s2 w by (simp add: echo_ok_def new_conn_def)
  moreover have "apart {t} c (sys e) ?w2"
    using w(5,6,10,11) fr(1) by (auto simp: apart_def w1' listener_ref_def allocated_def)
  ultimately show ?thesis using w lst by (auto simp: w1' listener_ref_def)
qed

text \<open>Both sides together, with what they leave alone.\<close>

lemma echo_accept_world:
  fixes e :: "'e tcp_state echo_world"
  assumes env: "tcp_env_ok L env" and p: "tlisteners (proto (sys e)) tla = Some (Live lc)" "lc_taps_ctx lc = Some l"
    "lc_connectionReceived lc = Some fn_connection_received" and fd: "0 \<le> fd"
    and z: "t_sent zc = None" "t_received zc = None" and evs: "accept_events L fd (ev (proto (sys e)))"
    and lst: "l_app_ctx (lst (sys e)) = Some la" "l_connectionReceived (lst (sys e)) = Some f"
    and app: "app_listeners e la = Some (Live lo)" "al_callbacks lo = cbs" and fresh: "fresh_alloc a m t r e"
    and e': "e' = echo_accept L env (Some (x, zc)) fd (Some c) (take_alloc a m t r) (Some ca) tla hs e"
  obtains p1 where "tcp_connection_received L (Some (x, zc)) fd (Some tla) (proto (sys e)) =
      ([CbConnectionReceived (Some fn_connection_received) (Some l) x], p1)"
    "proto (sys e') = tcp_connection_received_end x (Some c)
      (h_receive (tcp_handles L env (Some l)) (Some x) r None [\<lparr>iov_base = m, iov_len = BUF_SIZE\<rparr>] 1 p1)"
    "tcp_waits L x r m (proto (sys e'))" "tcp_busy L x (proto (sys e')) = None"
    "echo_ok (Some x) c ca la r m t None e'" "faults (sys e') = faults (sys e)" "exited e' = exited e"
    "lst (sys e') = (lst (sys e))\<lparr>ref_count := ref_count (lst (sys e)) + 1\<rparr>"
    "app_msgs e' = hput (app_msgs e) m \<lparr>am_taps = Some t\<rparr>" "msgs (sys e') = hput (msgs (sys e)) t (echo_message m BUF_SIZE)"
    "apart {t} c (sys e) (sys e')" "app_conns e' = hput (app_conns e) ca \<lparr>ac_l = la, ac_taps = c\<rparr>"
    "app_listeners e' = app_listeners e" "loop_broken e' = loop_broken e"
proof -
  obtain p1 where p1: "tcp_connection_received L (Some (x, zc)) fd (Some tla) (proto (sys e)) =
      ([CbConnectionReceived (Some fn_connection_received) (Some l) x], p1)"
    and p2: "\<And>p2. p2 = tcp_connection_received_end x (Some c)
        (h_receive (tcp_handles L env (Some l)) (Some x) r None [\<lparr>iov_base = m, iov_len = BUF_SIZE\<rparr>] 1 p1) \<Longrightarrow>
      tcp_waits L x r m p2 \<and> tcp_busy L x p2 = None"
    using tcp_accept_waits [OF env p fd z evs, of x c r m] by (auto simp: Let_def)
  define w1 where "w1 = snd (taps_connection_received_begin (Some c) l hs (Some x) (sys (set_proto p1 e)))"
  have w1: "taps_connection_received_begin (Some c) l hs (Some x) (sys (set_proto p1 e)) = (Some c, w1)"
    by (simp add: w1_def taps_connection_received_begin_def tapsConnectionNew_def Let_def)
  obtain e2 w2 where a: "app_connection_received (tcp_handles L env (Some l)) (take_alloc a m t r) (Some ca) (l_app_ctx (lst w1)) c
      ((set_proto p1 e)\<lparr>sys := w1\<rparr>) = Inr (Some ca, Some cbs, e2)"
    "taps_connection_received_end c (Some ca) (Some cbs) (sys e2) = (Some c, w2)"
    "echo_ok (Some x) c ca la r m t None (e2\<lparr>sys := w2\<rparr>)"
    "proto w2 = h_receive (tcp_handles L env (Some l)) (Some x) r None [\<lparr>iov_base = m, iov_len = BUF_SIZE\<rparr>] 1 p1"
    "faults w2 = faults (sys e)" "exited e2 = exited e"
    "app_msgs e2 = hput (app_msgs e) m \<lparr>am_taps = Some t\<rparr>" "msgs w2 = hput (msgs (sys e)) t (echo_message m BUF_SIZE)"
    "apart {t} c (sys e) w2" "app_conns e2 = hput (app_conns e) ca \<lparr>ac_l = la, ac_taps = c\<rparr>"
    "app_listeners e2 = app_listeners e" "loop_broken e2 = loop_broken e"
    "lst w2 = (lst (sys e))\<lparr>ref_count := ref_count (lst (sys e)) + 1\<rparr>"
    using app_accept_ok [OF w1, of la f lo r t "take_alloc a m t r" m "tcp_handles L env (Some l)" ca] lst app fresh
    by (auto simp: fresh_alloc_def)
  have eq: "(set_proto p1 e)\<lparr>sys := w1\<rparr> = e\<lparr>sys := w1\<rparr>" by (simp add: set_proto_def)
  have e'': "e' = set_proto (tcp_connection_received_end x (Some c) (proto w2)) (e2\<lparr>sys := w2\<rparr>)"
    using p1 w1 a(1) [unfolded eq] a(2) by (simp add: e' echo_accept_def)
  have "apart {t} c (sys e) (sys e')" using a(9) by (simp add: e'' set_proto_def apart_def)
  then show thesis using that [OF p1] a p2 [OF refl] by (simp add: e'')
qed

lemma echo_accept_ok:
  fixes e :: "'e tcp_state echo_world"
  assumes env: "tcp_env_ok L env" and p: "tlisteners (proto (sys e)) tla = Some (Live lc)" "lc_taps_ctx lc = Some l"
    "lc_connectionReceived lc = Some fn_connection_received" and fd: "0 \<le> fd"
    and z: "t_sent zc = None" "t_received zc = None" and evs: "accept_events L fd (ev (proto (sys e)))"
    and lst: "l_app_ctx (lst (sys e)) = Some la" "l_connectionReceived (lst (sys e)) = Some f"
    and app: "app_listeners e la = Some (Live lo)" "al_callbacks lo = cbs"
    and fresh: "fresh_alloc a m t r e" and ok: "faults (sys e) = []" "\<not> exited e"
    and e': "e' = echo_accept L env (Some (x, zc)) fd (Some c) (take_alloc a m t r) (Some ca) tla hs e"
  shows "echo_state L x c ca la (live (app_msgs e)) (live (msgs (sys e))) r m t None
      \<lparr>ew = e', mem = mm, got = [], put = [], reads = 0\<rparr> \<and>
    ref_count (lst (sys e')) = ref_count (lst (sys e)) + 1"
proof -
  have nf: "m \<notin> live (app_msgs e)" "t \<notin> live (msgs (sys e))" using fresh by (auto simp: fresh_alloc_def live_def)
  show ?thesis
    by (rule echo_accept_world [OF env p fd z evs lst app fresh e']) (use ok nf in \<open>auto simp: echo_state_def\<close>)
qed

definition demo_app :: "addr option set tcp_state echo_world" where
  "demo_app = \<lparr>sys = tcp_world, app_listeners = [5 \<mapsto> Live \<lparr>al_base = True, al_taps = Some 80, al_callbacks = cbs\<rparr>],
     app_conns = Map.empty, app_msgs = Map.empty, loop_broken = False, exited = False\<rparr>"

definition demo_conn1 :: "addr option set tcp_state echo_world" where
  "demo_conn1 = echo_accept set_events full_env (Some (51, zero_conn_ctx)) 6 (Some 200) (take_alloc 300 4096 310 320) (Some 330) 9 70 demo_app"

lemma demo_app_facts:
  "tlisteners (proto (sys demo_app)) 9 = Some (Live demo_lctx)" "lc_taps_ctx demo_lctx = Some 80"
  "lc_connectionReceived demo_lctx = Some fn_connection_received"
  "t_sent zero_conn_ctx = None" "t_received zero_conn_ctx = None"
  "accept_events set_events 6 (ev (proto (sys demo_app)))" "l_app_ctx (lst (sys demo_app)) = Some 5"
  "l_connectionReceived (lst (sys demo_app)) = Some 1"
  "app_listeners demo_app 5 = Some (Live \<lparr>al_base = True, al_taps = Some 80, al_callbacks = cbs\<rparr>)"
  "fresh_alloc 300 4096 310 320 demo_app" "faults (sys demo_app) = []" "\<not> exited demo_app"
  by (simp_all add: demo_app_def tcp_world_def tcp_demo demo_defs zero_listener_def accept_events_def
      fresh_alloc_def allocated_def)

lemmas demo_accept_defs = tcp_handles_def tcp_demo demo_defs tcp_connection_received_def
  taps_connection_received_begin_def tapsConnectionNew_def zero_listener_def app_connection_received_def
  app_post_receive_def tapsConnectionReceive_def cbs_def add_item_def call_receive_def tapsMessageGetIovec_def
  taps_connection_received_end_def tapsConnectionInitialize_def fresh_alloc_def allocated_def listener_ref_def
  set_conn_def app_call_def set_proto_def Let_def

lemma demo_fresh: "fresh_alloc 400 8192 410 420 demo_conn1"
  by (simp add: demo_conn1_def echo_accept_def demo_app_def tcp_world_def demo_accept_defs)

definition demo_waiting :: "addr option set echo_tcp" where
  "demo_waiting = \<lparr>ew = demo_conn1, mem = (\<lambda>_. 0), got = [], put = [], reads = 0\<rparr>"

lemma demo_waiting_state:
  "echo_state set_events 51 200 330 5 (live (app_msgs demo_app)) (live (msgs (sys demo_app))) 320 4096 310 None demo_waiting"
  "lst (sys demo_conn1) = (lst (sys demo_app))\<lparr>ref_count := 2\<rparr>"
proof -
  show "echo_state set_events 51 200 330 5 (live (app_msgs demo_app)) (live (msgs (sys demo_app))) 320 4096 310 None demo_waiting"
    unfolding demo_waiting_def
    using echo_accept_ok [OF full_env_ok demo_app_facts(1-3) _ demo_app_facts(4-9) _ demo_app_facts(10-12) demo_conn1_def] by simp
  show "lst (sys demo_conn1) = (lst (sys demo_app))\<lparr>ref_count := 2\<rparr>"
    by (simp add: demo_conn1_def echo_accept_def demo_app_def tcp_world_def demo_accept_defs)
qed

theorem echo_close_releases_witness:
  "allocated (msgs (sys (deliver (tcp_handles set_events full_env (Some 80)) (take_alloc 0 0 0 0) (taps_closed 200) demo_conn1))) 310"
proof -
  have ok: "echo_ok (Some 51) 200 330 5 320 4096 310 None demo_conn1"
    using demo_waiting_state(1) by (simp add: echo_state_def demo_waiting_def)
  have nr: "\<not> readyToStop (lst (sys demo_conn1))"
    by (simp add: demo_waiting_state(2) demo_app_def tcp_world_def demo_world_def zero_listener_def)
  show ?thesis using echo_close_releases [OF ok nr refl] by blast
qed

lemma echo_read_mem:
  assumes "tcp_posts L x r m (proto (sys (ew s)))"
  shows "mem (echo_read L env l x al va data s) = scatter (mem s) [\<lparr>iov_base = m, iov_len = BUF_SIZE\<rparr>] data"
  using assms
  by (auto simp: echo_read_def tcp_posts_def Let_def simp del: scatter.simps
      split: prod.splits list.splits tcp_callback.splits option.splits)

text \<open>
  C38. Pipelined input breaks the server. If data arrive while the reply to earlier data is still
  under way, the second reply is refused by TCP; \<open>tapsConnectionSend\<close> then returns an error but
  leaves its item in the queue, the application frees the message, and the queue points to freed
  memory. The bytes are never written, and when the first reply completes the library reads the
  freed message before it can tell the application.
\<close>

theorem echo_overlap_use_after_free:
  assumes env: "tcp_env_ok L env" and st: "echo_state L x c ca la M T r m t (Some (a, m', t')) s"
    and d: "data \<noteq> []" "length data \<le> 1024" and fresh: "fresh_alloc a2 m2 t2 r2 (ew s)"
    and s1: "s1 = echo_read L env l x (take_alloc a2 m2 t2 r2) va data s"
    and s2: "s2 = echo_sent L env l x al s1"
  shows "got s1 = got s @ data \<and> put s1 = put s \<and>
    (\<exists>cn. cheap (sys (ew s1)) c = Some (Live cn) \<and> item_queue (sheap (sys (ew s1))) (sndq cn) [a, a2]) \<and>
    view (sheap (sys (ew s1))) a2 = Some (reply_item c m t) \<and> \<not> allocated (msgs (sys (ew s1))) t \<and>
    faults (sys (ew s2)) = faults (sys (ew s1)) @ [UseAfterFree] \<and> trace (sys (ew s2)) = trace (sys (ew s1)) \<and>
    put s2 = put s"
proof -
  let ?p = "proto (sys (ew s))" and ?h = "tcp_handles L env l" and ?n = "of_nat (length data) :: size_t"
  from st have ok: "echo_ok (Some x) c ca la r m t (Some (a, m', t')) (ew s)"
    and w: "tcp_waits L x r m ?p" "tcp_busy L x ?p = Some a" by (auto simp: echo_state_def)
  obtain p1 v p2 where p: "tcp_received L (int (length data)) (Some x) ?p =
      ([CbReceivedPartial (Some fn_received_partial) (Some r) None (int (length data))], p1)"
    "h_send ?h (Some x) a2 [\<lparr>iov_base = m, iov_len = ?n\<rparr>] 1 p1 = (v, p2)" "v < 0"
    and p3: "\<And>p3. p3 = h_receive ?h (Some x) r2 None [\<lparr>iov_base = m2, iov_len = BUF_SIZE\<rparr>] 1 p2 \<Longrightarrow>
      tcp_waits L x r2 m2 p3 \<and> tcp_busy L x p3 = Some a \<and> written p3 = written ?p"
    using tcp_refused_reply [OF env w, of "int (length data)" l a2 "[\<lparr>iov_base = m, iov_len = ?n\<rparr>]" r2 m2] d(1)
    by (auto simp: Let_def)
  define e where "e = deliver ?h (take_alloc a2 m2 t2 r2) (taps_received_partial ?h va r None ?n) (set_proto p1 (ew s))"
  have n: "?n \<le> BUF_SIZE" using d(2) by (simp add: word_le_nat_alt unat_of_nat take_bit_nat_eq_self)
  have e: "\<exists>cn. cheap (sys e) c = Some (Live cn) \<and> item_queue (sheap (sys e)) (sndq cn) [a, a2]"
    "view (sheap (sys e)) a = Some (reply_item c m' t')" "view (sheap (sys e)) a2 = Some (reply_item c m t)"
    "msgs (sys e) t = Some (Freed (echo_message m ?n))"
    "proto (sys e) = h_receive ?h (Some x) r2 None [\<lparr>iov_base = m2, iov_len = BUF_SIZE\<rparr>] 1 p2"
    using echo_overlap_read [of "Some x" c ca la r m t a m' t' "set_proto p1 (ew s)" a2 m2 t2 r2 ?n ?h v p2 e va] ok fresh n p(2,3)
    by (simp_all add: e_def)
  note q = p3 [OF e(5)]
  have s1': "ew s1 = e" "put s1 = put s" "got s1 = got s @ data"
    using p(1) q by (simp_all add: s1 echo_read_def Let_def e_def [symmetric] wire_since_def)
  from tcp_send_event [of L x r2 m2 "proto (sys e)" a] q env obtain p4 where
    p4: "tcp_fire L x (proto (sys e)) = (Some a, p4)" "written p4 = written (proto (sys e))" by (auto simp: tcp_env_ok_def tcp_waits_def)
  have "taps_sent ?h a (sys (set_proto p4 e)) = add_fault UseAfterFree (sys (set_proto p4 e))"
    using e sent_next_freed [of "sys (set_proto p4 e)" c _ a a2 m' t' m t "echo_message m ?n" ?h] by (auto simp: set_proto_def)
  then have "deliver ?h al (taps_sent ?h a) (set_proto p4 e) = (set_proto p4 e)\<lparr>sys := add_fault UseAfterFree (sys (set_proto p4 e))\<rparr>"
    by (simp add: deliver_def new_events_def app_log_def)
  then show ?thesis using e s1' p4 by (simp add: s2 echo_sent_def wire_since_def set_proto_def allocated_def Let_def)
qed


definition demo_replying :: "addr option set echo_tcp" where
  "demo_replying = echo_read set_events full_env (Some 80) 51 (take_alloc 400 8192 410 420) None [104, 105] demo_waiting"

lemma demo_replying_fresh: "fresh_alloc 500 9500 510 520 (ew demo_replying)"
  by (simp add: demo_replying_def demo_waiting_def echo_read_def demo_conn1_def echo_accept_def demo_app_def tcp_world_def tcp_demo demo_defs tcp_connection_received_def
      taps_connection_received_begin_def tapsConnectionNew_def zero_listener_def app_connection_received_def
      app_post_receive_def tapsConnectionReceive_def cbs_def add_item_def call_receive_def tapsMessageGetIovec_def
      taps_connection_received_end_def tapsConnectionInitialize_def fresh_alloc_def allocated_def listener_ref_def
      set_conn_def app_call_def set_proto_def tcp_received_def tcp_connection_received_end_def tcp_Receive_def tcp_handles_def set_tconn_def
      deliver_def taps_received_partial_def free_data_def next_receive_def delete_recv_def delete_item_def unlink_prev_def unlink_next_def
      stale_currLength_def add_fault_def new_events_def app_received_partial_def tapsMessageNew_def tapsMessageGetFirstBuf_def msg_vec_def
      tapsMessageTruncate_def set_msg_vec_def tapsConnectionSend_def call_send_def tcp_Send_def app_log_def Let_def deref_def hfree_def deref_opt_def)

theorem echo_overlap_use_after_free_witness:
  "\<not> allocated (msgs (sys (ew (echo_read set_events full_env (Some 80) 51 (take_alloc 500 9500 510 520) None [106] demo_replying)))) 410"
proof -
  have "echo_state set_events 51 200 330 5 (live (app_msgs demo_app)) (live (msgs (sys demo_app))) 420 8192 410 (Some (400, 4096, 310)) demo_replying"
    unfolding demo_replying_def
    by (rule echo_state_read [OF full_env_ok demo_waiting_state(1)]) (simp_all add: demo_waiting_def demo_fresh)
  from echo_overlap_use_after_free [OF full_env_ok this _ _ demo_replying_fresh refl refl, of "[106]" "Some 80" None "take_alloc 0 0 0 0"]
  show ?thesis by simp
qed

end
