(* ===== verification/Taps_Echo_Main.thy ===== *)
theory Taps_Echo_Main
  imports Taps_Echo
begin

text \<open>
  The function \<open>main\<close> of src/examples/echoapp.c in three parts: what it does up to the event loop
  (\<open>echo_setup\<close>, with its clean-up path), the signal handler that ends the loop, and what it does
  after the loop (\<open>echo_teardown\<close>). The events in between are those of Taps_Echo.
\<close>

section \<open>Setting up\<close>

text \<open>What the calls below \<open>main\<close> return: allocations, the directory, the loader, the stack.\<close>

record 'p main_env =
  me_ep :: "addr option"
  me_inet :: inet_lib
  me_tp :: bool
  me_block :: "tapsPreconnection option"
  me_stack :: "tapsProtocol list"
  me_dir :: "dir_entry list option"
  me_l :: "addr option"
  me_base :: bool
  me_lalloc :: "addr option"
  me_open :: "string option \<Rightarrow> 'p dlib option"
  me_junk :: sockaddr
  me_junk6 :: sockaddr

datatype main_release =
    RelPreconnection "tapsProtocol list"
  | RelEndpoint "ep_block list"
  | RelProperties "tp_block list"
  | RelBase
  | RelAppListener

text \<open>
  The label \<open>fail\<close>: \<open>l\<close> says whether the application's listener was allocated and, if so,
  whether it has an event base. \<open>l->taps\<close> and \<open>sigint\<close> are null on every path that leads
  here.
\<close>

definition main_fail ::
  "tapsPreconnection option \<Rightarrow> tapsEndpoint option \<Rightarrow> transportProperties option \<Rightarrow> bool option \<Rightarrow>
    fault + main_release list" where
  "main_fail pc ep tp l =
     andthen (case pc of None \<Rightarrow> Inr []
              | Some c \<Rightarrow> andthen (tapsPreconnectionFree (Some c)) (\<lambda>ps. Inr [RelPreconnection ps])) (\<lambda>rel.
       Inr (rel @ (case ep of None \<Rightarrow> [] | Some e \<Rightarrow> [RelEndpoint (tapsEndpointFree e)]) @
            (case tp of None \<Rightarrow> [] | Some t \<Rightarrow> [RelProperties (tapsTransportPropertiesFree t)]) @
            (case l of None \<Rightarrow> [] | Some base \<Rightarrow> (if base then [RelBase] else []) @ [RelAppListener])))"

text \<open>How \<open>main\<close> leaves this part: through the label, or into the event loop.\<close>

datatype 'p main_end =
    MainFailed "main_release list" 'p
  | MainRunning tapsListener "'p proto_handles" addr app_listener 'p "main_release list"

definition main_failed ::
  "tapsPreconnection option \<Rightarrow> tapsEndpoint option \<Rightarrow> transportProperties option \<Rightarrow> bool option \<Rightarrow> 'p \<Rightarrow>
    (fault + 'p main_end) option" where
  "main_failed pc ep tp l p = Some (andthen (main_fail pc ep tp l) (\<lambda>rel. Inr (MainFailed rel p)))"

text \<open>From the creation of the listener on: the objects used for it are released once it exists.\<close>

definition main_listen ::
  "'p main_env \<Rightarrow> addr \<Rightarrow> tapsEndpoint \<Rightarrow> transportProperties \<Rightarrow> tapsPreconnection \<Rightarrow> 'p \<Rightarrow> (fault + 'p main_end) option" where
  "main_listen env ea ep tp pc p =
     (case me_l env of
        None \<Rightarrow> main_failed (Some pc) (Some ep) (Some tp) None p
      | Some la \<Rightarrow>
          if \<not> me_base env then main_failed (Some pc) (Some ep) (Some tp) (Some False) p
          else
            (case tapsPreconnectionListen (me_lalloc env) (me_open env) True (me_junk env) (me_junk6 env)
                    [ea \<mapsto> Live ep] (Some pc) (Some la) True (Some cbs) p of
               Inl f \<Rightarrow> Some (Inl f)
             | Inr r \<Rightarrow>
                 (case lr_listener r of
                    None \<Rightarrow> main_failed (Some pc) (Some ep) (Some tp) (Some True) (lr_proto r)
                  | Some (lo, h) \<Rightarrow>
                      Some (andthen (main_fail (Some pc) (Some ep) (Some tp) None) (\<lambda>rel.
                        Inr (MainRunning lo h la \<lparr>al_base = True, al_taps = me_lalloc env, al_callbacks = cbs\<rparr>
                          (lr_proto r) rel))))))"

definition echo_setup :: "'p main_env \<Rightarrow> 'p \<Rightarrow> (fault + 'p main_end) option" where
  "echo_setup env p =
     (case (me_ep env, tapsEndpointNew (me_ep env \<noteq> None)) of
        (Some ea, Some ep0) \<Rightarrow>
          let (r1, _, ep1) = tapsEndpointWithPort 5555 ep0 in
          if r1 = 0 then main_failed None (Some ep1) None None p
          else
            let (r2, _, ep2) = tapsEndpointWithIPv4Address (me_inet env) ''127.0.0.1'' ep1 in
            if r2 = 0 then main_failed None (Some ep2) None None p
            else
              (case tapsTransportPropertiesNew (me_tp env) TAPS_LISTENER of
                 None \<Rightarrow> main_failed None (Some ep2) None None p
               | Some tp \<Rightarrow>
                   (case tapsPreconnectionNew (me_block env) (me_stack env) (me_dir env) [ea] 1 [] 0 tp of
                      None \<Rightarrow> None
                    | Some (Inl f) \<Rightarrow> Some (Inl f)
                    | Some (Inr (_, None, _)) \<Rightarrow> main_failed None (Some ep2) (Some tp) None p
                    | Some (Inr (_, Some pc, _)) \<Rightarrow> main_listen env ea ep2 tp pc p))
      | _ \<Rightarrow> main_failed None None None None p)"

text \<open>The state in which the event loop starts.\<close>

definition echo_loop :: "tapsListener \<Rightarrow> addr \<Rightarrow> app_listener \<Rightarrow> 'p \<Rightarrow> 'p echo_world" where
  "echo_loop lo la al p =
     \<lparr>sys = \<lparr>lst = lo, proto = p, trace = [], faults = [], cheap = Map.empty, sheap = Map.empty, rheap = Map.empty,
        vheap = Map.empty, msgs = Map.empty, freed_handles = []\<rparr>,
      app_listeners = [la \<mapsto> Live al], app_conns = Map.empty, app_msgs = Map.empty, loop_broken = False, exited = False\<rparr>"

section \<open>The end\<close>

text \<open>\<open>_app_establishment_error\<close>; the library stores this callback but never calls it.\<close>

definition app_establishment_error ::
  "'p proto_handles \<Rightarrow> echo_alloc \<Rightarrow> ctx \<Rightarrow> 'p echo_world \<Rightarrow> fault + 'p echo_world" where
  "app_establishment_error h al listener e =
     andthen (deref_opt (app_listeners e) listener) (\<lambda>(la, l).
       if al_taps l = None then Inl NullDeref
       else
         let e1 = deliver h al (\<lambda>w. snd (snd (tapsListenerFree h w))) e in
         andthen (hfree (app_listeners e1) la) (\<lambda>lh. Inr (e1\<lparr>app_listeners := lh\<rparr>)))"

text \<open>
  After the loop: the result of \<open>tapsListenerFree\<close>, whether it released the listener, and what
  \<open>main\<close> releases itself. The events of the signal are libevent's.
\<close>

definition echo_teardown ::
  "'p proto_handles \<Rightarrow> echo_alloc \<Rightarrow> addr \<Rightarrow> 'p echo_world \<Rightarrow> fault + int \<times> bool \<times> main_release list \<times> 'p echo_world" where
  "echo_teardown h al la e =
     andthen (deref (app_listeners e) la) (\<lambda>l.
       if al_taps l = None then Inl NullDeref
       else
         let (r, released, w) = tapsListenerFree h (sys e);
             e1 = deliver h al (\<lambda>_. w) e in
         andthen (hfree (app_listeners e1) la) (\<lambda>lh.
           Inr (r, released, [RelBase, RelAppListener], e1\<lparr>app_listeners := lh\<rparr>)))"

section \<open>Properties\<close>

text \<open>The endpoint \<open>main\<close> configures.\<close>

definition echo_endpoint :: "in_addr \<Rightarrow> tapsEndpoint" where
  "echo_endpoint ip = zero_endpoint\<lparr>has_port := True, port := 5555, ipv4 := ip, has_ipv4 := True\<rparr>"

definition echo_releases :: "tapsProtocol list \<Rightarrow> main_release list" where
  "echo_releases ps = [RelPreconnection (rev ps), RelEndpoint [Self], RelProperties [Properties]]"

text \<open>The library's listener and the application's, as \<open>main\<close> enters the loop.\<close>

definition echo_listener :: "addr \<Rightarrow> addr \<Rightarrow> tapsListener" where
  "echo_listener pc la = zero_listener\<lparr>l_proto_ctx := Some pc, l_base := True, conn_limit := - 1,
     l_connectionReceived := cb_connectionReceived cbs, l_establishmentError := cb_establishmentError cbs, l_app_ctx := Some la\<rparr>"

definition echo_app_listener :: "addr \<Rightarrow> app_listener" where
  "echo_app_listener l = \<lparr>al_base = True, al_taps = Some l, al_callbacks = cbs\<rparr>"

lemmas echo_loop_parts = echo_listener_def echo_app_listener_def

lemma echo_endpoint_address:
  "listen_address junk junk6 (echo_endpoint ip) =
     Some (junk\<lparr>sa_family := AF_INET, sa_port := 0xb315, sin_addr := ip\<rparr>)"
  by (simp add: listen_address_spec echo_endpoint_def zero_endpoint_def htons_5555)

lemma main_fail_all:
  assumes "pc_protocol pc = ps @ rest" "numProtocols pc = int (length ps)"
  shows "main_fail (Some pc) (Some (echo_endpoint ip)) (Some (default_properties TAPS_LISTENER)) l =
    Inr (echo_releases ps @ (case l of None \<Rightarrow> [] | Some base \<Rightarrow> (if base then [RelBase] else []) @ [RelAppListener]))"
proof -
  have "tapsPreconnectionFree (Some pc) = Inr (rev ps)"
    using assms free_protocols_ok [of "length ps" "pc_protocol pc"] by (simp add: tapsPreconnectionFree_def)
  moreover have "tapsTransportPropertiesFree (default_properties TAPS_LISTENER) = [Properties]" by code_simp
  moreover have "tapsEndpointFree (echo_endpoint ip) = [Self]"
    by (simp add: tapsEndpointFree_def echo_endpoint_def zero_endpoint_def)
  ultimately show ?thesis by (simp add: main_fail_def echo_releases_def)
qed

lemma echo_setup_unfold:
  assumes "me_ep env = Some ea" "pton4 (me_inet env) ''127.0.0.1'' = Some ip" "me_tp env" "me_block env = Some b"
    "length (pc_local b) = 8" "length (pc_remote b) = 8" "length (pc_protocol b) = 256" "numProtocols b = 0"
    "found (me_dir env) (me_stack env) ps" "suitable (default_properties TAPS_LISTENER) 0 ps = q # qs"
  shows "\<exists>pc rest. echo_setup env p = main_listen env ea (echo_endpoint ip) (default_properties TAPS_LISTENER) pc p \<and>
    pc_protocol pc = (q # qs) @ rest \<and> numProtocols pc = int (length (q # qs)) \<and> numLocal pc = 1 \<and>
    (\<exists>es. pc_local pc = ea # es)"
  using preconnection_new_unfold [OF assms(9) _ _ _ _ _ _ assms(5-8), of 1 0 "[ea]" "[]" "default_properties TAPS_LISTENER"]
    assms(1-4,10)
  by (auto simp: echo_setup_def tapsEndpointNew_def tapsEndpointWithPort_def zero_endpoint_def
      tapsEndpointWithIPv4Address_def tapsTransportPropertiesNew_def echo_endpoint_def Let_def)

lemma echo_setup_listener:
  assumes "me_ep env = Some ea" "pton4 (me_inet env) ''127.0.0.1'' = Some ip" "me_tp env" "me_block env = Some b"
    "length (pc_local b) = 8" "length (pc_remote b) = 8" "length (pc_protocol b) = 256" "numProtocols b = 0"
    "found (me_dir env) (me_stack env) ps" "suitable (default_properties TAPS_LISTENER) 0 ps = q # qs"
    "me_l env = Some la" "me_base env" "me_lalloc env = Some l" "me_open env (p_libpath q) = Some lib" "load_handles lib = Some h"
    and sa: "sa = (me_junk env)\<lparr>sa_family := AF_INET, sa_port := 0xb315, sin_addr := ip\<rparr>"
  shows "echo_setup env p = Some (Inr (case h_listen h sa p of
      (None, p') \<Rightarrow> MainFailed (echo_releases (q # qs) @ [RelBase, RelAppListener]) p'
    | (Some pc, p') \<Rightarrow> MainRunning (echo_listener pc la) h la (echo_app_listener l) p' (echo_releases (q # qs))))"
proof -
  obtain pc rest es where pc: "echo_setup env p = main_listen env ea (echo_endpoint ip) (default_properties TAPS_LISTENER) pc p"
    "pc_protocol pc = (q # qs) @ rest" "numProtocols pc = int (length (q # qs))" "numLocal pc = 1" "pc_local pc = ea # es"
    using echo_setup_unfold [OF assms(1-10), of p] by blast
  note rel = main_fail_all [OF pc(2,3), of ip]
  have "tapsPreconnectionListen (Some l) (me_open env) True (me_junk env) (me_junk6 env) [ea \<mapsto> Live (echo_endpoint ip)]
      (Some pc) (Some la) True (Some cbs) p = Inr (tapsListenerNew (Some l) (Some lib) True True (Some la) sa cbs p)"
    using listen_unfold [of pc ea es q "qs @ rest" "[ea \<mapsto> Live (echo_endpoint ip)]" "echo_endpoint ip" cbs "Some l" "me_open env"
        True "me_junk env" "me_junk6 env" "Some la" p] pc assms(14)
    by (simp add: echo_endpoint_address sa cbs_def)
  then show ?thesis using pc(1) rel assms(11-13,15)
    by (simp add: main_listen_def main_failed_def tapsListenerNew_def echo_loop_parts Let_def cbs_def split: prod.split option.split)
qed

text \<open>
  \<open>main\<close> up to the event loop: when the directory offers a protocol that suits a listener, the
  server listens with the first one on 127.0.0.1, port 5555 in network byte order, and enters the
  loop with a listener that reports to the application's callbacks; if the protocol cannot listen it
  fails. In both cases the preconnection with its candidates, the endpoint and the properties have
  been released exactly once, and after the failure the event base and the application's listener
  too.
\<close>

theorem echo_setup_listens:
  assumes "me_ep env = Some ea" "pton4 (me_inet env) ''127.0.0.1'' = Some ip" "me_tp env" "me_block env = Some b"
    "length (pc_local b) = 8" "length (pc_remote b) = 8" "length (pc_protocol b) = 256" "numProtocols b = 0"
    "found (me_dir env) (me_stack env) ps" "suitable (default_properties TAPS_LISTENER) 0 ps = q # qs"
    "me_l env = Some la" "me_base env" "me_lalloc env = Some l" "me_open env (p_libpath q) = Some lib" "load_handles lib = Some h"
    "sa = (me_junk env)\<lparr>sa_family := AF_INET, sa_port := 0xb315, sin_addr := ip\<rparr>" "h_listen h sa p = (res, p')"
  shows "case res of
      None \<Rightarrow> echo_setup env p = Some (Inr (MainFailed (echo_releases (q # qs) @ [RelBase, RelAppListener]) p'))
    | Some pc \<Rightarrow> \<exists>lo. echo_setup env p = Some (Inr (MainRunning lo h la
          \<lparr>al_base = True, al_taps = Some l, al_callbacks = cbs\<rparr> p' (echo_releases (q # qs)))) \<and>
        l_proto_ctx lo = Some pc \<and> l_app_ctx lo = Some la \<and> l_connectionReceived lo = cb_connectionReceived cbs \<and>
        ref_count lo = 0 \<and> \<not> readyToStop lo"
  using echo_setup_listener [OF assms(1-16), of p] assms(17)
  by (simp add: echo_loop_parts zero_listener_def cbs_def split: option.split)

text \<open>A library that is found under every path and whose \<open>Listen\<close> gives the context 9.\<close>

definition demo_lib :: "unit dlib" where
  "demo_lib = \<lparr>sym_Listen = Some (\<lambda>_ p. (Some 9, p)), sym_Stop = Some (\<lambda>_ p. (True, p)),
     sym_Send = Some (\<lambda>_ _ _ _ p. (0, p)), sym_Receive = Some (\<lambda>_ _ _ _ _ p. p)\<rparr>"

definition demo_main_env :: "'p dlib \<Rightarrow> 'p main_env" where
  "demo_main_env lib = \<lparr>me_ep = Some 40,
     me_inet = \<lparr>pton4 = (\<lambda>s. if s = ''127.0.0.1'' then Some 0x0100007f else None), pton6 = (\<lambda>_. None),
       ntop4 = (\<lambda>_. []), ntop6 = (\<lambda>_. [])\<rparr>,
     me_tp = True, me_block = Some fresh_block, me_stack = replicate 255 zero_protocol, me_dir = kernel_dir,
     me_l = Some 5, me_base = True, me_lalloc = Some 80, me_open = (\<lambda>_. Some lib), me_junk = zero_sockaddr,
     me_junk6 = zero_sockaddr\<rparr>"

lemma demo_main_suitable:
  "found (me_dir (demo_main_env lib)) (me_stack (demo_main_env lib)) [slot_of kernel_tcp, slot_of kernel_udp]"
  "suitable (default_properties TAPS_LISTENER) 0 [slot_of kernel_tcp, slot_of kernel_udp] = [slot_of kernel_tcp]"
  using kernel_found [of "replicate 255 zero_protocol"]
  by (simp_all add: demo_main_env_def suitable_def kernel_suitable)

theorem echo_setup_listens_witness:
  "\<exists>lo. echo_setup (demo_main_env demo_lib) () = Some (Inr (MainRunning lo (the (load_handles demo_lib)) 5
      \<lparr>al_base = True, al_taps = Some 80, al_callbacks = cbs\<rparr> () (echo_releases [slot_of kernel_tcp])))"
proof -
  have lib: "load_handles demo_lib = Some (the (load_handles demo_lib))" "h_listen (the (load_handles demo_lib)) sa () = (Some 9, ())" for sa
    by (simp_all add: load_handles_def demo_lib_def)
  from echo_setup_listens [OF _ _ _ _ _ _ _ _ demo_main_suitable _ _ _ _ lib(1) refl lib(2),
      where ea = 40 and ip = "0x0100007f" and b = fresh_block and la = 5 and l = 80]
  show ?thesis by (auto simp: demo_main_env_def fresh_block_def)
qed

text \<open>The handler of the interrupt: the protocol reports the stop before \<open>Stop\<close> returns.\<close>

lemma sighandler_unfold:
  assumes l: "app_listeners e la = Some (Live l)" "al_taps l = Some t" "al_callbacks l = cbs"
    and w: "l_app_ctx (lst (sys e)) = Some la" "h_stop h (l_proto_ctx (lst (sys e))) (proto (sys e)) = (True, p')"
    and fin: "fin = (ref_count (lst (sys e)) = 0)"
  shows "app_sighandler h al (Some la) e = e\<lparr>sys := (sys e)\<lparr>proto := p',
      lst := (lst (sys e))\<lparr>l_stopped := (if fin then None else Some 3), readyToStop := True\<rparr>,
      trace := trace (sys e) @ (if fin then [(3, Stopped (Some la))] else [])\<rparr>, loop_broken := loop_broken e \<or> fin\<rparr>"
proof -
  have s: "cb_stopped cbs = Some 3" by (simp add: cbs_def)
  have w': "snd (snd (tapsListenerStop h (Some t) (Some cbs) (sys e))) = (sys e)\<lparr>proto := p',
      lst := (lst (sys e))\<lparr>l_stopped := (if fin then None else Some 3), readyToStop := True\<rparr>,
      trace := trace (sys e) @ (if fin then [(3, Stopped (Some la))] else [])\<rparr>"
    using w s fin
    by (cases "lst (sys e)") (auto simp: tapsListenerStop_def call_stop_def taps_stopped_def app_call_def Let_def)
  show ?thesis
    using l w' s by (cases fin) (simp_all add: app_sighandler_def app_log_def deliver_def app_stopped_def)
qed

text \<open>
  An interrupt ends the program when no connection is left: the handler stops the listener, the
  protocol reports the stop, the application's callback breaks the event loop, and the code after
  the loop releases the TAPS listener, the event base and the application's listener, without a
  fault. While connections are open the loop goes on until the last of them closes.
\<close>

theorem echo_sigint_ends:
  assumes l: "app_listeners e la = Some (Live l)" "al_taps l = Some t" "al_callbacks l = cbs"
    and w: "l_app_ctx (lst (sys e)) = Some la" "h_stop h (l_proto_ctx (lst (sys e))) (proto (sys e)) = (True, p')"
      "\<not> loop_broken e"
    and e1: "e1 = app_sighandler h al (Some la) e"
  shows "if ref_count (lst (sys e)) = 0
    then loop_broken e1 \<and> faults (sys e1) = faults (sys e) \<and>
      (\<exists>e2. echo_teardown h al la e1 = Inr (0, True, [RelBase, RelAppListener], e2) \<and>
        \<not> allocated (app_listeners e2) la \<and> faults (sys e2) = faults (sys e))
    else \<not> loop_broken e1 \<and> faults (sys e1) = faults (sys e) \<and> readyToStop (lst (sys e1)) \<and>
      l_stopped (lst (sys e1)) = cb_stopped cbs \<and> ref_count (lst (sys e1)) = ref_count (lst (sys e))"
proof -
  have e1': "e1 = e\<lparr>sys := (sys e)\<lparr>proto := p',
      lst := (lst (sys e))\<lparr>l_stopped := (if ref_count (lst (sys e)) = 0 then None else Some 3), readyToStop := True\<rparr>,
      trace := trace (sys e) @ (if ref_count (lst (sys e)) = 0 then [(3, Stopped (Some la))] else [])\<rparr>,
      loop_broken := loop_broken e \<or> ref_count (lst (sys e)) = 0\<rparr>"
    using sighandler_unfold [OF l w(1,2) refl] e1 by simp
  show ?thesis
  proof (cases "ref_count (lst (sys e)) = 0")
    case True
    then have "tapsListenerFree h (sys e1) = (0, True, sys e1)" by (simp add: e1' tapsListenerFree_def)
    then show ?thesis using True l
      by (simp add: e1' echo_teardown_def deliver_def new_events_def app_log_def allocated_def)
  next
    case False
    then show ?thesis using w(3) by (simp add: e1' cbs_def)
  qed
qed

theorem echo_sigint_ends_witness:
  "loop_broken (app_sighandler (tcp_handles set_events full_env (Some 80)) (take_alloc 0 0 0 0) (Some 5)
     (demo_app\<lparr>sys := (sys demo_app)\<lparr>lst := (lst (sys demo_app))\<lparr>ref_count := 0, l_proto_ctx := Some 9\<rparr>\<rparr>\<rparr>))"
proof -
  let ?e = "demo_app\<lparr>sys := (sys demo_app)\<lparr>lst := (lst (sys demo_app))\<lparr>ref_count := 0, l_proto_ctx := Some 9\<rparr>\<rparr>\<rparr>"
  let ?h = "tcp_handles set_events full_env (Some 80)"
  obtain p' where stop: "h_stop ?h (l_proto_ctx (lst (sys ?e))) (proto (sys ?e)) = (True, p')"
    by (simp add: demo_app_def tcp_world_def demo_tcp_def tcp_handles_def tcp_Stop_def)
  have "app_listeners ?e 5 = Some (Live \<lparr>al_base = True, al_taps = Some 80, al_callbacks = cbs\<rparr>)"
    "l_app_ctx (lst (sys ?e)) = Some 5" "\<not> loop_broken ?e"
    by (simp_all add: demo_app_facts, simp_all add: demo_app_def)
  from echo_sigint_ends [OF this(1) _ _ this(2) stop this(3) refl] show ?thesis by simp
qed

end
