(* ===== verification/Taps_Echo_Many.thy ===== *)
theory Taps_Echo_Many
  imports Taps_Echo_Main "HOL-Library.Sublist"
begin

text \<open>
  The event loop of src/examples/echoapp.c with any number of connections at once. libevent runs one
  handler after the other, so a run is a sequence of steps, each of them for one connection: it is
  accepted, data arrive, a read fails or finds nothing, a reply is complete, the peer closes; or the
  interrupt arrives. A \<open>writev\<close> may write less than it is given. The handlers
  are those of Taps_Echo and Taps_Echo_Main on the shared memory of the program; what is shown is
  that they do not disturb each other.
\<close>

section \<open>Connections that are left alone\<close>

definition echo_apart :: "addr set \<Rightarrow> addr set \<Rightarrow> addr \<Rightarrow> addr \<Rightarrow> 'p echo_world \<Rightarrow> 'p echo_world \<Rightarrow> bool" where
  "echo_apart T M c ca e e' \<longleftrightarrow> apart T c (sys e) (sys e') \<and> (\<forall>b. b \<noteq> ca \<longrightarrow> app_conns e' b = app_conns e b) \<and>
     (\<forall>b. b \<notin> M \<longrightarrow> app_msgs e' b = app_msgs e b) \<and> app_listeners e' = app_listeners e"

lemma echo_ok_apart:
  assumes ap: "echo_apart T M c ca e e'" and ok: "echo_ok pctx d da la r m t q e" and ne: "d \<noteq> c" "da \<noteq> ca"
    and T: "({t} \<union> reply_message q) \<inter> T = {}" and M: "({m} \<union> reply_buffer q) \<inter> M = {}"
  shows "echo_ok pctx d da la r m t q e'"
proof -
  note ap' = ap [unfolded echo_apart_def]
  have ap1: "apart T c (sys e) (sys e')" using ap' by blast
  let ?xs = "case q of None \<Rightarrow> [] | Some (a, _) \<Rightarrow> [a]"
  from ok have r: "recv_ok d [r] (sys e)" "view (rheap (sys e)) r = Some (posted_item d m t)" "send_ok d ?xs (sys e)"
    by (auto simp: echo_ok_def)
  have "recv_ok d [r] (sys e')"
    by (rule recv_ok_apart [OF ap1 ne(1) r(1)]) (use r(2) T in \<open>auto simp: posted_item_def\<close>)
  moreover have "view (rheap (sys e')) r = Some (posted_item d m t)"
    using apart_rheap [OF ap1 ne(1) r(2)] view_eq [of "rheap (sys e')" r "rheap (sys e)"] r(2) by (simp add: posted_item_def)
  moreover have "send_ok d ?xs (sys e')"
    by (rule send_ok_apart [OF ap1 ne(1) r(3)]) (use ok T in \<open>auto simp: echo_ok_def reply_item_def split: option.splits prod.splits\<close>)
  moreover have "view (sheap (sys e')) a = Some (reply_item d m' t')" if "q = Some (a, m', t')" for a m' t'
  proof -
    from ok that have v: "view (sheap (sys e)) a = Some (reply_item d m' t')" by (simp add: echo_ok_def)
    with apart_sheap [OF ap1 ne(1) v] view_eq [of "sheap (sys e')" a "sheap (sys e)"] show ?thesis by (simp add: reply_item_def)
  qed
  moreover have "cheap (sys e') d = cheap (sys e) d" "msgs (sys e') t = msgs (sys e) t" using ap1 ne T by (auto simp: apart_def)
  moreover have "app_conns e' da = app_conns e da" "app_listeners e' = app_listeners e" "app_msgs e' m = app_msgs e m"
    using ap' ne M by auto
  moreover have "app_msgs e' m' = app_msgs e m'" if "q = Some (a, m', t')" for a m' t' using that ap' M by auto
  ultimately show ?thesis using ok by (cases q) (auto simp: echo_ok_def)
qed

lemma tcp_posts_apart:
  assumes "tcp_apart L E x p p'" "y \<noteq> x" "set (conn_events y p) \<inter> E = {}"
  shows "tcp_posts L y r m p' = tcp_posts L y r m p" "tcp_busy L y p' = tcp_busy L y p" "tcp_hears L y p' = tcp_hears L y p"
proof -
  have c: "tconns p' y = tconns p y" using conn_apart(1) [OF assms(1,2)] .
  have "event_pending L b (ev p') = event_pending L b (ev p)" if "b \<in> set (conn_events y p)" for b
    using assms(1,3) that by (auto simp: tcp_apart_def)
  then have "event_pending L (sendEvent cc) (ev p') = event_pending L (sendEvent cc) (ev p)"
    "event_pending L (receiveEvent cc) (ev p') = event_pending L (receiveEvent cc) (ev p)" if "tconns p y = Some (Live cc)" for cc
    using that by (simp_all add: conn_events_def)
  with c show "tcp_posts L y r m p' = tcp_posts L y r m p" "tcp_busy L y p' = tcp_busy L y p" "tcp_hears L y p' = tcp_hears L y p"
    by (auto simp: tcp_posts_def tcp_hears_def tcp_conn_ok_def tcp_busy_def split: option.splits cell.splits)
qed

section \<open>The connections of the server\<close>

text \<open>
  What belongs to one connection: the TAPS connection and the application's, the receive posted with
  its buffer and message, and the reply under way.
\<close>

record peer =
  pconn :: addr
  pac :: addr
  pitem :: addr
  pbuf :: addr
  pmsg :: addr
  preply :: "(addr \<times> addr \<times> addr) option"

definition bufs :: "peer \<Rightarrow> addr set" where
  "bufs i = {pbuf i} \<union> reply_buffer (preply i)"

definition mess :: "peer \<Rightarrow> addr set" where
  "mess i = {pmsg i} \<union> reply_message (preply i)"

definition peer_ok :: "'e evlib \<Rightarrow> addr \<Rightarrow> 'e tcp_state echo_world \<Rightarrow> addr \<Rightarrow> peer \<Rightarrow> bool" where
  "peer_ok L la e x i \<longleftrightarrow> echo_ok (Some x) (pconn i) (pac i) la (pitem i) (pbuf i) (pmsg i) (preply i) e \<and>
     tcp_posts L x (pitem i) (pbuf i) (proto (sys e)) \<and> tcp_busy L x (proto (sys e)) = map_option fst (preply i) \<and>
     conn_owner x (proto (sys e)) = Some (Some fn_closed, Some (pconn i))"

definition conns_at :: "'e evlib \<Rightarrow> addr \<Rightarrow> addr set \<Rightarrow> (addr \<Rightarrow> peer) \<Rightarrow> 'e tcp_state echo_world \<Rightarrow> bool" where
  "conns_at L la X I e \<longleftrightarrow> (\<forall>x \<in> X. peer_ok L la e x (I x)) \<and>
     (\<forall>x \<in> X. \<forall>y \<in> X. x \<noteq> y \<longrightarrow> mess (I x) \<inter> mess (I y) = {} \<and>
        set (conn_events x (proto (sys e))) \<inter> set (conn_events y (proto (sys e))) = {})"

text \<open>Two connections share neither objects nor, if they share no message, a buffer.\<close>

lemma peer_distinct:
  assumes "peer_ok L la e x i" "peer_ok L la e y j" "x \<noteq> y"
  shows "pconn j \<noteq> pconn i" "pac j \<noteq> pac i" "mess i \<inter> mess j = {} \<Longrightarrow> bufs i \<inter> bufs j = {}"
proof -
  show c: "pconn j \<noteq> pconn i" using assms by (auto simp: peer_ok_def echo_ok_def)
  then show "pac j \<noteq> pac i" using assms(1,2) by (auto simp: peer_ok_def echo_ok_def)
  have taps: "\<exists>t \<in> mess k. app_msgs e b = Some (Live \<lparr>am_taps = Some t\<rparr>)" if "peer_ok L la e z k" "b \<in> bufs k" for z k b
    using that by (cases "preply k") (auto simp: peer_ok_def echo_ok_def bufs_def mess_def)
  then show "bufs i \<inter> bufs j = {}" if "mess i \<inter> mess j = {}"
    using taps [OF assms(1)] taps [OF assms(2)] that by fastforce
qed

lemma conns_frame:
  assumes at: "conns_at L la Y I e" and ap: "echo_apart T M c ca e e'" "tcp_apart L E x (proto (sys e)) (proto (sys e'))"
    and ne: "\<And>y. y \<in> Y \<Longrightarrow> y \<noteq> x \<and> pconn (I y) \<noteq> c \<and> pac (I y) \<noteq> ca \<and> mess (I y) \<inter> T = {} \<and> bufs (I y) \<inter> M = {} \<and>
      set (conn_events y (proto (sys e))) \<inter> E = {}"
  shows "conns_at L la Y I e' \<and> (\<forall>y \<in> Y. conn_events y (proto (sys e')) = conn_events y (proto (sys e)))"
proof -
  have same: "conn_events y (proto (sys e')) = conn_events y (proto (sys e))" if "y \<in> Y" for y
    using conn_apart(2) [OF ap(2)] ne [OF that] by blast
  moreover have "peer_ok L la e' y (I y)" if y: "y \<in> Y" for y
  proof -
    have ok: "peer_ok L la e y (I y)" using at y by (simp add: conns_at_def)
    have n: "y \<noteq> x" "pconn (I y) \<noteq> c" "pac (I y) \<noteq> ca" "mess (I y) \<inter> T = {}" "bufs (I y) \<inter> M = {}"
      "set (conn_events y (proto (sys e))) \<inter> E = {}" using ne [OF y] by auto
    show ?thesis
      using ok echo_ok_apart [OF ap(1) _ n(2,3) n(4) [unfolded mess_def] n(5) [unfolded bufs_def]]
        tcp_posts_apart [OF ap(2) n(1,6)] conn_apart(3) [OF ap(2) n(1)]
      by (simp add: peer_ok_def)
  qed
  ultimately show ?thesis using at by (simp add: conns_at_def)
qed

lemma conns_insert:
  assumes "conns_at L la Y I e" "x \<notin> Y" "peer_ok L la e x i"
    and "\<And>y. y \<in> Y \<Longrightarrow> mess (I y) \<inter> mess i = {} \<and> set (conn_events y (proto (sys e))) \<inter> set (conn_events x (proto (sys e))) = {}"
  shows "conns_at L la (insert x Y) (I(x := i)) e"
  using assms unfolding conns_at_def by (auto simp: Int_commute)

section \<open>The event loop\<close>

text \<open>
  The program and its memory; for every TCP context the bytes read from its socket and written to it
  since it was accepted; the open connections; how many reads there were, how many connections were
  closed and how many of these in the middle of a reply; whether the interrupt has arrived.
\<close>

record 'e echo_net =
  nw :: "'e tcp_state echo_world"
  nmem :: memory
  ngot :: "addr \<Rightarrow> 8 word list"
  nput :: "addr \<Rightarrow> 8 word list"
  peers :: "addr set"
  nreads :: nat
  nclosed :: nat
  ncut :: nat
  stopping :: bool

abbreviation nproto :: "'e echo_net \<Rightarrow> 'e tcp_state" where
  "nproto s \<equiv> proto (sys (nw s))"

definition wire_to :: "addr \<Rightarrow> 'e tcp_state \<Rightarrow> memory \<Rightarrow> 'e tcp_state \<Rightarrow> 8 word list" where
  "wire_to y p0 mm p =
     concat (map (\<lambda>(_, _, vs, k). take (nat k) (vec_bytes mm vs)) (filter (\<lambda>r. fst r = y) (drop (length (written p0)) (written p))))"

text \<open>The program as one handler finds it.\<close>

definition one_conn :: "'e echo_net \<Rightarrow> 'e echo_tcp" where
  "one_conn s = \<lparr>ew = nw s, mem = nmem s, got = [], put = [], reads = 0\<rparr>"

lemma one_conn_simps [simp]:
  "ew (one_conn s) = nw s" "mem (one_conn s) = nmem s" "got (one_conn s) = []" "put (one_conn s) = []" "reads (one_conn s) = 0"
  by (simp_all add: one_conn_def)

definition net_update :: "'e tcp_state echo_world \<Rightarrow> memory \<Rightarrow> 'e echo_net \<Rightarrow> 'e echo_net" where
  "net_update e mm s = s\<lparr>nw := e, nmem := mm, nput := (\<lambda>y. nput s y @ wire_to y (nproto s) mm (proto (sys e)))\<rparr>"

definition net_read ::
  "'e evlib \<Rightarrow> 'e tcp_env \<Rightarrow> ctx \<Rightarrow> addr \<Rightarrow> echo_alloc \<Rightarrow> addr option \<Rightarrow> 8 word list \<Rightarrow> 'e echo_net \<Rightarrow> 'e echo_net" where
  "net_read L env l x al va data s =
     (let t = echo_read L env l x al va data (one_conn s)
      in (net_update (ew t) (mem t) s)\<lparr>ngot := (ngot s)(x := ngot s x @ data), nreads := Suc (nreads s)\<rparr>)"

text \<open>\<open>readv\<close> fails or finds nothing: \<open>_tcp_received\<close> with that result, which calls nobody.\<close>

definition net_empty :: "'e evlib \<Rightarrow> addr \<Rightarrow> int \<Rightarrow> 'e echo_net \<Rightarrow> 'e echo_net" where
  "net_empty L x n s = s\<lparr>nw := set_proto (snd (tcp_received L n (Some x) (nproto s))) (nw s)\<rparr>"

definition net_sent :: "'e evlib \<Rightarrow> 'e tcp_env \<Rightarrow> ctx \<Rightarrow> addr \<Rightarrow> echo_alloc \<Rightarrow> 'e echo_net \<Rightarrow> 'e echo_net" where
  "net_sent L env l x al s = (let t = echo_sent L env l x al (one_conn s) in net_update (ew t) (mem t) s)"

definition net_accept ::
  "'e evlib \<Rightarrow> 'e tcp_env \<Rightarrow> addr \<Rightarrow> tcp_conn_ctx \<Rightarrow> int \<Rightarrow> addr option \<Rightarrow> echo_alloc \<Rightarrow> addr option \<Rightarrow> addr \<Rightarrow> addr \<Rightarrow>
    'e echo_net \<Rightarrow> 'e echo_net" where
  "net_accept L env x zc fd alloc al app_alloc tla hs s =
     (net_update (echo_accept L env (Some (x, zc)) fd alloc al app_alloc tla hs (nw s)) (nmem s)
        (s\<lparr>ngot := (ngot s)(x := []), nput := (nput s)(x := [])\<rparr>))\<lparr>peers := insert x (peers s)\<rparr>"

text \<open>The peer closes: libevent runs \<open>_tcp_closed\<close>, which runs the rest.\<close>

definition net_close :: "'e evlib \<Rightarrow> 'e tcp_env \<Rightarrow> ctx \<Rightarrow> addr \<Rightarrow> echo_alloc \<Rightarrow> 'e echo_net \<Rightarrow> 'e echo_net" where
  "net_close L env l x al s =
     (let s' = s\<lparr>peers := peers s - {x}, nclosed := Suc (nclosed s),
            ncut := (if tcp_busy L x (nproto s) = None then ncut s else Suc (ncut s))\<rparr>
      in case tcp_closed L (Some x) (nproto s) of
           ([CbClosed f (Some c)], p1) \<Rightarrow>
             if f = Some fn_closed
             then net_update (deliver (tcp_handles L env l) al (taps_closed c) (set_proto p1 (nw s))) (nmem s) s'
             else s'\<lparr>nw := set_proto p1 (nw s)\<rparr>
         | (_, p1) \<Rightarrow> s'\<lparr>nw := set_proto p1 (nw s)\<rparr>)"

definition net_sigint :: "'e evlib \<Rightarrow> 'e tcp_env \<Rightarrow> ctx \<Rightarrow> addr \<Rightarrow> echo_alloc \<Rightarrow> 'e echo_net \<Rightarrow> 'e echo_net" where
  "net_sigint L env l la al s =
     (net_update (app_sighandler (tcp_handles L env l) al (Some la) (nw s)) (nmem s) s)\<lparr>stopping := True\<rparr>"

text \<open>The events that are in use: those of the open connections and that of the TCP listener.\<close>

definition listener_events :: "addr \<Rightarrow> 'e tcp_state \<Rightarrow> addr option set" where
  "listener_events tla p = (case tlisteners p tla of Some (Live lc) \<Rightarrow> {lc_event lc} | _ \<Rightarrow> {})"

text \<open>
  The steps while the loop runs. \<open>malloc\<close> and \<open>event_new\<close> give objects that are not in use, the
  context of a new connection comes zeroed, a read that brings data, between 1 and \<open>BUF_SIZE\<close> bytes,
  finds the earlier reply complete. A read, whatever it brings, needs its event to be pending. A
  connection may close at any time.
\<close>

inductive net_step ::
  "'e evlib \<Rightarrow> 'e tcp_env \<Rightarrow> addr \<Rightarrow> addr \<Rightarrow> addr \<Rightarrow> addr \<Rightarrow> 'e echo_net \<Rightarrow> 'e echo_net \<Rightarrow> bool"
  for L env l la tla hs where
  ns_accept: "\<not> loop_broken (nw s) \<Longrightarrow> \<not> stopping s \<Longrightarrow> 0 \<le> fd \<Longrightarrow> t_sent zc = None \<Longrightarrow> t_received zc = None \<Longrightarrow>
    accept_events L fd (ev (nproto s)) \<Longrightarrow>
    set (new_conn_events L fd (ev (nproto s))) \<inter>
      (listener_events tla (nproto s) \<union> (\<Union>y \<in> peers s. set (conn_events y (nproto s)))) = {} \<Longrightarrow>
    fresh_alloc a m t r (nw s) \<Longrightarrow> \<not> allocated (cheap (sys (nw s))) c \<Longrightarrow> \<not> allocated (app_conns (nw s)) ca \<Longrightarrow>
    \<not> allocated (tconns (nproto s)) x \<Longrightarrow> Suc (card (peers s)) < 2 ^ 32 \<Longrightarrow>
    net_step L env l la tla hs s (net_accept L env x zc fd (Some c) (take_alloc a m t r) (Some ca) tla hs s)"
| ns_read: "\<not> loop_broken (nw s) \<Longrightarrow> x \<in> peers s \<Longrightarrow> tcp_hears L x (nproto s) \<Longrightarrow> tcp_busy L x (nproto s) = None \<Longrightarrow> data \<noteq> [] \<Longrightarrow> length data \<le> 1024 \<Longrightarrow>
    fresh_alloc a m t r (nw s) \<Longrightarrow>
    net_step L env l la tla hs s (net_read L env (Some l) x (take_alloc a m t r) va data s)"
| ns_empty: "\<not> loop_broken (nw s) \<Longrightarrow> x \<in> peers s \<Longrightarrow> tcp_hears L x (nproto s) \<Longrightarrow> n \<le> 0 \<Longrightarrow>
    net_step L env l la tla hs s (net_empty L x n s)"
| ns_sent: "\<not> loop_broken (nw s) \<Longrightarrow> x \<in> peers s \<Longrightarrow> tcp_busy L x (nproto s) = Some a \<Longrightarrow>
    net_step L env l la tla hs s (net_sent L env (Some l) x al s)"
| ns_close: "\<not> loop_broken (nw s) \<Longrightarrow> x \<in> peers s \<Longrightarrow>
    net_step L env l la tla hs s (net_close L env (Some l) x al s)"
| ns_sigint: "\<not> loop_broken (nw s) \<Longrightarrow> \<not> stopping s \<Longrightarrow>
    net_step L env l la tla hs s (net_sigint L env (Some l) la al s)"

section \<open>The invariant\<close>

text \<open>
  The live memory of the application: what belongs to the open connections, and what closed ones
  have left behind (\<open>B\<close> buffers and \<open>T\<close> messages).
\<close>

definition net_mem :: "addr set \<Rightarrow> addr set \<Rightarrow> addr set \<Rightarrow> (addr \<Rightarrow> peer) \<Rightarrow> 'p echo_world \<Rightarrow> bool" where
  "net_mem B T X I e \<longleftrightarrow> finite B \<and> finite T \<and>
     live (app_msgs e) = B \<union> (\<Union>x \<in> X. bufs (I x)) \<and> B \<inter> (\<Union>x \<in> X. bufs (I x)) = {} \<and>
     live (msgs (sys e)) = T \<union> (\<Union>x \<in> X. mess (I x)) \<and> T \<inter> (\<Union>x \<in> X. mess (I x)) = {}"

text \<open>The listener of the library, of the application and of the TCP module.\<close>

definition net_lst :: "addr \<Rightarrow> addr \<Rightarrow> addr \<Rightarrow> 'e echo_net \<Rightarrow> bool" where
  "net_lst l la tla s \<longleftrightarrow>
     l_app_ctx (lst (sys (nw s))) = Some la \<and> l_connectionReceived (lst (sys (nw s))) = Some 1 \<and>
     l_proto_ctx (lst (sys (nw s))) = Some tla \<and> readyToStop (lst (sys (nw s))) = stopping s \<and>
     ref_count (lst (sys (nw s))) = of_nat (card (peers s)) \<and>
     l_stopped (lst (sys (nw s))) = (if stopping s \<and> \<not> loop_broken (nw s) then Some 3 else None) \<and>
     loop_broken (nw s) = (stopping s \<and> peers s = {}) \<and> app_listeners (nw s) la = Some (Live (echo_app_listener l)) \<and>
     \<not> exited (nw s) \<and> faults (sys (nw s)) = replicate (nreads s) UseAfterFree"

definition net_tcp :: "addr \<Rightarrow> addr \<Rightarrow> 'e echo_net \<Rightarrow> bool" where
  "net_tcp l tla s \<longleftrightarrow> t_faults (nproto s) = (if stopping s then [UseAfterFree] else []) \<and>
     (\<not> stopping s \<longrightarrow> (\<exists>lc. tlisteners (nproto s) tla = Some (Live lc) \<and> lc_taps_ctx lc = Some l \<and>
        lc_connectionReceived lc = Some fn_connection_received \<and> lc_closed lc = Some fn_closed \<and>
        (\<forall>x \<in> peers s. lc_event lc \<notin> set (conn_events x (nproto s)))))"

text \<open>
  What was written is what was read, less what short writes have lost: in order, nothing twice and
  nothing of another connection.
\<close>

definition echoes :: "'e tcp_env \<Rightarrow> (addr \<Rightarrow> 8 word list) \<Rightarrow> (addr \<Rightarrow> 8 word list) \<Rightarrow> bool" where
  "echoes env out inp \<longleftrightarrow> (\<forall>x. subseq (out x) (inp x)) \<and> (whole_writes env \<longrightarrow> out = inp)"

definition net_inv :: "'e evlib \<Rightarrow> 'e tcp_env \<Rightarrow> addr \<Rightarrow> addr \<Rightarrow> addr \<Rightarrow> 'e echo_net \<Rightarrow> bool" where
  "net_inv L env l la tla s \<longleftrightarrow> tcp_env_ok L env \<and> libevent_local L \<and> finite (peers s) \<and> card (peers s) < 2 ^ 32 \<and>
     echoes env (nput s) (ngot s) \<and> net_lst l la tla s \<and> net_tcp l tla s \<and>
     (\<exists>I B T. conns_at L la (peers s) I (nw s) \<and> net_mem B T (peers s) I (nw s) \<and> card B = ncut s \<and> card T = nclosed s)"

section \<open>One connection and the others\<close>

lemma union_split:
  assumes "x \<in> X"
  shows "(\<Union>z \<in> X. f (I z)) = f (I x) \<union> (\<Union>z \<in> X - {x}. f (I z))"
    "(\<Union>z \<in> X. f ((I(x := i)) z)) = f i \<union> (\<Union>z \<in> X - {x}. f (I z))"
  using assms by (auto split: if_splits)

lemma conns_others:
  assumes "conns_at L la X I e" "x \<in> X" "y \<in> X - {x}"
  shows "y \<noteq> x \<and> pconn (I y) \<noteq> pconn (I x) \<and> pac (I y) \<noteq> pac (I x) \<and> mess (I y) \<inter> mess (I x) = {} \<and>
    bufs (I y) \<inter> bufs (I x) = {} \<and> set (conn_events y (proto (sys e))) \<inter> set (conn_events x (proto (sys e))) = {}"
  using assms peer_distinct [of L la e x "I x" y "I y"] by (auto simp: conns_at_def)

text \<open>A handler of connection \<open>x\<close> has run; the others are as they were.\<close>

lemma conns_rest:
  assumes at: "conns_at L la X I e" "x \<in> X"
    and ap: "echo_apart T M (pconn (I x)) (pac (I x)) e e'"
      "tcp_apart L (set (conn_events x (proto (sys e)))) x (proto (sys e)) (proto (sys e'))"
    and d: "\<And>y. y \<in> X - {x} \<Longrightarrow> mess (I y) \<inter> T = {} \<and> bufs (I y) \<inter> M = {}"
  shows "conns_at L la (X - {x}) I e'" "\<And>y. y \<in> X - {x} \<Longrightarrow> conn_events y (proto (sys e')) = conn_events y (proto (sys e))"
proof -
  have "conns_at L la (X - {x}) I e" using at(1) by (simp add: conns_at_def)
  from conns_frame [OF this ap] conns_others [OF at] d
  show "conns_at L la (X - {x}) I e'" "\<And>y. y \<in> X - {x} \<Longrightarrow> conn_events y (proto (sys e')) = conn_events y (proto (sys e))"
    by blast+
qed

lemma conns_replace:
  assumes at: "conns_at L la X I e" "x \<in> X"
    and ap: "echo_apart T M (pconn (I x)) (pac (I x)) e e'" "tcp_frame L x (proto (sys e)) (proto (sys e'))"
    and d: "\<And>y. y \<in> X - {x} \<Longrightarrow> mess (I y) \<inter> T = {} \<and> bufs (I y) \<inter> M = {} \<and> mess (I y) \<inter> mess i = {}"
    and i: "peer_ok L la e' x i"
  shows "conns_at L la X (I(x := i)) e'" "\<And>y. y \<in> X \<Longrightarrow> conn_events y (proto (sys e')) = conn_events y (proto (sys e))"
proof -
  have f: "tcp_apart L (set (conn_events x (proto (sys e)))) x (proto (sys e)) (proto (sys e'))"
    "conn_events x (proto (sys e')) = conn_events x (proto (sys e))" using ap(2) by (simp_all add: tcp_frame_def)
  note rest = conns_rest [OF at ap(1) f(1)]
  from rest(2) d f(2) show ev: "conn_events y (proto (sys e')) = conn_events y (proto (sys e))" if "y \<in> X" for y
    using that by blast
  have "conns_at L la (insert x (X - {x})) (I(x := i)) e'"
    by (rule conns_insert [OF rest(1) _ i]) (use d ev conns_others [OF at] at(2) in auto)
  then show "conns_at L la X (I(x := i)) e'" using at(2) by (simp add: insert_absorb)
qed

lemma net_mem_parts:
  assumes "net_mem B T X I e" "x \<in> X"
  shows "bufs (I x) \<subseteq> live (app_msgs e)" "mess (I x) \<subseteq> live (msgs (sys e))" "B \<inter> bufs (I x) = {}" "T \<inter> mess (I x) = {}"
  using assms by (auto simp: net_mem_def)

lemma reply_cards:
  "finite (reply_buffer q)" "finite (reply_message q)"
  "card (reply_buffer q) = (if q = None then 0 else 1)" "card (reply_message q) = (if q = None then 0 else 1)"
  by (cases q; auto)+

lemma wire_to_none: "written p' = written p \<Longrightarrow> wire_to y p mm p' = []"
  by (simp add: wire_to_def)

lemma wire_to_one: "written p' = written p @ [(x, a, vs, k)] \<Longrightarrow> wire_to y p mm p' = (if y = x then take (nat k) (vec_bytes mm vs) else [])"
  by (simp add: wire_to_def)

lemma echoes_start: "echoes env out inp \<Longrightarrow> echoes env (out(x := [])) (inp(x := []))"
  by (auto simp: echoes_def)

lemma echoes_more:
  assumes "echoes env out inp" "whole_writes env \<longrightarrow> nat k = length data"
  shows "echoes env (\<lambda>y. out y @ (if y = x then take (nat k) data else [])) (inp(x := inp x @ data))"
proof -
  have "subseq (take (nat k) data) data" by (metis append_take_drop_id list_emb_append2 subseq_order.order_refl prefix_imp_subseq take_is_prefix)
  then show ?thesis using assms by (auto simp: echoes_def intro: list_emb_append_mono)
qed

lemma echo_apart_same:
  assumes "apart T c (sys e) (sys e')" "app_conns e' = app_conns e" "app_listeners e' = app_listeners e"
    "\<And>b. b \<notin> M \<Longrightarrow> app_msgs e' b = app_msgs e b"
  shows "echo_apart T M c ca e e'"
  using assms by (simp add: echo_apart_def)

section \<open>Every step keeps the invariant\<close>

text \<open>The listener's part is the same after a step that changes neither listener nor connections.\<close>

lemma net_tcp_frame:
  assumes "net_tcp l tla s" "tlisteners (nproto s') = tlisteners (nproto s)" "t_faults (nproto s') = t_faults (nproto s)"
    "stopping s' = stopping s" "peers s' \<subseteq> peers s"
    "\<And>y. y \<in> peers s' \<Longrightarrow> conn_events y (nproto s') = conn_events y (nproto s)"
  shows "net_tcp l tla s'"
  using assms by (auto simp: net_tcp_def)

lemma net_invI:
  assumes "tcp_env_ok L env" "libevent_local L" "finite (peers s)" "card (peers s) < 2 ^ 32" "echoes env (nput s) (ngot s)"
    "net_lst l la tla s" "net_tcp l tla s" "conns_at L la (peers s) I (nw s)" "net_mem B T (peers s) I (nw s)"
    "card B = ncut s" "card T = nclosed s"
  shows "net_inv L env l la tla s"
  using assms unfolding net_inv_def by blast

text \<open>A connection that a step leaves alone: its receive event and its bytes are as they were.\<close>

definition undisturbed :: "'e evlib \<Rightarrow> addr \<Rightarrow> 'e echo_net \<Rightarrow> 'e echo_net \<Rightarrow> bool" where
  "undisturbed L y s s' \<longleftrightarrow> tcp_hears L y (nproto s') = tcp_hears L y (nproto s) \<and> ngot s' y = ngot s y \<and> nput s' y = nput s y"

lemma undisturbedI:
  assumes "conns_at L la (peers s) I (nw s)" "x \<in> peers s"
    "tcp_apart L (set (conn_events x (nproto s))) x (nproto s) (nproto s')" "y \<in> peers s - {x}" "ngot s' y = ngot s y" "nput s' y = nput s y"
  shows "undisturbed L y s s'"
  using conns_others [OF assms(1,2,4)] tcp_posts_apart(3) [OF assms(3), of y] assms(5,6) by (simp add: undisturbed_def)

text \<open>A handler of the open connection \<open>x\<close> has run and the connection stays open.\<close>

lemma net_replace:
  assumes inv: "net_inv L env l la tla s" and at: "conns_at L la (peers s) I (nw s)" and nm: "net_mem B T (peers s) (I(x := i)) e"
    and cards: "card B = ncut s" "card T = nclosed s" and x: "x \<in> peers s"
    and ap: "echo_apart T' M (pconn (I x)) (pac (I x)) (nw s) e" "tcp_frame L x (nproto s) (proto (sys e))"
    and oth: "\<And>y. y \<in> peers s - {x} \<Longrightarrow> mess (I y) \<inter> T' = {} \<and> bufs (I y) \<inter> M = {} \<and> mess (I y) \<inter> mess i = {}"
    and i: "peer_ok L la e x i"
    and e: "lst (sys e) = lst (sys (nw s))" "exited e = exited (nw s)" "loop_broken e = loop_broken (nw s)"
    and s': "nw s' = e" "echoes env (nput s') (ngot s')" "peers s' = peers s" "stopping s' = stopping s" "nclosed s' = nclosed s" "ncut s' = ncut s"
      "faults (sys e) = replicate (nreads s') UseAfterFree"
  shows "net_inv L env l la tla s'"
proof -
  have ls: "net_lst l la tla s" "net_tcp l tla s" using inv by (auto simp: net_inv_def)
  have at': "conns_at L la (peers s) (I(x := i)) e" by (rule conns_replace [OF at x ap oth i])
  have ev: "conn_events y (proto (sys e)) = conn_events y (nproto s)" if "y \<in> peers s" for y
    by (rule conns_replace(2) [OF at x ap oth i that])
  have "net_tcp l tla s'"
    by (rule net_tcp_frame [OF ls(2)]) (use ap(2) ev in \<open>simp_all add: s' tcp_frame_def\<close>)
  moreover have "net_lst l la tla s'" using ls(1) e ap(1) by (simp add: net_lst_def s' echo_apart_def)
  ultimately show ?thesis using inv at' nm cards s' unfolding net_inv_def by auto
qed

lemma net_read_inv:
  assumes inv: "net_inv L env l la tla s" and x: "x \<in> peers s" "tcp_busy L x (nproto s) = None" "tcp_hears L x (nproto s)"
    and d: "data \<noteq> []" "length data \<le> 1024" and fresh: "fresh_alloc a m2 t2 r2 (nw s)"
  shows "net_inv L env l la tla (net_read L env (Some l) x (take_alloc a m2 t2 r2) va data s)" "\<And>y. y \<in> peers s - {x} \<Longrightarrow> undisturbed L y s (net_read L env (Some l) x (take_alloc a m2 t2 r2) va data s)"
proof -
  from inv obtain I B T where env: "tcp_env_ok L env" and at: "conns_at L la (peers s) I (nw s)"
    and nm: "net_mem B T (peers s) I (nw s)" and cards: "card B = ncut s" "card T = nclosed s"
    by (auto simp: net_inv_def)
  obtain c ca r m t where i: "I x = \<lparr>pconn = c, pac = ca, pitem = r, pbuf = m, pmsg = t, preply = None\<rparr>"
    and ok: "echo_ok (Some x) c ca la r m t None (ew (one_conn s))" and w: "tcp_waits L x r m (proto (sys (ew (one_conn s))))"
      "tcp_busy L x (proto (sys (ew (one_conn s)))) = None" and own: "conn_owner x (nproto s) = Some (Some fn_closed, Some c)"
    using at x by (cases "I x") (auto simp: conns_at_def peer_ok_def one_conn_def tcp_waits_def)
  have fr: "fresh_alloc a m2 t2 r2 (ew (one_conn s))" using fresh by (simp add: one_conn_def)
  have nf: "m2 \<notin> live (app_msgs (nw s))" "t2 \<notin> live (msgs (sys (nw s)))" using fresh by (auto simp: fresh_alloc_def live_def)
  obtain e mm k where
    rd: "echo_read L env (Some l) x (take_alloc a m2 t2 r2) va data (one_conn s) =
        (one_conn s)\<lparr>ew := e, mem := mm, got := [] @ data, put := [] @ take (nat k) data, reads := Suc 0\<rparr>"
    and e: "echo_ok (Some x) c ca la r2 m2 t2 (Some (a, m, t)) e" "tcp_waits L x r2 m2 (proto (sys e))"
      "tcp_busy L x (proto (sys e)) = Some a" "faults (sys e) = faults (sys (nw s)) @ [UseAfterFree]"
      "app_msgs e = hput (app_msgs (nw s)) m2 \<lparr>am_taps = Some t2\<rparr>" "live (msgs (sys e)) = insert t2 (live (msgs (sys (nw s))))"
      "exited e = exited (nw s)" "lst (sys e) = lst (sys (nw s))" "apart {t, t2} c (sys (nw s)) (sys e)"
      "app_conns e = app_conns (nw s)" "app_listeners e = app_listeners (nw s)" "loop_broken e = loop_broken (nw s)"
    and fr: "tcp_frame L x (nproto s) (proto (sys e))"
    and wr: "written (proto (sys e)) = written (nproto s) @ [(x, a, [\<lparr>iov_base = m, iov_len = of_nat (length data)\<rparr>], k)]"
      "vec_bytes mm [\<lparr>iov_base = m, iov_len = of_nat (length data)\<rparr>] = data" "whole_writes env \<longrightarrow> nat k = length data"
    by (rule echo_read_world [OF env ok w d fr, of "Some l" va, unfolded one_conn_simps])
  let ?s = "net_read L env (Some l) x (take_alloc a m2 t2 r2) va data s"
  let ?i = "\<lparr>pconn = c, pac = ca, pitem = r2, pbuf = m2, pmsg = t2, preply = Some (a, m, t)\<rparr>"
  have wire: "wire_to y (nproto s) mm (proto (sys e)) = (if y = x then take (nat k) data else [])" for y
    by (simp only: wire_to_one [OF wr(1)] wr(2))
  have s': "nw ?s = e" "nput ?s = (\<lambda>y. nput s y @ (if y = x then take (nat k) data else []))" "ngot ?s = (ngot s)(x := ngot s x @ data)"
    "peers ?s = peers s" "stopping ?s = stopping s" "nreads ?s = Suc (nreads s)" "nclosed ?s = nclosed s" "ncut ?s = ncut s"
    by (simp_all add: net_read_def rd net_update_def wire)
  have pk: "peer_ok L la e x ?i" using e own fr by (simp add: peer_ok_def tcp_frame_def tcp_waits_def)
  have ap: "echo_apart {t, t2} {m2} (pconn (I x)) (pac (I x)) (nw s) e"
    using e(5,9-11) by (intro echo_apart_same) (simp_all add: i hput_def)
  have oth: "mess (I y) \<inter> {t, t2} = {} \<and> bufs (I y) \<inter> {m2} = {} \<and> mess (I y) \<inter> mess ?i = {}" if "y \<in> peers s - {x}" for y
    using conns_others [OF at x(1) that] net_mem_parts [OF nm, of y] that nf by (auto simp: i mess_def)
  have nm': "net_mem B T (peers s) (I(x := ?i)) e"
    using nm nf e(5,6) unfolding net_mem_def union_split(1) [OF x(1), of _ I] union_split(2) [OF x(1), of _ I ?i]
    by (auto simp: i bufs_def mess_def)
  show "net_inv L env l la tla ?s"
    by (rule net_replace [OF inv at nm' cards x(1) ap fr oth pk e(8,7,12) s'(1)])
      (use inv e(4) echoes_more [OF _ wr(3)] in \<open>auto simp: s' net_inv_def net_lst_def replicate_append_same\<close>)
  show "undisturbed L y s ?s" if "y \<in> peers s - {x}" for y
    by (rule undisturbedI [OF at x(1) _ that]) (use fr that in \<open>auto simp: s' tcp_frame_def\<close>)
qed

text \<open>A read without data leaves the program as it is, but for the event, which is no longer pending.\<close>

lemma tcp_empty_event:
  assumes "libevent_ok L" "tcp_posts L x r m p" "n \<le> 0" "p1 = snd (tcp_received L n (Some x) p)"
  shows "tcp_posts L x r m p1" "\<not> tcp_hears L x p1" "tcp_busy L x p1 = tcp_busy L x p" "tcp_frame L x p p1" "written p1 = written p"
proof -
  from assms(2) obtain cc where cc: "tconns p x = Some (Live cc)" "sendEvent cc \<noteq> receiveEvent cc" by (auto simp: tcp_posts_def)
  then have p1: "p1 = p\<lparr>ev := event_fired L (receiveEvent cc) (ev p)\<rparr>"
    using assms(3,4) by (simp add: tcp_received_def Let_def)
  show "tcp_posts L x r m p1" "\<not> tcp_hears L x p1" "tcp_busy L x p1 = tcp_busy L x p" "written p1 = written p"
    using assms(2) cc libevent_fired [OF assms(1)] by (auto simp: p1 tcp_posts_def tcp_hears_def tcp_busy_def tcp_conn_ok_def)
  show "tcp_frame L x p p1" using tcp_received_frame [OF assms(1) cc(1) prod.collapse [symmetric]] assms(4) by simp
qed

lemma net_empty_inv:
  assumes inv: "net_inv L env l la tla s" and x: "x \<in> peers s" and n: "n \<le> 0"
  shows "net_inv L env l la tla (net_empty L x n s)" "\<And>y. y \<in> peers s - {x} \<Longrightarrow> undisturbed L y s (net_empty L x n s)"
proof -
  from inv obtain I B T where lib: "libevent_ok L" and at: "conns_at L la (peers s) I (nw s)"
    and nm: "net_mem B T (peers s) I (nw s)" and cards: "card B = ncut s" "card T = nclosed s"
    by (auto simp: net_inv_def tcp_env_ok_def)
  define p1 where "p1 = snd (tcp_received L n (Some x) (nproto s))"
  let ?i = "I x" and ?s = "net_empty L x n s" and ?e = "set_proto p1 (nw s)"
  have i: "peer_ok L la (nw s) x ?i" using at x by (simp add: conns_at_def)
  then have po: "tcp_posts L x (pitem ?i) (pbuf ?i) (nproto s)" by (simp add: peer_ok_def)
  note em = tcp_empty_event [OF lib po n p1_def]
  have pk: "peer_ok L la ?e x ?i" using i em by (simp add: peer_ok_def tcp_frame_def)
  have ap: "echo_apart {} {} (pconn ?i) (pac ?i) (nw s) ?e" by (simp add: echo_apart_def apart_def)
  have fr: "tcp_frame L x (nproto s) (proto (sys ?e))" using em(4) by simp
  have nm': "net_mem B T (peers s) (I(x := ?i)) ?e" using nm by (simp add: net_mem_def)
  have s': "nw ?s = ?e" by (simp add: net_empty_def p1_def)
  show "net_inv L env l la tla ?s"
    by (rule net_replace [OF inv at nm' cards x ap fr _ pk _ _ _ s'])
      (use inv conns_others [OF at x] in \<open>auto simp: net_empty_def net_inv_def net_lst_def\<close>)
  show "undisturbed L y s ?s" if "y \<in> peers s - {x}" for y
    by (rule undisturbedI [OF at x _ that]) (use em(4) in \<open>auto simp: net_empty_def p1_def tcp_frame_def\<close>)
qed

lemma net_sent_inv:
  assumes inv: "net_inv L env l la tla s" and x: "x \<in> peers s" "tcp_busy L x (nproto s) = Some a"
  shows "net_inv L env l la tla (net_sent L env (Some l) x al s)" "\<And>y. y \<in> peers s \<Longrightarrow> undisturbed L y s (net_sent L env (Some l) x al s)"
proof -
  from inv obtain I B T where env: "tcp_env_ok L env" and at: "conns_at L la (peers s) I (nw s)"
    and nm: "net_mem B T (peers s) I (nw s)" and cards: "card B = ncut s" "card T = nclosed s"
    by (auto simp: net_inv_def)
  obtain c ca r m t m' t' where i: "I x = \<lparr>pconn = c, pac = ca, pitem = r, pbuf = m, pmsg = t, preply = Some (a, m', t')\<rparr>"
    and ok: "echo_ok (Some x) c ca la r m t (Some (a, m', t')) (ew (one_conn s))"
    and w: "tcp_posts L x r m (proto (sys (ew (one_conn s))))" "tcp_busy L x (proto (sys (ew (one_conn s)))) = Some a"
    and own: "conn_owner x (nproto s) = Some (Some fn_closed, Some c)"
    using at x by (cases "I x") (auto simp: conns_at_def peer_ok_def)
  obtain e where sn: "echo_sent L env (Some l) x al (one_conn s) = (one_conn s)\<lparr>ew := e\<rparr>"
    and hr: "tcp_hears L x (proto (sys e)) = tcp_hears L x (nproto s)"
    and e: "echo_ok (Some x) c ca la r m t None e" "tcp_posts L x r m (proto (sys e))"
      "tcp_busy L x (proto (sys e)) = None" "faults (sys e) = faults (sys (nw s))" "exited e = exited (nw s)"
      "app_msgs e = (app_msgs (nw s))(m' := Some (Freed \<lparr>am_taps = Some t'\<rparr>))"
      "live (msgs (sys e)) = live (msgs (sys (nw s))) - {t'}" "lst (sys e) = lst (sys (nw s))"
      "apart {t'} c (sys (nw s)) (sys e)" "app_conns e = app_conns (nw s)" "app_listeners e = app_listeners (nw s)"
      "loop_broken e = loop_broken (nw s)"
    and fr: "tcp_frame L x (nproto s) (proto (sys e))" and wr: "written (proto (sys e)) = written (nproto s)"
    by (rule echo_sent_world [OF env ok w, of "Some l" al, unfolded one_conn_simps])
  let ?s = "net_sent L env (Some l) x al s"
  let ?i = "\<lparr>pconn = c, pac = ca, pitem = r, pbuf = m, pmsg = t, preply = None\<rparr>"
  have s': "nw ?s = e" "nput ?s = nput s" "ngot ?s = ngot s" "peers ?s = peers s" "stopping ?s = stopping s"
    "nreads ?s = nreads s" "nclosed ?s = nclosed s" "ncut ?s = ncut s"
    by (simp_all add: net_sent_def sn net_update_def wire_to_none [OF wr])
  have ne: "m' \<noteq> m" "t' \<noteq> t" using ok by (auto simp: echo_ok_def)
  have pk: "peer_ok L la e x ?i" using e own fr by (simp add: peer_ok_def tcp_frame_def)
  have ap: "echo_apart {t'} {m'} (pconn (I x)) (pac (I x)) (nw s) e"
    using e(6,9-11) by (intro echo_apart_same) (simp_all add: i)
  have oth: "mess (I y) \<inter> {t'} = {} \<and> bufs (I y) \<inter> {m'} = {} \<and> mess (I y) \<inter> mess ?i = {}" if "y \<in> peers s - {x}" for y
    using conns_others [OF at x(1) that] by (auto simp: i mess_def bufs_def)
  have nm': "net_mem B T (peers s) (I(x := ?i)) e"
    using nm ne oth e(6,7) unfolding net_mem_def union_split(1) [OF x(1), of _ I] union_split(2) [OF x(1), of _ I ?i]
    by (auto simp: i bufs_def mess_def)
  show "net_inv L env l la tla ?s"
    by (rule net_replace [OF inv at nm' cards x(1) ap fr oth pk e(8,5,12) s'(1)])
      (use inv e(4) in \<open>auto simp: s' net_inv_def net_lst_def\<close>)
  show "undisturbed L y s ?s" if "y \<in> peers s" for y
  proof (cases "y = x")
    case True
    then show ?thesis using hr by (simp add: undisturbed_def s')
  next
    case False
    then show ?thesis by (intro undisturbedI [OF at x(1)]) (use fr that in \<open>auto simp: s' tcp_frame_def\<close>)
  qed
qed

text \<open>The count of references is exact as long as it fits its 32 bits.\<close>

lemma card_word:
  assumes "finite X" "x \<in> X" "card X < 2 ^ 32"
  shows "of_nat (card X) - 1 = (of_nat (card (X - {x})) :: uint32)"
    "((of_nat (card (X - {x})) :: uint32) = 0) = (X - {x} = {})"
proof -
  have c: "card X = Suc (card (X - {x}))" using assms(1,2) by (rule card.remove)
  then show "of_nat (card X) - 1 = (of_nat (card (X - {x})) :: uint32)" by simp
  have "card (X - {x}) < 2 ^ 32" using c assms(3) by simp
  then have "((of_nat (card (X - {x})) :: uint32) = 0) = (card (X - {x}) = 0)"
    by (auto simp: word_of_nat_eq_0_iff dest: nat_dvd_not_less [rotated])
  then show "((of_nat (card (X - {x})) :: uint32) = 0) = (X - {x} = {})" using assms(1) by auto
qed

text \<open>What the end of a connection does to the program.\<close>

lemma net_close_world:
  assumes loc: "libevent_local L" and i: "peer_ok L la (nw s) x i"
    and st: "stopping s \<longrightarrow> l_stopped (lst (sys (nw s))) = Some 3" "readyToStop (lst (sys (nw s))) = stopping s"
      "l_app_ctx (lst (sys (nw s))) = Some la"
  obtains e where "net_close L env l x al s = s\<lparr>nw := e, peers := peers s - {x}, nclosed := Suc (nclosed s),
        ncut := (if preply i = None then ncut s else Suc (ncut s))\<rparr>"
    "faults (sys e) = faults (sys (nw s))" "exited e = exited (nw s)"
    "let n = ref_count (lst (sys (nw s))) - 1; fin = (stopping s \<and> n = 0) in
      lst (sys e) = (lst (sys (nw s)))\<lparr>ref_count := n, l_stopped := (if fin then None else l_stopped (lst (sys (nw s))))\<rparr> \<and>
      loop_broken e = (loop_broken (nw s) \<or> fin)"
    "app_msgs e = (app_msgs (nw s))(pbuf i := Some (Freed \<lparr>am_taps = Some (pmsg i)\<rparr>))" "app_listeners e = app_listeners (nw s)"
    "live (msgs (sys e)) = live (msgs (sys (nw s))) - reply_message (preply i)"
    "echo_apart (reply_message (preply i)) {pbuf i} (pconn i) (pac i) (nw s) e"
    "tcp_apart L (set (conn_events x (nproto s))) x (nproto s) (proto (sys e))"
    "tlisteners (proto (sys e)) = tlisteners (nproto s)" "t_faults (proto (sys e)) = t_faults (nproto s)"
proof -
  from i obtain cc where cc: "tconns (nproto s) x = Some (Live cc)" "t_closed cc = Some fn_closed" "t_taps_ctx cc = Some (pconn i)"
    by (auto simp: peer_ok_def conn_owner_def split: option.splits cell.splits)
  from tcp_closed_apart [OF loc cc(1)] cc(2,3) obtain p1 where
    p1: "tcp_closed L (Some x) (nproto s) = ([CbClosed (Some fn_closed) (Some (pconn i))], p1)"
      "tcp_apart L (set (conn_events x (nproto s))) x (nproto s) p1" "written p1 = written (nproto s)"
      "tlisteners p1 = tlisteners (nproto s)" "t_faults p1 = t_faults (nproto s)" by auto
  define e where "e = deliver (tcp_handles L env l) al (taps_closed (pconn i)) (set_proto p1 (nw s))"
  have ok: "echo_ok (Some x) (pconn i) (pac i) la (pitem i) (pbuf i) (pmsg i) (preply i) (set_proto p1 (nw s))"
    using i by (simp add: peer_ok_def)
  note cl = echo_close_world [OF ok _ e_def, unfolded Let_def, simplified, unfolded st(2,3)]
  have c: "faults (sys e) = faults (sys (nw s)) \<and> exited e = exited (nw s) \<and> proto (sys e) = p1"
    "app_msgs e = (app_msgs (nw s))(pbuf i := Some (Freed \<lparr>am_taps = Some (pmsg i)\<rparr>))" "app_listeners e = app_listeners (nw s)"
    "live (msgs (sys e)) = live (msgs (sys (nw s))) - reply_message (preply i)"
    "apart (reply_message (preply i)) (pconn i) (sys (nw s)) (sys e)"
    "app_conns e = (app_conns (nw s))(pac i := Some (Freed \<lparr>ac_l = la, ac_taps = pconn i\<rparr>))"
    using cl st(1) by simp_all
  have l: "let n = ref_count (lst (sys (nw s))) - 1; fin = (stopping s \<and> n = 0) in
      lst (sys e) = (lst (sys (nw s)))\<lparr>ref_count := n, l_stopped := (if fin then None else l_stopped (lst (sys (nw s))))\<rparr> \<and>
      loop_broken e = (loop_broken (nw s) \<or> fin)"
    using cl st(1) by (simp add: Let_def)
  have "tcp_busy L x (nproto s) = None \<longleftrightarrow> preply i = None" using i by (simp add: peer_ok_def)
  then have n: "net_close L env l x al s = s\<lparr>nw := e, peers := peers s - {x}, nclosed := Suc (nclosed s),
        ncut := (if preply i = None then ncut s else Suc (ncut s))\<rparr>"
    using c(1) wire_to_none [OF p1(3)] by (simp add: net_close_def p1(1) e_def [symmetric] net_update_def Let_def)
  have a: "echo_apart (reply_message (preply i)) {pbuf i} (pconn i) (pac i) (nw s) e"
    using c by (simp add: echo_apart_def)
  from that [OF n _ _ l c(2-4) a] c(1) p1 show thesis by simp
qed

text \<open>What it leaves behind: the message of the posted receive, and the buffer of a reply under way.\<close>

lemma net_mem_close:
  assumes at: "conns_at L la X I e" and nm: "net_mem B T X I e" and x: "x \<in> X"
    and e: "app_msgs e' = (app_msgs e)(pbuf (I x) := Some (Freed am))"
      "live (msgs (sys e')) = live (msgs (sys e)) - reply_message (preply (I x))"
  shows "net_mem (B \<union> reply_buffer (preply (I x))) (insert (pmsg (I x)) T) (X - {x}) I e'"
    "card (B \<union> reply_buffer (preply (I x))) = (if preply (I x) = None then card B else Suc (card B))"
    "card (insert (pmsg (I x)) T) = Suc (card T)"
proof -
  let ?i = "I x"
  have i: "peer_ok L la e x ?i" using at x by (simp add: conns_at_def)
  have own: "pbuf ?i \<notin> reply_buffer (preply ?i)" "pmsg ?i \<notin> reply_message (preply ?i)"
    using i by (cases "preply ?i"; auto simp: peer_ok_def echo_ok_def)+
  have sep: "reply_buffer (preply ?i) \<inter> (\<Union>z \<in> X - {x}. bufs (I z)) = {}" "pbuf ?i \<notin> (\<Union>z \<in> X - {x}. bufs (I z))"
    "(\<Union>z \<in> X - {x}. mess (I z)) \<inter> mess ?i = {}" using conns_others [OF at x] by (auto simp: bufs_def)
  show "net_mem (B \<union> reply_buffer (preply ?i)) (insert (pmsg ?i) T) (X - {x}) I e'"
    using nm own sep e reply_cards(1) [of "preply ?i"] unfolding net_mem_def union_split(1) [OF x, of _ I]
    by (auto simp: bufs_def mess_def)
  have fin: "finite B" "finite T" "B \<inter> reply_buffer (preply ?i) = {}" "pmsg ?i \<notin> T"
    using nm net_mem_parts [OF nm x] by (auto simp: net_mem_def bufs_def mess_def)
  then show "card (B \<union> reply_buffer (preply ?i)) = (if preply ?i = None then card B else Suc (card B))"
    by (simp add: card_Un_disjoint reply_cards)
  show "card (insert (pmsg ?i) T) = Suc (card T)" using fin by simp
qed

lemma net_close_inv:
  assumes inv: "net_inv L env l la tla s" and x: "x \<in> peers s" and run: "\<not> loop_broken (nw s)"
  shows "net_inv L env l la tla (net_close L env (Some l) x al s)" "\<And>y. y \<in> peers s - {x} \<Longrightarrow> undisturbed L y s (net_close L env (Some l) x al s)"
proof -
  from inv obtain I B T where env: "tcp_env_ok L env" "echoes env (nput s) (ngot s)" and loc: "libevent_local L" and at: "conns_at L la (peers s) I (nw s)"
    and nm: "net_mem B T (peers s) I (nw s)" and cards: "card B = ncut s" "card T = nclosed s"
    and ls: "net_lst l la tla s" "net_tcp l tla s" and fin: "finite (peers s)" "card (peers s) < 2 ^ 32" by (auto simp: net_inv_def)
  let ?i = "I x" and ?s = "net_close L env (Some l) x al s"
  have i: "peer_ok L la (nw s) x ?i" using at x by (simp add: conns_at_def)
  obtain e where s': "?s = s\<lparr>nw := e, peers := peers s - {x}, nclosed := Suc (nclosed s),
        ncut := (if preply ?i = None then ncut s else Suc (ncut s))\<rparr>"
    and e: "faults (sys e) = faults (sys (nw s))" "exited e = exited (nw s)"
      "let n = ref_count (lst (sys (nw s))) - 1; fin = (stopping s \<and> n = 0) in
        lst (sys e) = (lst (sys (nw s)))\<lparr>ref_count := n, l_stopped := (if fin then None else l_stopped (lst (sys (nw s))))\<rparr> \<and>
        loop_broken e = (loop_broken (nw s) \<or> fin)"
      "app_msgs e = (app_msgs (nw s))(pbuf ?i := Some (Freed \<lparr>am_taps = Some (pmsg ?i)\<rparr>))" "app_listeners e = app_listeners (nw s)"
      "live (msgs (sys e)) = live (msgs (sys (nw s))) - reply_message (preply ?i)"
    and ap: "echo_apart (reply_message (preply ?i)) {pbuf ?i} (pconn ?i) (pac ?i) (nw s) e"
      "tcp_apart L (set (conn_events x (nproto s))) x (nproto s) (proto (sys e))"
    and tc: "tlisteners (proto (sys e)) = tlisteners (nproto s)" "t_faults (proto (sys e)) = t_faults (nproto s)"
    by (rule net_close_world [OF loc i, of env "Some l" al]) (use ls(1) run in \<open>auto simp: net_lst_def\<close>)
  have oth: "mess (I y) \<inter> reply_message (preply ?i) = {} \<and> bufs (I y) \<inter> {pbuf ?i} = {}" if "y \<in> peers s - {x}" for y
    using conns_others [OF at x that] by (auto simp: mess_def bufs_def)
  note rest = conns_rest [OF at x ap oth]
  note mem = net_mem_close [OF at nm x e(4,6)]
  have ref: "ref_count (lst (sys (nw s))) - 1 = of_nat (card (peers s - {x}))"
    using card_word(1) [OF fin(1) x fin(2)] ls(1) by (simp add: net_lst_def)
  have l': "net_lst l la tla ?s"
    using ls(1) run e(1,2,5) e(3) [unfolded Let_def ref card_word(2) [OF fin(1) x fin(2)]] by (auto simp: net_lst_def s')
  have t': "net_tcp l tla ?s" by (rule net_tcp_frame [OF ls(2)]) (use rest(2) in \<open>auto simp: s' tc\<close>)
  have "card (peers s - {x}) < 2 ^ 32" using fin card_Diff1_le [of "peers s" x] by linarith
  then show "net_inv L env l la tla ?s"
    by (intro net_invI [OF env(1) loc _ _ _ l' t'])
      (use env(2) fin(1) rest(1) mem cards in \<open>auto simp: s'\<close>)
  show "undisturbed L y s ?s" if "y \<in> peers s - {x}" for y
    by (rule undisturbedI [OF at x _ that]) (use ap(2) in \<open>simp_all add: s'\<close>)
qed

text \<open>A connection is added to the others.\<close>

lemma conns_new:
  assumes at: "conns_at L la X I e" and nm: "net_mem B T X I e" and x: "x \<notin> X" and i: "peer_ok L la e' x i" "mess i = {t}" "bufs i = {m}"
    and ap: "echo_apart {t} {m} c ca e e'" "tcp_apart L (set (conn_events x (proto (sys e')))) x (proto (sys e)) (proto (sys e'))"
    and oth: "\<And>y. y \<in> X \<Longrightarrow> pconn (I y) \<noteq> c \<and> pac (I y) \<noteq> ca \<and>
      set (conn_events y (proto (sys e))) \<inter> set (conn_events x (proto (sys e'))) = {}"
    and e: "live (app_msgs e') = insert m (live (app_msgs e))" "live (msgs (sys e')) = insert t (live (msgs (sys e)))"
    and nf: "m \<notin> live (app_msgs e)" "t \<notin> live (msgs (sys e))"
  shows "conns_at L la (insert x X) (I(x := i)) e' \<and> net_mem B T (insert x X) (I(x := i)) e' \<and>
    (\<forall>y \<in> X. conn_events y (proto (sys e')) = conn_events y (proto (sys e)))"
proof -
  have sep: "mess (I y) \<inter> {t} = {}" "bufs (I y) \<inter> {m} = {}" if "y \<in> X" for y
    using net_mem_parts(1,2) [OF nm that] nf by auto
  from conns_frame [OF at ap] sep oth x
  have rest: "conns_at L la X I e'" "\<forall>y \<in> X. conn_events y (proto (sys e')) = conn_events y (proto (sys e))" by blast+
  have "conns_at L la (insert x X) (I(x := i)) e'"
    by (rule conns_insert [OF rest(1) x i(1)]) (use oth rest(2) sep i(2) in auto)
  moreover have un: "(\<Union>z \<in> X. f ((I(x := i)) z)) = (\<Union>z \<in> X. f (I z))" for f :: "peer \<Rightarrow> addr set"
    using x by (auto split: if_splits)
  then have "net_mem B T (insert x X) (I(x := i)) e'"
    using nm nf e i(2,3) unfolding net_mem_def by (simp add: un del: UN_extend_simps fun_upd_apply) auto
  ultimately show ?thesis using rest(2) by blast
qed

lemma net_accept_world:
  assumes env: "tcp_env_ok L env" "libevent_local L" and ls: "net_lst l la tla s" and lc: "tlisteners (nproto s) tla = Some (Live lc)"
      "lc_taps_ctx lc = Some l" "lc_connectionReceived lc = Some fn_connection_received" "lc_closed lc = Some fn_closed"
    and fd: "0 \<le> fd" and z: "t_sent zc = None" "t_received zc = None" and evs: "accept_events L fd (ev (nproto s))"
    and fresh: "fresh_alloc a m t r (nw s)"
  obtains e where "net_accept L env x zc fd (Some c) (take_alloc a m t r) (Some ca) tla hs s =
      s\<lparr>ngot := (ngot s)(x := []), nw := e, nput := (\<lambda>y. if y = x then [] else nput s y), peers := insert x (peers s)\<rparr>"
    "peer_ok L la e x \<lparr>pconn = c, pac = ca, pitem = r, pbuf = m, pmsg = t, preply = None\<rparr>" "echo_apart {t} {m} c ca (nw s) e"
    "faults (sys e) = faults (sys (nw s))" "exited e = exited (nw s)" "loop_broken e = loop_broken (nw s)"
    "lst (sys e) = (lst (sys (nw s)))\<lparr>ref_count := ref_count (lst (sys (nw s))) + 1\<rparr>"
    "live (app_msgs e) = insert m (live (app_msgs (nw s)))" "live (msgs (sys e)) = insert t (live (msgs (sys (nw s))))"
    "tcp_apart L (set (conn_events x (proto (sys e)))) x (nproto s) (proto (sys e))"
    "conn_events x (proto (sys e)) = new_conn_events L fd (ev (nproto s))"
    "tlisteners (proto (sys e)) = tlisteners (nproto s)" "t_faults (proto (sys e)) = t_faults (nproto s)"
proof -
  have lst: "l_app_ctx (lst (sys (nw s))) = Some la" "l_connectionReceived (lst (sys (nw s))) = Some 1"
    "app_listeners (nw s) la = Some (Live (echo_app_listener l))" "al_callbacks (echo_app_listener l) = cbs"
    using ls by (simp_all add: net_lst_def echo_app_listener_def)
  define e where "e = echo_accept L env (Some (x, zc)) fd (Some c) (take_alloc a m t r) (Some ca) tla hs (nw s)"
  obtain p1 where p1: "tcp_connection_received L (Some (x, zc)) fd (Some tla) (nproto s) =
        ([CbConnectionReceived (Some fn_connection_received) (Some l) x], p1)"
      "proto (sys e) = tcp_connection_received_end x (Some c)
        (h_receive (tcp_handles L env (Some l)) (Some x) r None [\<lparr>iov_base = m, iov_len = BUF_SIZE\<rparr>] 1 p1)"
    and e: "tcp_waits L x r m (proto (sys e))" "tcp_busy L x (proto (sys e)) = None"
      "echo_ok (Some x) c ca la r m t None e" "faults (sys e) = faults (sys (nw s))" "exited e = exited (nw s)"
      "lst (sys e) = (lst (sys (nw s)))\<lparr>ref_count := ref_count (lst (sys (nw s))) + 1\<rparr>"
      "app_msgs e = hput (app_msgs (nw s)) m \<lparr>am_taps = Some t\<rparr>" "msgs (sys e) = hput (msgs (sys (nw s))) t (echo_message m BUF_SIZE)"
      "apart {t} c (sys (nw s)) (sys e)" "app_conns e = hput (app_conns (nw s)) ca \<lparr>ac_l = la, ac_taps = c\<rparr>"
      "app_listeners e = app_listeners (nw s)" "loop_broken e = loop_broken (nw s)"
    by (rule echo_accept_world [OF env(1) lc(1-3) fd z evs lst fresh e_def])
  from tcp_accept_apart [OF env(1,2) lc(1) fd p1] lc(4)
  have tc: "tcp_apart L (set (new_conn_events L fd (ev (nproto s)))) x (nproto s) (proto (sys e))"
    "conn_events x (proto (sys e)) = new_conn_events L fd (ev (nproto s))" "conn_owner x (proto (sys e)) = Some (Some fn_closed, Some c)"
    "written (proto (sys e)) = written (nproto s)" "tlisteners (proto (sys e)) = tlisteners (nproto s)"
    "t_faults (proto (sys e)) = t_faults (nproto s)" by simp_all
  have s': "net_accept L env x zc fd (Some c) (take_alloc a m t r) (Some ca) tla hs s =
      s\<lparr>ngot := (ngot s)(x := []), nw := e, nput := (\<lambda>y. if y = x then [] else nput s y), peers := insert x (peers s)\<rparr>"
    by (simp add: net_accept_def e_def [symmetric] net_update_def wire_to_none [OF tc(4)])
  have ap: "echo_apart {t} {m} c ca (nw s) e" using e(7,9-11) by (simp add: echo_apart_def hput_def)
  from that [OF s' _ ap e(4,5,12,6)] e(1-3,7,8) tc show thesis by (simp add: peer_ok_def tcp_waits_def)
qed

lemma net_accept_inv:
  assumes inv: "net_inv L env l la tla s" and fd: "0 \<le> fd" and z: "t_sent zc = None" "t_received zc = None"
    and st: "\<not> stopping s" and evs: "accept_events L fd (ev (nproto s))"
      "set (new_conn_events L fd (ev (nproto s))) \<inter>
        (listener_events tla (nproto s) \<union> (\<Union>y \<in> peers s. set (conn_events y (nproto s)))) = {}"
    and fresh: "fresh_alloc a m t r (nw s)" "\<not> allocated (cheap (sys (nw s))) c" "\<not> allocated (app_conns (nw s)) ca"
      "\<not> allocated (tconns (nproto s)) x" and room: "Suc (card (peers s)) < 2 ^ 32"
  shows "net_inv L env l la tla (net_accept L env x zc fd (Some c) (take_alloc a m t r) (Some ca) tla hs s)" "\<And>y. y \<in> peers s \<Longrightarrow> undisturbed L y s (net_accept L env x zc fd (Some c) (take_alloc a m t r) (Some ca) tla hs s)"
proof -
  from inv obtain I B T where env: "tcp_env_ok L env" "libevent_local L" "echoes env (nput s) (ngot s)" "finite (peers s)"
    and at: "conns_at L la (peers s) I (nw s)"
    and nm: "net_mem B T (peers s) I (nw s)" and cards: "card B = ncut s" "card T = nclosed s"
    and ls: "net_lst l la tla s" "net_tcp l tla s" by (auto simp: net_inv_def)
  from ls(2) st obtain lc where lc: "tlisteners (nproto s) tla = Some (Live lc)" "lc_taps_ctx lc = Some l"
    "lc_connectionReceived lc = Some fn_connection_received" "lc_closed lc = Some fn_closed"
    "\<forall>y \<in> peers s. lc_event lc \<notin> set (conn_events y (nproto s))" by (auto simp: net_tcp_def)
  let ?s = "net_accept L env x zc fd (Some c) (take_alloc a m t r) (Some ca) tla hs s"
  let ?i = "\<lparr>pconn = c, pac = ca, pitem = r, pbuf = m, pmsg = t, preply = None\<rparr>"
  obtain e where s': "?s = s\<lparr>ngot := (ngot s)(x := []), nw := e, nput := (\<lambda>y. if y = x then [] else nput s y), peers := insert x (peers s)\<rparr>"
    and i: "peer_ok L la e x ?i" and ap: "echo_apart {t} {m} c ca (nw s) e"
    and e: "faults (sys e) = faults (sys (nw s))" "exited e = exited (nw s)" "loop_broken e = loop_broken (nw s)"
      "lst (sys e) = (lst (sys (nw s)))\<lparr>ref_count := ref_count (lst (sys (nw s))) + 1\<rparr>"
    and lv: "live (app_msgs e) = insert m (live (app_msgs (nw s)))" "live (msgs (sys e)) = insert t (live (msgs (sys (nw s))))"
    and tc: "tcp_apart L (set (conn_events x (proto (sys e)))) x (nproto s) (proto (sys e))"
      "conn_events x (proto (sys e)) = new_conn_events L fd (ev (nproto s))"
      "tlisteners (proto (sys e)) = tlisteners (nproto s)" "t_faults (proto (sys e)) = t_faults (nproto s)"
    by (rule net_accept_world [OF env(1,2) ls(1) lc(1-4) fd z evs(1) fresh(1)])
  have nf: "m \<notin> live (app_msgs (nw s))" "t \<notin> live (msgs (sys (nw s)))" using fresh by (auto simp: fresh_alloc_def live_def)
  have pk: "peer_ok L la (nw s) y (I y)" if "y \<in> peers s" for y using at that by (simp add: conns_at_def)
  have nx: "x \<notin> peers s" using pk [of x] fresh(4) by (auto simp: peer_ok_def tcp_posts_def allocated_def)
  have oth: "pconn (I y) \<noteq> c \<and> pac (I y) \<noteq> ca \<and>
      set (conn_events y (nproto s)) \<inter> set (conn_events x (proto (sys e))) = {}" if "y \<in> peers s" for y
    using pk [OF that] that fresh(2,3) evs(2) tc(2) by (auto simp: peer_ok_def echo_ok_def allocated_def)
  have new: "conns_at L la (insert x (peers s)) (I(x := ?i)) e" "net_mem B T (insert x (peers s)) (I(x := ?i)) e"
    "\<And>y. y \<in> peers s \<Longrightarrow> conn_events y (proto (sys e)) = conn_events y (nproto s)"
    using conns_new [OF at nm nx i _ _ ap tc(1) oth lv nf] by (simp_all add: mess_def bufs_def)
  have "lc_event lc \<notin> set (new_conn_events L fd (ev (nproto s)))" using evs(2) lc(1) by (auto simp: listener_events_def)
  then have t': "net_tcp l tla ?s" using ls(2) st lc tc(2-4) new(3) by (simp add: net_tcp_def s')
  have l': "net_lst l la tla ?s" using ls(1) st e ap nx env(4) by (simp add: net_lst_def s' echo_apart_def)
  show "undisturbed L y s ?s" if "y \<in> peers s" for y
    using tcp_posts_apart(3) [OF tc(1), of y] oth [OF that] nx that by (auto simp: undisturbed_def s')
  show "net_inv L env l la tla ?s"
    by (intro net_invI [OF env(1,2) _ _ _ l' t']) (use env nx room new cards echoes_start [OF env(3), of x] in \<open>simp_all add: s' fun_upd_def\<close>)
qed

lemma net_sigint_inv:
  assumes inv: "net_inv L env l la tla s" and st: "\<not> stopping s"
  shows "net_inv L env l la tla (net_sigint L env (Some l) la al s)" "\<And>y. y \<in> peers s \<Longrightarrow> undisturbed L y s (net_sigint L env (Some l) la al s)"
proof -
  from inv obtain I B T where env: "tcp_env_ok L env" "libevent_local L" "echoes env (nput s) (ngot s)" "finite (peers s)" "card (peers s) < 2 ^ 32"
    and at: "conns_at L la (peers s) I (nw s)"
    and nm: "net_mem B T (peers s) I (nw s)" and cards: "card B = ncut s" "card T = nclosed s"
    and ls: "net_lst l la tla s" "net_tcp l tla s" by (auto simp: net_inv_def)
  from ls(2) st obtain lc where lc: "tlisteners (nproto s) tla = Some (Live lc)"
    "\<forall>y \<in> peers s. lc_event lc \<notin> set (conn_events y (nproto s))" by (auto simp: net_tcp_def)
  obtain z where z: "z \<notin> peers s \<union> (\<lambda>y. pconn (I y)) ` peers s \<union> (\<lambda>y. pac (I y)) ` peers s"
    using env(4) ex_new_if_finite [OF infinite_UNIV_nat] by (metis finite_UnI finite_imageI)
  obtain p' where p': "h_stop (tcp_handles L env (Some l)) (Some tla) (nproto s) = (True, p')"
    "tcp_apart L {lc_event lc} z (nproto s) p'" "t_faults p' = t_faults (nproto s) @ [UseAfterFree]" "written p' = written (nproto s)"
    by (rule tcp_stop_apart [OF env(2) lc(1)])
  have lst: "app_listeners (nw s) la = Some (Live (echo_app_listener l))" "al_taps (echo_app_listener l) = Some l"
    "al_callbacks (echo_app_listener l) = cbs" "l_app_ctx (lst (sys (nw s))) = Some la" "l_proto_ctx (lst (sys (nw s))) = Some tla"
    using ls(1) by (simp_all add: net_lst_def echo_app_listener_def)
  define fin where "fin = (ref_count (lst (sys (nw s))) = 0)"
  define e where "e = app_sighandler (tcp_handles L env (Some l)) al (Some la) (nw s)"
  have e: "e = (nw s)\<lparr>sys := (sys (nw s))\<lparr>proto := p',
      lst := (lst (sys (nw s)))\<lparr>l_stopped := (if fin then None else Some 3), readyToStop := True\<rparr>,
      trace := trace (sys (nw s)) @ (if fin then [(3, Stopped (Some la))] else [])\<rparr>, loop_broken := loop_broken (nw s) \<or> fin\<rparr>"
    unfolding e_def by (rule sighandler_unfold [OF lst(1-4) _ fin_def]) (simp add: lst(5) p'(1))
  let ?s = "net_sigint L env (Some l) la al s"
  have s': "?s = s\<lparr>nw := e, stopping := True\<rparr>"
    using wire_to_none [OF p'(4)] by (simp add: net_sigint_def e_def [symmetric] net_update_def) (simp add: e)
  have f: "fin \<longleftrightarrow> peers s = {}"
    using ls(1) env(4,5) by (auto simp: fin_def net_lst_def word_of_nat_eq_0_iff dest: nat_dvd_not_less [rotated])
  have ap: "echo_apart {} {} z z (nw s) e" by (simp add: echo_apart_def apart_def e)
  have tp: "tcp_apart L {lc_event lc} z (nproto s) (proto (sys e))" using p'(2) by (simp add: e)
  from conns_frame [OF at ap tp] z lc(2) have at': "conns_at L la (peers s) I e" by auto
  have nm': "net_mem B T (peers s) I e" using nm by (simp add: net_mem_def e)
  have t': "net_tcp l tla ?s" using ls(2) st p'(3) by (simp add: net_tcp_def s' e)
  have l': "net_lst l la tla ?s" using ls(1) st f by (auto simp: net_lst_def s' e)
  show "net_inv L env l la tla ?s"
    by (intro net_invI [OF env(1,2) _ _ _ l' t']) (use env at' nm' cards in \<open>simp_all add: s'\<close>)
  show "undisturbed L y s ?s" if "y \<in> peers s" for y
    using tcp_posts_apart(3) [OF tp, of y] z lc(2) that by (auto simp: undisturbed_def s')
qed

interpretation net: inv_system "net_inv L env l la tla" "net_step L env l la tla hs" "net_inv L env l la tla"
proof (unfold_locales, goal_cases)
  case (1 s)
  then show ?case .
next
  case (2 s t)
  from 2(2) show ?case
  proof cases
    case ns_accept
    with net_accept_inv [OF 2(1)] show ?thesis by simp
  next
    case ns_read
    with net_read_inv [OF 2(1)] show ?thesis by simp
  next
    case ns_empty
    with net_empty_inv [OF 2(1)] show ?thesis by simp
  next
    case ns_sent
    with net_sent_inv [OF 2(1)] show ?thesis by simp
  next
    case ns_close
    with net_close_inv [OF 2(1)] show ?thesis by simp
  next
    case ns_sigint
    with net_sigint_inv [OF 2(1)] show ?thesis by simp
  qed
qed

lemma net_close_ghosts [simp]:
  "peers (net_close L env l x al s) = peers s - {x}" "stopping (net_close L env l x al s) = stopping s"
  by (auto simp: net_close_def net_update_def Let_def split: prod.splits list.splits tcp_callback.splits option.splits)

text \<open>
  A connection whose receive event is not pending stays as it is while it is open: \<open>g\<close> and \<open>o'\<close> are
  the bytes read and written so far.
\<close>

definition net_deaf ::
  "'e evlib \<Rightarrow> 'e tcp_env \<Rightarrow> addr \<Rightarrow> addr \<Rightarrow> addr \<Rightarrow> addr \<Rightarrow> 8 word list \<Rightarrow> 8 word list \<Rightarrow> 'e echo_net \<Rightarrow> bool" where
  "net_deaf L env l la tla x g o' s \<longleftrightarrow> net_inv L env l la tla s \<and> x \<in> peers s \<and> \<not> tcp_hears L x (nproto s) \<and>
     ngot s x = g \<and> nput s x = o'"

interpretation deaf: inv_system "net_deaf L env l la tla x g o'" "\<lambda>s t. net_step L env l la tla hs s t \<and> x \<in> peers t"
  "net_deaf L env l la tla x g o'"
proof (unfold_locales, goal_cases)
  case (1 s)
  then show ?case .
next
  case (2 s t)
  then have inv: "net_inv L env l la tla s" and x: "x \<in> peers s" "\<not> tcp_hears L x (nproto s)" "x \<in> peers t"
    by (auto simp: net_deaf_def)
  from 2(2) have "net_step L env l la tla hs s t" by blast
  then have "undisturbed L x s t"
  proof cases
    case ns_accept
    then show ?thesis using net_accept_inv(2) [OF inv] x(1) by simp
  next
    case (ns_read y)
    then have "x \<in> peers s - {y}" using x by auto
    with ns_read show ?thesis using net_read_inv(2) [OF inv] by simp
  next
    case (ns_empty y)
    then have "x \<in> peers s - {y}" using x by auto
    with ns_empty show ?thesis using net_empty_inv(2) [OF inv] by simp
  next
    case ns_sent
    then show ?thesis using net_sent_inv(2) [OF inv] x(1) by simp
  next
    case (ns_close y)
    then have "x \<in> peers s - {y}" using x by auto
    with ns_close show ?thesis using net_close_inv(2) [OF inv] by simp
  next
    case ns_sigint
    then show ?thesis using net_sigint_inv(2) [OF inv] x(1) by simp
  qed
  moreover have "net_inv L env l la tla t" using 2(2) by (blast intro: net.inv_step [OF inv])
  ultimately show ?case using 2 by (simp add: net_deaf_def undisturbed_def)
qed

section \<open>From the start of the loop\<close>

definition net_start :: "'e tcp_state echo_world \<Rightarrow> memory \<Rightarrow> 'e echo_net" where
  "net_start e mm = \<lparr>nw = e, nmem = mm, ngot = (\<lambda>_. []), nput = (\<lambda>_. []), peers = {}, nreads = 0, nclosed = 0, ncut = 0,
     stopping = False\<rparr>"

text \<open>A successful \<open>Listen\<close> leaves a context that reports to the listener being created.\<close>

lemma tcp_listen_context:
  assumes "h_listen (tcp_handles L tenv (Some l)) sa p = (Some tla, p')"
  shows "\<exists>lc. tlisteners p' tla = Some (Live lc) \<and> lc_taps_ctx lc = Some l \<and>
    lc_connectionReceived lc = Some fn_connection_received \<and> lc_closed lc = Some fn_closed \<and> t_faults p' = t_faults p"
  using assms
  by (auto simp: tcp_handles_def tcp_Listen_def Let_def split: option.splits if_splits prod.splits)

lemma net_start_inv:
  assumes "tcp_env_ok L env" "libevent_local L" "h_listen (tcp_handles L env (Some l)) sa p = (Some tla, p')" "t_faults p = []"
    "e = echo_loop (echo_listener tla la) la (echo_app_listener l) p'"
  shows "net_inv L env l la tla (net_start e mm)"
  using tcp_listen_context [OF assms(3)] assms(1,2,4)
  by (intro net_invI [where I = undefined and B = "{}" and T = "{}"])
    (auto simp: net_start_def net_lst_def net_tcp_def conns_at_def net_mem_def live_def allocated_def assms(5) echo_loop_def echoes_def
      echo_listener_def zero_listener_def cbs_def)

section \<open>Properties\<close>

lemma peer_cards:
  assumes "peer_ok L la e x i"
  shows "card (bufs i) = 1 + (if tcp_busy L x (proto (sys e)) = None then 0 else 1)"
    "card (mess i) = 1 + (if tcp_busy L x (proto (sys e)) = None then 0 else 1)" "finite (bufs i)" "finite (mess i)"
proof -
  have "pbuf i \<notin> reply_buffer (preply i)" "pmsg i \<notin> reply_message (preply i)"
    using assms by (cases "preply i"; auto simp: peer_ok_def echo_ok_def)+
  moreover have "tcp_busy L x (proto (sys e)) = None \<longleftrightarrow> preply i = None" using assms by (simp add: peer_ok_def)
  ultimately show "card (bufs i) = 1 + (if tcp_busy L x (proto (sys e)) = None then 0 else 1)"
    "card (mess i) = 1 + (if tcp_busy L x (proto (sys e)) = None then 0 else 1)" "finite (bufs i)" "finite (mess i)"
    by (simp_all add: bufs_def mess_def reply_cards)
qed

lemma card_family:
  assumes "finite X" "finite B" "B \<inter> (\<Union>x \<in> X. F x) = {}" "\<And>x. x \<in> X \<Longrightarrow> finite (F x)"
    "\<And>x. x \<in> X \<Longrightarrow> card (F x) = 1 + (if b x then 0 else 1)"
    "\<And>x y. x \<in> X \<Longrightarrow> y \<in> X \<Longrightarrow> x \<noteq> y \<Longrightarrow> F x \<inter> F y = {}"
  shows "card (B \<union> (\<Union>x \<in> X. F x)) = card B + card X + card {x \<in> X. \<not> b x}"
proof -
  have "card (\<Union>x \<in> X. F x) = (\<Sum>x \<in> X. card (F x))" by (rule card_UN_disjoint) (use assms in auto)
  also have "\<dots> = (\<Sum>x \<in> X. 1 + (if b x then 0 else 1))" using assms(5) by simp
  also have "\<dots> = (\<Sum>x \<in> X. 1) + (\<Sum>x \<in> X. if b x then 0 else 1)" by (rule sum.distrib)
  also have "\<dots> = card X + card {x \<in> X. \<not> b x}" using assms(1) by (simp add: sum.If_cases Int_def)
  finally show ?thesis using assms(1-4) by (simp add: card_Un_disjoint)
qed


lemma close_all:
  assumes "net_inv L env l la tla s" "stopping s" "set xs = peers s" "distinct xs"
  shows "let s' = fold (\<lambda>x. net_close L env (Some l) x al) xs s in
    reaches (net_step L env l la tla hs) s s' \<and> net_inv L env l la tla s' \<and> peers s' = {} \<and> stopping s'"
  using assms
proof (induction xs arbitrary: s)
  case Nil
  then show ?case by (simp add: reaches_refl)
next
  case (Cons x xs)
  have x: "x \<in> peers s" using Cons.prems(3) by auto
  have run: "\<not> loop_broken (nw s)" using Cons.prems(1) x by (auto simp: net_inv_def net_lst_def)
  let ?s = "net_close L env (Some l) x al s"
  have inv: "net_inv L env l la tla ?s" by (rule net_close_inv [OF Cons.prems(1) x run])
  have "set xs = peers ?s" using Cons.prems(3,4) by auto
  from Cons.IH [OF inv _ this] Cons.prems(2,4) ns_close [OF run x]
  show ?case by (auto simp: Let_def intro: reaches_trans [OF _ reaches_single])
qed




section \<open>An example run\<close>

text \<open>Two connections arrive, the first sends two bytes, and the interrupt comes before the reply is complete.\<close>

definition demo_listening :: "addr option set tcp_state" where
  "demo_listening = snd (h_listen (tcp_handles set_events full_env (Some 80)) zero_sockaddr demo_tcp)"

lemma demo_listening_facts:
  "h_listen (tcp_handles set_events full_env (Some 80)) sa demo_tcp = (Some 9, demo_listening)"
  "accept_events set_events 6 (ev demo_listening)"
  by (simp_all add: demo_listening_def tcp_handles_def tcp_Listen_def tcp_demo accept_events_def)

definition demo_net0 :: "addr option set echo_net" where
  "demo_net0 = net_start (echo_loop (echo_listener 9 5) 5 (echo_app_listener 80) demo_listening) (\<lambda>_. 0)"

definition demo_net1 :: "addr option set echo_net" where
  "demo_net1 = net_accept set_events full_env 51 zero_conn_ctx 6 (Some 200) (take_alloc 300 4096 310 320) (Some 330) 9 70 demo_net0"

definition demo_net2 :: "addr option set echo_net" where
  "demo_net2 = net_accept set_events full_env 52 zero_conn_ctx 7 (Some 201) (take_alloc 301 6000 311 321) (Some 331) 9 70 demo_net1"

definition demo_net3 :: "addr option set echo_net" where
  "demo_net3 = net_read set_events full_env (Some 80) 51 (take_alloc 400 8192 410 420) None [104, 105] demo_net2"

definition demo_net4 :: "addr option set echo_net" where
  "demo_net4 = net_sigint set_events full_env (Some 80) 5 (take_alloc 0 0 0 0) demo_net3"

abbreviation demo_net_step :: "addr option set echo_net \<Rightarrow> addr option set echo_net \<Rightarrow> bool" where
  "demo_net_step \<equiv> net_step set_events full_env 80 5 9 70"

lemmas demo_net_defs = net_accept_def net_update_def echo_accept_def tcp_connection_received_end_def tcp_Receive_def
  accept_events_def new_conn_events_def listener_events_def conn_events_def demo_accept_defs

lemma demo_net0_step: "demo_net_step demo_net0 demo_net1"
  unfolding demo_net1_def
  by (rule ns_accept)
    (simp_all add: demo_net0_def net_start_def echo_loop_def echo_loop_parts demo_listening_def tcp_Listen_def demo_net_defs)

lemma demo_net1_step: "demo_net_step demo_net1 demo_net2"
  unfolding demo_net2_def
  by (rule ns_accept)
    (simp_all add: demo_net1_def demo_net0_def net_start_def echo_loop_def echo_loop_parts demo_listening_def tcp_Listen_def demo_net_defs)

lemma demo_net2_step: "demo_net_step demo_net2 demo_net3"
  unfolding demo_net3_def
  by (rule ns_read)
    (simp_all add: demo_net2_def demo_net1_def demo_net0_def net_start_def echo_loop_def echo_loop_parts demo_listening_def tcp_Listen_def
      tcp_busy_def tcp_hears_def demo_net_defs)

lemma demo_net_ghosts:
  "peers demo_net2 = {51, 52}" "peers demo_net3 = {51, 52}" "peers demo_net4 = {51, 52}" "stopping demo_net4"
  "\<not> stopping demo_net3" "ncut demo_net2 = 0" "nclosed demo_net2 = 0" "ngot demo_net3 51 = [104, 105]" "ngot demo_net3 52 = []"
  by (auto simp: demo_net0_def demo_net1_def demo_net2_def demo_net3_def demo_net4_def net_sigint_def net_read_def net_accept_def
      net_update_def net_start_def Let_def)

lemma demo_net_run:
  "reaches demo_net_step demo_net0 demo_net2" "reaches demo_net_step demo_net0 demo_net3" "reaches demo_net_step demo_net0 demo_net4"
proof -
  show r2: "reaches demo_net_step demo_net0 demo_net2"
    by (rule reaches_step [OF reaches_single [of demo_net_step, OF demo_net0_step] demo_net1_step])
  show r3: "reaches demo_net_step demo_net0 demo_net3" by (rule reaches_step [OF r2 demo_net2_step])
  have "net_inv set_events full_env 80 5 9 demo_net3"
    using net.inv_reachable [OF net_start_inv [OF full_env_ok set_events_local demo_listening_facts(1) _ refl] r3 [unfolded demo_net0_def]]
    by (simp add: demo_tcp_def)
  then have "\<not> loop_broken (nw demo_net3)" by (simp add: net_inv_def net_lst_def demo_net_ghosts)
  then have "demo_net_step demo_net3 demo_net4"
    unfolding demo_net4_def by (rule ns_sigint) (simp add: demo_net_ghosts)
  then show "reaches demo_net_step demo_net0 demo_net4" by (rule reaches_step [OF r3])
qed

text \<open>A read of the second connection finds nothing; then the first one sends its two bytes.\<close>

definition demo_quiet :: "addr option set echo_net" where
  "demo_quiet = net_empty set_events 52 0 demo_net2"

definition demo_quiet_read :: "addr option set echo_net" where
  "demo_quiet_read = net_read set_events full_env (Some 80) 51 (take_alloc 400 8192 410 420) None [104, 105] demo_quiet"

lemma demo_quiet_step: "demo_net_step demo_quiet demo_quiet_read \<and> 52 \<in> peers demo_quiet_read"
proof
  show "demo_net_step demo_quiet demo_quiet_read"
    unfolding demo_quiet_read_def
    by (rule ns_read)
      (simp_all add: demo_quiet_def net_empty_def tcp_received_def demo_net2_def demo_net1_def demo_net0_def net_start_def echo_loop_def
        echo_loop_parts demo_listening_def tcp_Listen_def tcp_busy_def tcp_hears_def demo_net_defs)
  show "52 \<in> peers demo_quiet_read"
    by (simp add: demo_quiet_read_def demo_quiet_def net_read_def net_empty_def net_update_def Let_def demo_net_ghosts)
qed





end
