(* ===== verification/Taps_Tests.thy ===== *)
theory Taps_Tests
  imports Taps_Preconnection
begin

text \<open>
  The unit tests of the repository, src/test, as programs over the model: each test is the sequence
  of calls and comparisons of its source, and returns its result, 1 for success, and what it
  releases at the end. What the system supplies (memory, the address functions, the interface list,
  the directory) is an argument, so the theorems say when a test succeeds.
\<close>

section \<open>Comparisons\<close>

text \<open>
  A sequence of \<open>TEST_FN\<close>: each call with the outcome the test wants, success or failure. The
  first surprise ends it.
\<close>

fun test_fns :: "(bool \<times> ('s \<Rightarrow> 's answer)) list \<Rightarrow> 's \<Rightarrow> bool \<times> 's" where
  "test_fns [] s = (True, s)"
| "test_fns ((want, f) # fs) s =
     (let (r, _, s') = f s in if (r \<noteq> 0) \<noteq> want then (False, s') else test_fns fs s')"

text \<open>\<open>strcmp\<close> with a pointer that may be null.\<close>

definition same_string :: "string option \<Rightarrow> string \<Rightarrow> fault + bool" where
  "same_string s t = (case s of None \<Rightarrow> Inl NullDeref | Some u \<Rightarrow> Inr (u = t))"

fun check_all :: "(fault + bool) list \<Rightarrow> fault + bool" where
  "check_all [] = Inr True"
| "check_all (c # cs) = andthen c (\<lambda>ok. if ok then check_all cs else Inr False)"

section \<open>Endpoints\<close>

text \<open>\<open>dup\<close> says whether \<open>strdup\<close> of a string succeeds, \<open>junk\<close> is the socket address on the stack.\<close>

definition endpoint_calls ::
  "inet_lib \<Rightarrow> (string \<Rightarrow> bool) \<Rightarrow> (bool \<times> (tapsEndpoint \<Rightarrow> tapsEndpoint answer)) list" where
  "endpoint_calls lib dup =
     [(True, tapsEndpointWithHostname (dup ''example.com'', ''example.com'')),
      (True, tapsEndpointWithPort 443),
      (True, tapsEndpointWithService (dup ''h3'', ''h3'')),
      (True, tapsEndpointWithIPv4Address lib ''192.168.0.1''),
      (True, tapsEndpointWithIPv6Address lib ''2001:0db8:85a3::8a2e:0370:7334''),
      (True, tapsEndpointWithInterface (dup ''eth0'', ''eth0'')),
      (True, tapsEndpointWithProtocol (dup ''UDP'', ''UDP'')),
      (False, tapsEndpointWithHostname (dup ''example.net'', ''example.net'')),
      (False, tapsEndpointWithPort 80),
      (False, tapsEndpointWithService (dup ''h2'', ''h2'')),
      (False, tapsEndpointWithIPv4Address lib ''192.168.0.2''),
      (False, tapsEndpointWithIPv6Address lib ''2001:0db8:85a3::8a2e:0370:7335''),
      (False, tapsEndpointWithInterface (dup ''eth1'', ''eth1'')),
      (False, tapsEndpointWithProtocol (dup ''TCP'', ''TCP''))]"

definition endpoint_checks :: "inet_lib \<Rightarrow> tapsEndpoint \<Rightarrow> fault + bool" where
  "endpoint_checks lib ep =
     check_all (map (\<lambda>(name, want). andthen (tapsEndpointGetProperty lib ep name) (\<lambda>s. same_string s want))
       [(''ipv4'', ''192.168.0.1''), (''ipv6'', ''2001:db8:85a3::8a2e:370:7334''), (''hostname'', ''example.com''),
        (''protocol'', ''UDP''), (''interface'', ''eth0'')])"

definition endpointTest :: "inet_lib \<Rightarrow> bool \<Rightarrow> (string \<Rightarrow> bool) \<Rightarrow> sockaddr \<Rightarrow> fault + int \<times> ep_block list" where
  "endpointTest lib avail dup junk =
     (case tapsEndpointNew avail of
        None \<Rightarrow> Inr (0, [])
      | Some ep0 \<Rightarrow>
          let (ok, ep) = test_fns (endpoint_calls lib dup) ep0 in
          if \<not> ok then Inr (0, tapsEndpointFree ep)
          else
            let (r, _, sin) = tapsEndpointGetAddress ep (junk\<lparr>sa_family := AF_INET\<rparr>) in
            if r < 0 \<or> sa_port sin \<noteq> 443 then Inr (0, tapsEndpointFree ep)
            else andthen (endpoint_checks lib ep) (\<lambda>ok. Inr (if ok then 1 else 0, tapsEndpointFree ep)))"

section \<open>Transport properties\<close>

text \<open>
  The first loop: the name of the last interface with an IP address. It reads the family through the
  address pointer. \<open>dup\<close> says whether the copies of the names succeed; when one does not the test
  returns at once.
\<close>

datatype name_search = Found "string option" | NoMemory

fun last_ip_name :: "bool \<Rightarrow> ifaddrs list \<Rightarrow> string option \<Rightarrow> fault + name_search" where
  "last_ip_name dup [] name = Inr (Found name)"
| "last_ip_name dup (ifa # ifas) name =
     (case ifa_family ifa of
        None \<Rightarrow> Inl NullDeref
      | Some fam \<Rightarrow>
          if fam = AF_INET \<or> fam = AF_INET6 then
            (if dup then last_ip_name dup ifas (Some (ifa_name ifa)) else Inr NoMemory)
          else last_ip_name dup ifas name)"

definition defaults_ok :: "transportProperties \<Rightarrow> bool" where
  "defaults_ok tp \<longleftrightarrow> tp_require tp = 0x01c9 \<and> tp_prefer tp = 0x0820 \<and> tp_avoid tp = 0x0400 \<and>
     tp_prohibit tp = 0 \<and> explicitlySet tp = 0 \<and> tp_multipath tp = TAPS_MP_PASSIVE \<and> tp_direction tp = TAPS_BIDIR \<and>
     \<not> tp_advertises_altaddr tp \<and> interfaces tp = []"

definition property_calls :: "(bool \<times> (transportProperties \<Rightarrow> transportProperties answer)) list" where
  "property_calls = map (\<lambda>(name, p). (True, tapsTransportPropertiesSet name p))
     [(''reliability'', TAPS_PREFER), (''preserveMsgBoundaries'', TAPS_REQUIRE),
      (''perMsgReliability'', TAPS_AVOID), (''preserveOrder'', TAPS_PREFER),
      (''zeroRttMsg'', TAPS_REQUIRE), (''multistreaming'', TAPS_PROHIBIT),
      (''FullChecksumSend'', TAPS_IGNORE), (''FullChecksumRecv'', TAPS_IGNORE),
      (''congestionControl'', TAPS_PROHIBIT), (''keepAlive'', TAPS_PREFER),
      (''useTemporaryLocalAddress'', TAPS_REQUIRE), (''softErrorNotify'', TAPS_AVOID),
      (''activeReadBeforeSend'', TAPS_AVOID)]"

definition masks_ok :: "transportProperties \<Rightarrow> bool" where
  "masks_ok tp \<longleftrightarrow> explicitlySet tp = 0xffff \<and> tp_require tp = 0x0412 \<and> tp_prefer tp = 0x3a09 \<and>
     tp_avoid tp = 0xc004 \<and> tp_prohibit tp = 0x0120 \<and> tp_multipath tp = TAPS_MP_ACTIVE \<and>
     tp_direction tp = TAPS_UNIDIR_SEND \<and> tp_advertises_altaddr tp \<and> interfaces tp \<noteq> []"

text \<open>The last loop: what the entries of the list store.\<close>

definition check_interface :: "string \<Rightarrow> ifaddrs \<Rightarrow> fault + bool" where
  "check_interface name ifa =
     (case ifa_family ifa of
        None \<Rightarrow> Inl NullDeref
      | Some fam \<Rightarrow>
          if fam \<noteq> AF_INET \<and> fam \<noteq> AF_INET6 then Inr True
          else if ifa_name ifa = name then Inr (stored_preference ifa = preference_value TAPS_REQUIRE)
          else Inr (stored_preference ifa = preference_value TAPS_IGNORE))"

text \<open>
  \<open>ifs\<close> and \<open>ifs'\<close> are what \<open>getifaddrs\<close> delivers to the test and later to the library. Without
  an interface that has an IP address \<open>ifName\<close> is not initialised.
\<close>

definition transportPropertiesTest ::
  "bool \<Rightarrow> bool \<Rightarrow> ifaddrs list option \<Rightarrow> ifaddrs list option \<Rightarrow> fault + int \<times> tp_block list" where
  "transportPropertiesTest avail dup ifs ifs' =
     (case tapsTransportPropertiesNew avail TAPS_LISTENER of
        None \<Rightarrow> Inr (0, [])
      | Some tp \<Rightarrow>
          if preference_value TAPS_IGNORE \<noteq> 0 then Inr (0, [])
          else if \<not> defaults_ok tp \<or> ifs = None then Inr (0, tapsTransportPropertiesFree tp)
          else
            andthen (last_ip_name dup (the ifs) None) (\<lambda>found.
              case found of
                NoMemory \<Rightarrow> Inr (0, [])
              | Found None \<Rightarrow> Inl Uninitialised
              | Found (Some ifName) \<Rightarrow>
                  let tp1 = tapsTransportPropertiesSetAdvertises_altaddr True
                        (tapsTransportPropertiesSetDirection TAPS_UNIDIR_SEND
                          (tapsTransportPropertiesSetMultipath TAPS_MP_ACTIVE tp))
                  in andthen (tapsTransportPropertiesSetInterface ifs' ifName TAPS_REQUIRE tp1) (\<lambda>(r, tp2).
                       let (ok, tp3) = (if r = 0 then (False, tp2) else test_fns property_calls tp2) in
                       if \<not> ok \<or> \<not> masks_ok tp3 then Inr (0, tapsTransportPropertiesFree tp3)
                       else andthen (check_all (map (check_interface ifName) (interfaces tp3))) (\<lambda>ok.
                         Inr (if ok then 1 else 0, tapsTransportPropertiesFree tp3)))))"

section \<open>Preconnections\<close>

definition preconnection_checks :: "addr \<Rightarrow> transportProperties \<Rightarrow> tapsPreconnection \<Rightarrow> fault + bool" where
  "preconnection_checks local tp pc =
     (if pc_local pc = [] \<or> pc_protocol pc = [] then Inl OutOfBounds
      else check_all
        [Inr (pc_local pc ! 0 = local), Inr (numLocal pc = 1), Inr (numRemote pc = 0), Inr (numProtocols pc = 1),
         same_string (p_name (pc_protocol pc ! 0)) ''_kernel_TCP'',
         same_string (p_protocol (pc_protocol pc ! 0)) ''TCP'',
         same_string (p_libpath (pc_protocol pc ! 0)) ''/usr/lib/x86_64-linux-gnu/libtaps_tcp.so'',
         Inr (pc_transport pc = Some tp), Inr (pc_security pc = None)])"

text \<open>
  \<open>ep\<close> is the address of the endpoint, if there is memory for it. The call on the port cannot fail,
  so the jump past the assignment of \<open>pc\<close> is not taken. The endpoint and the properties are never
  released.
\<close>

definition preconnectionTest ::
  "addr option \<Rightarrow> bool \<Rightarrow> tapsPreconnection option \<Rightarrow> tapsProtocol list \<Rightarrow> dir_entry list option \<Rightarrow>
    (fault + int \<times> tapsProtocol list) option" where
  "preconnectionTest ep avail block stack dir =
     (case (ep, tapsEndpointNew (ep \<noteq> None), tapsTransportPropertiesNew avail TAPS_LISTENER) of
        (Some local, Some e, Some tp) \<Rightarrow>
          if fst (tapsEndpointWithPort 80 e) = 0 then Some (Inl Uninitialised)
          else
            (case tapsPreconnectionNew block stack dir [local] 1 [] 0 tp of
               None \<Rightarrow> None
             | Some (Inl f) \<Rightarrow> Some (Inl f)
             | Some (Inr (_, pc, _)) \<Rightarrow>
                 Some (andthen (case pc of None \<Rightarrow> Inr False | Some c \<Rightarrow> preconnection_checks local tp c) (\<lambda>ok.
                   andthen (tapsPreconnectionFree pc) (\<lambda>freed. Inr (if ok then 1 else 0, freed)))))
      | _ \<Rightarrow> Some (Inr (0, [])))"

section \<open>Configuration files\<close>

text \<open>
  The names the test prints for a mask: it takes the bits from the other end than the library, which
  gives the \<open>i\<close>th name the \<open>i\<close>th bit.
\<close>

definition printed_abilities :: "uint16 \<Rightarrow> string list" where
  "printed_abilities m = map (\<lambda>j. tapsPropertyNames ! j) (filter (\<lambda>j. m AND push_bit (15 - j) 1 \<noteq> 0) [0..<TAPS_NUM_ABILITIES])"

fun print_protocols :: "tapsProtocol list \<Rightarrow> fault + (string \<times> string list) list" where
  "print_protocols [] = Inr []"
| "print_protocols (p # ps) =
     (case p_name p of
        None \<Rightarrow> Inl NullDeref
      | Some n \<Rightarrow>
          andthen (print_protocols ps) (\<lambda>out.
            Inr (if n \<noteq> ''_kernel_TCP'' \<and> n \<noteq> ''_kernel_UDP'' then out
                 else (n, printed_abilities (p_properties p)) # out)))"

text \<open>The result, and what is printed about the two kernel protocols. The test releases nothing.\<close>

definition yamlTest :: "dir_entry list option \<Rightarrow> tapsProtocol list \<Rightarrow> (fault + int \<times> (string \<times> string list) list) option" where
  "yamlTest dir stack =
     (case tapsUpdateProtocols dir stack 255 of
        None \<Rightarrow> None
      | Some (Inl f) \<Rightarrow> Some (Inl f)
      | Some (Inr (numProto, arr)) \<Rightarrow>
          if numProto < 2 then Some (Inr (0, []))
          else if int (length arr) < numProto then Some (Inl OutOfBounds)
          else Some (andthen (print_protocols (take (nat numProto) arr)) (\<lambda>out. Inr (1, out))))"

section \<open>The driver\<close>

text \<open>\<open>main\<close> of src/test/t.c: all tests, or those named on the command line, in the order of the table.\<close>

definition testList :: "string list" where
  "testList = [''yaml'', ''endpoint'', ''transportProperties'', ''preconnection'']"

definition tests_run :: "string list \<Rightarrow> string list" where
  "tests_run args = filter (\<lambda>name. args = [] \<or> (\<exists>arg \<in> set args. arg = name)) testList"

section \<open>When they succeed\<close>

text \<open>
  The endpoint test succeeds and releases every block of the endpoint, given memory and that the
  address functions read the two addresses and write them back in their short form.
\<close>

theorem endpoint_test_passes:
  assumes "pton4 lib ''192.168.0.1'' = Some a" "ntop4 lib a = ''192.168.0.1''"
    "pton6 lib ''2001:0db8:85a3::8a2e:0370:7334'' = Some b" "ntop6 lib b = ''2001:db8:85a3::8a2e:370:7334''"
    "\<And>s. dup s"
  shows "endpointTest lib True dup junk = Inr (1, [Hostname, Service, Protocol, Interface, Self])"
proof -
  let ?ep = "zero_endpoint\<lparr>has_hostname := True, hostname := Some ''example.com'', has_port := True, port := 443,
    has_service := True, service := Some ''h3'', has_ipv4 := True, ipv4 := a, has_ipv6 := True, ipv6 := b,
    has_interface := True, interface := Some ''eth0'', has_protocol := True, protocol := Some ''UDP''\<rparr>"
  have "test_fns (endpoint_calls lib dup) zero_endpoint = (True, ?ep)"
    using assms
    by (simp add: endpoint_calls_def tapsEndpointWithHostname_def tapsEndpointWithPort_def tapsEndpointWithService_def
        tapsEndpointWithIPv4Address_def tapsEndpointWithIPv6Address_def tapsEndpointWithInterface_def
        tapsEndpointWithProtocol_def strdup_def zero_endpoint_def)
  moreover have "endpoint_checks lib ?ep = Inr True"
    using assms by (simp add: endpoint_checks_def tapsEndpointGetProperty_def copy_out_def same_string_def)
  ultimately show ?thesis
    by (simp add: endpointTest_def tapsEndpointNew_def tapsEndpointGetAddress_def tapsEndpointFree_def zero_endpoint_def AF_INET_def)
qed

text \<open>
  The properties test finds the default masks and the masks after its calls as it expects them. On a
  machine with an IP interface its result depends on what the interface list holds: it succeeds
  exactly if the low half of \<open>ifa_data\<close> is zero in all entries with an IP address but those it
  marks itself.
\<close>

definition is_ip :: "ifaddrs \<Rightarrow> bool" where
  "is_ip ifa \<longleftrightarrow> ifa_family ifa = Some AF_INET \<or> ifa_family ifa = Some AF_INET6"

lemma last_ip_name_ok:
  assumes "\<forall>ifa \<in> set ifs. ifa_family ifa \<noteq> None"
  shows "last_ip_name True ifs name =
    Inr (Found (if filter is_ip ifs = [] then name else Some (ifa_name (last (filter is_ip ifs)))))"
  using assms by (induction ifs arbitrary: name) (auto simp: is_ip_def)

lemma check_all_bools: "(\<And>x. x \<in> set xs \<Longrightarrow> f x = Inr (P x)) \<Longrightarrow> check_all (map f xs) = Inr (\<forall>x \<in> set xs. P x)"
  by (induction xs) auto

lemma listener_defaults_ok: "defaults_ok (default_properties TAPS_LISTENER)"
  by (simp add: defaults_ok_def default_properties_def zero_properties_def set_field_def set_bit_eq)

definition tested_properties :: "ifaddrs list \<Rightarrow> transportProperties" where
  "tested_properties ifs = \<lparr>tp_require = 0x0412, tp_prefer = 0x3a09, tp_avoid = 0xc004, tp_prohibit = 0x0120, explicitlySet = 0xffff,
     tp_multipath = TAPS_MP_ACTIVE, tp_direction = TAPS_UNIDIR_SEND, tp_advertises_altaddr = True, interfaces = ifs\<rparr>"

lemma property_calls_ok:
  "test_fns property_calls ((tapsTransportPropertiesSetAdvertises_altaddr True (tapsTransportPropertiesSetDirection TAPS_UNIDIR_SEND
      (tapsTransportPropertiesSetMultipath TAPS_MP_ACTIVE (default_properties TAPS_LISTENER))))\<lparr>interfaces := ifs\<rparr>) =
    (True, tested_properties ifs)"
  by (simp add: property_calls_def default_properties_def zero_properties_def set_field_def
      tapsTransportPropertiesSetAdvertises_altaddr_def tapsTransportPropertiesSetDirection_def
      tapsTransportPropertiesSetMultipath_def tapsTransportPropertiesSet_def tested_properties_def
      tapsPropertyNames_def TAPS_NUM_ABILITIES_def set_bit_eq unset_bit_eq_and_not)

theorem transport_properties_test_result:
  assumes "\<forall>ifa \<in> set ifs. ifa_family ifa \<noteq> None" "\<forall>ifa \<in> set ifs'. ifa_family ifa \<noteq> None"
    "filter is_ip ifs \<noteq> []" "ifs' \<noteq> []" "name = ifa_name (last (filter is_ip ifs))"
  shows "transportPropertiesTest True True (Some ifs) (Some ifs') =
    Inr (if \<forall>ifa \<in> set ifs'. is_ip ifa \<and> ifa_name ifa \<noteq> name \<longrightarrow> stored_preference ifa = 0 then 1 else 0,
      [InterfaceList, Properties])"
proof -
  define mark where "mark ifa = (if ip_interface name ifa then ifa\<lparr>ifa_data := store_preference TAPS_REQUIRE (ifa_data ifa)\<rparr> else ifa)" for ifa
  let ?tp = "tapsTransportPropertiesSetAdvertises_altaddr True (tapsTransportPropertiesSetDirection TAPS_UNIDIR_SEND
      (tapsTransportPropertiesSetMultipath TAPS_MP_ACTIVE (default_properties TAPS_LISTENER)))"
  let ?P = "\<lambda>ifa. is_ip ifa \<and> ifa_name ifa \<noteq> name \<longrightarrow> stored_preference ifa = 0"
  have "interfaces ?tp = []"
    by (simp add: tapsTransportPropertiesSetAdvertises_altaddr_def tapsTransportPropertiesSetDirection_def
        tapsTransportPropertiesSetMultipath_def default_properties_def zero_properties_def)
  then have set: "tapsTransportPropertiesSetInterface (Some ifs') name TAPS_REQUIRE ?tp = Inr (1, ?tp\<lparr>interfaces := map mark ifs'\<rparr>)"
    using mark_interfaces_ok [OF assms(2), of name TAPS_REQUIRE] assms(4)
    by (simp add: tapsTransportPropertiesSetInterface_def mark_def [abs_def] Let_def)
  have one: "check_interface name (mark ifa) = Inr (?P ifa)" if "ifa \<in> set ifs'" for ifa
    using assms(2) that by (auto simp: check_interface_def mark_def ip_interface_def is_ip_def stored_preference_def)
  have chk: "check_all (map (check_interface name) (map mark ifs')) = Inr (\<forall>ifa \<in> set ifs'. ?P ifa)"
    unfolding map_map by (rule check_all_bools) (simp add: one)
  have masks: "masks_ok (tested_properties (map mark ifs'))" using assms(4) by (simp add: masks_ok_def tested_properties_def)
  have rel: "tapsTransportPropertiesFree (tested_properties (map mark ifs')) = [InterfaceList, Properties]"
    using assms(4) by (simp add: tapsTransportPropertiesFree_def tested_properties_def)
  show ?thesis
    using last_ip_name_ok [OF assms(1), of None] set property_calls_ok [of "map mark ifs'"] chk masks rel listener_defaults_ok assms(3,5)
    by (simp add: transportPropertiesTest_def tapsTransportPropertiesNew_def tested_properties_def Let_def del: map_map)
qed

text \<open>
  With the descriptions of kernel.yaml the preconnection test finds what it expects, unless the
  security field, which the library never sets, happens not to be zero in the block that \<open>malloc\<close>
  returned. It releases the description of TCP.
\<close>

theorem preconnection_test_result:
  assumes "length stack = 255" "length (pc_local b) = 8" "length (pc_remote b) = 8" "length (pc_protocol b) = 256" "numProtocols b = 0"
  shows "preconnectionTest (Some ep) True (Some b) stack kernel_dir =
    Some (Inr (if pc_security b = None then 1 else 0, [slot_of kernel_tcp]))"
proof -
  from preconnection_kernel_is_tcp [OF assms, of ep] obtain pc where
    pc: "tapsPreconnectionNew (Some b) stack kernel_dir [ep] 1 [] 0 (default_properties TAPS_LISTENER) =
        Some (Inr (None, Some pc, [slot_of kernel_udp]))"
      "numProtocols pc = 1" "pc_protocol pc ! 0 = slot_of kernel_tcp" "pc_local pc ! 0 = ep" "numLocal pc = 1" "numRemote pc = 0"
      "pc_protocol pc \<noteq> []" "pc_local pc \<noteq> []" "pc_transport pc = Some (default_properties TAPS_LISTENER)"
      "pc_security pc = pc_security b" by blast
  have "tapsPreconnectionFree (Some pc) = Inr [slot_of kernel_tcp]"
    using pc(2,3,7) free_protocols_ok [of 1 "pc_protocol pc"] by (cases "pc_protocol pc") (simp_all add: tapsPreconnectionFree_def)
  then show ?thesis using pc
    by (simp add: preconnectionTest_def preconnection_checks_def tapsEndpointNew_def tapsTransportPropertiesNew_def
        tapsEndpointWithPort_def zero_endpoint_def same_string_def slot_of_def kernel_tcp_def)
qed

text \<open>
  The configuration test succeeds on kernel.yaml, but it prints the abilities of TCP from the wrong
  end of the mask: multipath and an alternative address, which TCP does not have, and neither
  ordering nor messages with the handshake, which it has.
\<close>

theorem yaml_test_result:
  assumes "length stack = 255"
  shows "yamlTest kernel_dir stack = Some (Inr (1,
    [(''_kernel_TCP'', [''reliability'', ''FullChecksumSend'', ''FullChecksumRecv'', ''congestionControl'', ''keepAlive'',
        ''multipath'', ''advertises_altaddr'', ''activeReadBeforeSend'']),
     (''_kernel_UDP'', [''reliability'', ''congestionControl'', ''keepAlive'', ''multipath'', ''softErrorNotify''])]))"
proof -
  have "tapsParseYaml (yaml_of [kernel_tcp, kernel_udp]) stack 255 =
      Some (Inr (int 2, map slot_of (take 2 [kernel_tcp, kernel_udp]) @ drop 2 stack))"
    by (rule parse_yaml_of_docs) (simp_all add: assms)
  then have "tapsUpdateProtocols kernel_dir stack 255 =
      Some (Inr (2, [slot_of kernel_tcp, slot_of kernel_udp] @ drop 2 stack))"
    by (simp add: tapsUpdateProtocols_def kernel_dir_def is_yaml_name_def numeral_eq_Suc)
  moreover have "print_protocols [slot_of kernel_tcp, slot_of kernel_udp] = Inr
    [(''_kernel_TCP'', [''reliability'', ''FullChecksumSend'', ''FullChecksumRecv'', ''congestionControl'', ''keepAlive'',
        ''multipath'', ''advertises_altaddr'', ''activeReadBeforeSend'']),
     (''_kernel_UDP'', [''reliability'', ''congestionControl'', ''keepAlive'', ''multipath'', ''softErrorNotify''])]"
    by code_simp
  ultimately show ?thesis using assms by (simp add: yamlTest_def)
qed

end
