(* ===== verification/Spec2Isabelle.thy ===== *)
theory Spec2Isabelle
  imports Taps_Server Taps_Tcp Taps_Preconnection Taps_List Taps_Tapsd Taps_Echo_Many Taps_Tests
begin

text \<open>
  A verification development for dynamic-taps, a C library that implements the TAPS transport
  interface over protocol modules loaded at run time.

  \<^bold>\<open>The program.\<close> An application builds an \<^emph>\<open>endpoint\<close> and \<^emph>\<open>transport properties\<close>, makes a
  \<^emph>\<open>preconnection\<close> of them, and listens. The preconnection reads the protocol descriptions in
  /etc/taps, keeps those that satisfy the properties, and creates a \<^emph>\<open>listener\<close> on the library of
  the first one. The listener loads the library's symbols and calls its \<open>Listen\<close>; the protocol
  reports new \<^emph>\<open>connections\<close>, which the application accepts. A connection keeps a queue of sends
  and a queue of receives, hands them to the protocol and turns the protocol's reports into events
  of the application. Everything runs in one thread under libevent, so a run is a sequence of calls
  by the application and callbacks by the protocol.

  \<^bold>\<open>The theories\<close>, bottom up, with the sources they model:
  \<^item> Taps_Prelude: machine integers, error numbers, kinds of undefined behaviour, heap cells that
    remember that they were freed, and the contracts \<open>set_once\<close> (a field that can be set once),
    \<open>inv_system\<close> (a transition system with an inductive invariant) and \<open>simulation\<close> (one that
    refines an abstract system).
  \<^item> Taps_DList: doubly linked lists in a heap and the macros ADD_ITEM and DELETE_ITEM of
    taps_connection.c, with the queue contract \<open>dl_queue\<close>.
  \<^item> Taps_List: the LIST macros of taps_internals.h, over a heap of nodes.
  \<^item> Taps_Bits: sums of bits in the lanes of a word, for the bit count of taps_preconnection.c.
  \<^item> Taps_Endpoint (taps_endpoint.c), Taps_Properties (taps_transport_properties.c and the
    abilities of taps_internals.h and taps.h), Taps_Message (taps_message.c), Taps_Cfg (taps_cfg.c).
  \<^item> Taps_Api: the callback table, the protocol symbols and the state that listeners and
    connections share; the calls into the application form the trace.
  \<^item> Taps_Listener (taps_listener.c), Taps_Connection (taps_connection.c and the handler for new
    connections of taps_listener.c), Taps_Preconnection (taps_preconnection.c), Taps_Tcp
    (tcp/tcp.c).
  \<^item> Taps_Send, Taps_Receive, Taps_Lifecycle, Taps_Conn_Inv: what the connection does as a whole.
  \<^item> Taps_Conn_Frame, Taps_Server: what an operation on one connection leaves alone, and a listener
    with all its connections. Taps_Tcp_Frame: the same for the contexts and events of the TCP module.
  \<^item> Taps_Echo, Taps_Echo_Main: the application examples/echoapp.c, its callbacks and its \<open>main\<close>,
    on top of the library and the TCP module. Taps_Echo_Many: its event loop with any number of
    connections.
  \<^item> Taps_Tapsd: the daemon prototype old/tapsd.c and its loop over directory events.
  \<^item> Taps_Tests: the unit tests in test/, as programs over the model; they succeed on it, and the
    theorems say what their success depends on.

  \<^bold>\<open>Conventions.\<close> A struct is a record with the fields of the source, prefixed where two
  structs share a name; a pointer is an address or \<open>None\<close>. Memory that is shared or freed lives in a
  heap of cells. What \<open>malloc\<close> returns is an argument, with the contents of the block where the
  source reads it before writing it. Undefined behaviour is visible: a function returns the fault,
  or logs it in its state and stops; only a read of a freed queue item goes on, with the last
  contents, because the source then passes the value to the application. An integer function
  returns its value, the error number it sets and the new state. A static function \<open>_taps_f\<close> of
  the source is called \<open>taps_f\<close>, a function \<open>F\<close> of the TCP module \<open>tcp_F\<close>. A loop that may not end
  is a partial function whose value is \<open>None\<close> when it does not (the alias walk, the clean-up loop
  of the parser, the loops of the list macros and of the daemon); every other loop is total, and
  no fuel is used. In the library's own theories a call into the application adds an event to the trace, and an application that calls back into the
  library does so in the next step of the run. Taps_Echo gives these events their handlers: \<open>deliver\<close>
  runs the function of \<open>echoapp.c\<close> that the callback table names, and its calls of the library
  follow; only the handler of a new connection runs inside \<open>_taps_connection_received\<close>, which
  needs its answer and is therefore split at that call.

  \<^bold>\<open>Parameters.\<close> inet_pton and inet_ntop, the events of libyaml, the directory, getifaddrs, the
  symbols found by dlsym, the application's answer to a new connection, libevent and the results of
  system calls are arguments. The only assumptions about any of them are \<open>libevent_ok\<close>, the
  documented effect of adding, deleting and firing an event, where there are several connections
  \<open>libevent_local\<close> (a call about one event does not concern another), and for the TCP module at
  work \<open>tcp_env_ok\<close>: \<open>writev\<close> and \<open>event_add\<close> do not fail. A \<open>writev\<close> may write less than it
  is given; \<open>whole_writes\<close> says that none does.

  \<^bold>\<open>What is shown.\<close> Endpoints: attachments succeed once and stay readable, release is exact,
  aliasing joins chains. Properties: the five masks are a map from abilities to preferences. Messages
  and scatter lists: truncation and skipping denote taking and dropping bytes. Configuration: files
  in the documented format are read back exactly. Preconnection: the candidates are the suitable
  protocols, each description is released once, the listening address. Listener: Stopped is
  delivered exactly once and only when it may be. Connection: sends are answered in order, none is
  lost, receives are serialised and respect the minimum length. TCP: it meets the contract
  \<open>send_protocol\<close>, so that messages reach the socket once and in order. Lists: the macros implement
  a queue and their traversal ends. The bit count equals the number of set bits. Connection state:
  every operation keeps the queues of every connection well formed, and the library with all its
  connections refines the listener's life cycle. Echo application, with any number of connections in
  any interleaving: while replies are complete before the next data of the same connection are read
  it writes back on each connection what it read there, less what a short write loses; a read that
  fails or finds nothing silences its connection for good; the memory it holds is counted exactly,
  with what closed connections leave behind; it never lets the module write outside a buffer, and
  ends after SIGINT when the last peer has closed. The theorems about errors state where the
  code departs from that: what \<open>tapsConnectionFree\<close> does to its queues, the
  receive side after a completed receive, freed memory in \<open>Listen\<close> and \<open>Stop\<close>, short writes,
  memory that is not initialised, the failure path of the parser, the insertion macro that loses
  an element, connections that the application rejects, the echo application whose reply is
  overtaken by the next data, and the daemon's
  loop, which never leaves an event without a name.

  \<^bold>\<open>Not modelled.\<close> LIST_PREPEND (it lacks a semicolon and does not compile when used), TAPS_TRACE
  and other printing, code under \<open>#if 0\<close>, and \<open>tapsReadProtocols\<close>, which old/tapsd.c calls but the
  repository does not have.
\<close>

section \<open>The parts together\<close>

text \<open>
  The TCP module as the library that \<open>dlopen\<close> finds: its four symbols, for the listener that
  is being created at address \<open>l\<close>.
\<close>

definition tcp_lib :: "'e evlib \<Rightarrow> 'e tcp_env \<Rightarrow> addr \<Rightarrow> 'e tcp_state dlib" where
  "tcp_lib L env l =
     \<lparr>sym_Listen = Some (h_listen (tcp_handles L env (Some l))), sym_Stop = Some (h_stop (tcp_handles L env (Some l))),
      sym_Send = Some (h_send (tcp_handles L env (Some l))), sym_Receive = Some (h_receive (tcp_handles L env (Some l)))\<rparr>"

lemma load_tcp: "load_handles (tcp_lib L env l) = Some (tcp_handles L env (Some l))"
  by (simp add: load_handles_def tcp_lib_def tcp_handles_def)

text \<open>
  A connection arrives: libevent runs \<open>_tcp_connection_received\<close>, which calls
  \<open>_taps_connection_received\<close> with the new context and goes on with what that returns.
\<close>

definition system_accept ::
  "'e evlib \<Rightarrow> (addr \<times> tcp_conn_ctx) option \<Rightarrow> int \<Rightarrow> (ctx \<Rightarrow> addr \<Rightarrow> ctx \<times> tapsCallbacks option) \<Rightarrow> addr option \<Rightarrow>
    addr \<Rightarrow> addr \<Rightarrow> 'e tcp_state conn_world \<Rightarrow> 'e tcp_state conn_world" where
  "system_accept L block fd accept alloc la hs w =
     (case tcp_connection_received L block fd (Some la) (proto w) of
        ([CbConnectionReceived f (Some l) x], p1) \<Rightarrow>
          if f = Some fn_connection_received then
            let (res, w1) = taps_connection_received accept alloc l hs (Some x) (w\<lparr>proto := p1\<rparr>)
            in w1\<lparr>proto := tcp_connection_received_end x res (proto w1)\<rparr>
          else w\<lparr>proto := p1\<rparr>
      | (_, p1) \<Rightarrow> w\<lparr>proto := p1\<rparr>)"

text \<open>The TCP side of a new connection: its context as the call into TAPS finds it.\<close>

definition accepted_ctx ::
  "tcp_listener_ctx \<Rightarrow> int \<Rightarrow> addr option \<Rightarrow> addr option \<Rightarrow> addr option \<Rightarrow> tcp_conn_ctx \<Rightarrow> tcp_conn_ctx" where
  "accepted_ctx lc fd ce se re zc = zc\<lparr>t_fd := fd, closeEvent := ce, sendEvent := se, receiveEvent := re,
     errorEvent := None, t_closed := lc_closed lc, t_connectionError := lc_connectionError lc\<rparr>"

lemma tcp_accept_call:
  assumes "tcp_env_ok L env" "tlisteners p la = Some (Live lc)" "0 \<le> fd"
    "event_new L fd EV_CLOSED (ev p) = (ce, e1)" "event_new L fd EV_WRITE e1 = (se, e2)"
    "event_new L fd EV_READ e2 = (re, e3)"
  obtains e4 where "tcp_connection_received L (Some (x, zc)) fd (Some la) p =
      ([CbConnectionReceived (lc_connectionReceived lc) (lc_taps_ctx lc) x], set_tconn x (accepted_ctx lc fd ce se re zc) (p\<lparr>ev := e4\<rparr>))"
    "event_pending L ce e4" "\<And>b. b \<noteq> ce \<Longrightarrow> event_pending L b e4 = event_pending L b e3"
proof -
  obtain r e4 where ad: "event_add L ce e3 = (r, e4)" by fastforce
  have r: "0 \<le> r" using assms(1) ad by (metis tcp_env_ok_def fst_conv)
  have ok: "libevent_ok L" using assms(1) by (simp add: tcp_env_ok_def)
  show thesis
  proof (rule that)
    show "tcp_connection_received L (Some (x, zc)) fd (Some la) p =
      ([CbConnectionReceived (lc_connectionReceived lc) (lc_taps_ctx lc) x], set_tconn x (accepted_ctx lc fd ce se re zc) (p\<lparr>ev := e4\<rparr>))"
      using assms(2-6) ad r by (simp add: tcp_connection_received_def accepted_ctx_def Let_def)
    show "event_pending L ce e4" using libevent_add(1) [OF ok ad] r by simp
    show "event_pending L b e4 = event_pending L b e3" if "b \<noteq> ce" for b
      using libevent_add(2) [OF ok ad, of b] that by simp
  qed
qed




definition tcp_preconnection :: tapsPreconnection where
  "tcp_preconnection = fresh_block\<lparr>numLocal := 1, pc_local := [40], pc_protocol := [slot_of kernel_tcp], numProtocols := 1\<rparr>"



definition demo_accept :: "addr option set tcp_state conn_world" where
  "demo_accept = system_accept set_events (Some (51, zero_conn_ctx)) 6 (\<lambda>_ _. (None, Some all_callbacks)) (Some 200) 9 70 tcp_world"


text \<open>
  C37. A connection that the application rejects is only half removed. The listener gives its
  reference back and the TCP module closes the socket and frees its context, but the close event
  of that context stays registered, so the next time libevent runs it \<open>_tcp_closed\<close> reads freed
  memory; and the TAPS connection stays allocated, without listener and protocol, in the hands of
  nobody.
\<close>

theorem rejected_connection_dangles:
  assumes "tcp_env_ok L env" "tlisteners (proto w) la = Some (Live lc)" "lc_taps_ctx lc = Some l"
    "lc_connectionReceived lc = Some fn_connection_received" "0 \<le> fd"
    "\<not> readyToStop (lst w)" "l_connectionReceived (lst w) = Some f"
    "accept (l_app_ctx (lst w)) c = (app, ans)"
    "\<And>cb. ans = Some cb \<Longrightarrow> cb_closed cb = None \<or> cb_connectionError cb = None"
    "event_new L fd EV_CLOSED (ev (proto w)) = (ce, e1)" "event_new L fd EV_WRITE e1 = (se, e2)"
    "event_new L fd EV_READ e2 = (re, e3)"
    and "w' = system_accept L (Some (x, zc)) fd accept (Some c) la hs w"
  shows "lst w' = lst w \<and> closed_fds (proto w') = closed_fds (proto w) @ [fd] \<and>
    (\<exists>cc. tconns (proto w') x = Some (Freed cc) \<and> closeEvent cc = ce \<and> event_pending L ce (ev (proto w'))) \<and>
    t_faults (proto w') = t_faults (proto w) \<and>
    t_faults (snd (tcp_closed L (Some x) (proto w'))) = t_faults (proto w) @ [UseAfterFree] \<and>
    (\<exists>cn. cheap w' c = Some (Live cn) \<and> c_listener cn = None \<and> c_proto_ctx cn = None)"
proof -
  obtain e4 where tr: "tcp_connection_received L (Some (x, zc)) fd (Some la) (proto w) =
      ([CbConnectionReceived (Some fn_connection_received) (Some l) x],
       set_tconn x (accepted_ctx lc fd ce se re zc) ((proto w)\<lparr>ev := e4\<rparr>))"
    and pend: "event_pending L ce e4"
    using tcp_accept_call [OF assms(1,2,5,10-12), of x zc] assms(3,4) by metis
  let ?p = "set_tconn x (accepted_ctx lc fd ce se re zc) ((proto w)\<lparr>ev := e4\<rparr>)"
  let ?n = "new_conn (Some x) hs l"
  let ?w3 = "app_call (Some f) (ConnectionReceived (l_app_ctx (lst w)) c)
      (listener_ref (set_conn c ?n (w\<lparr>proto := ?p\<rparr>)))"
  have "taps_connection_received accept (Some c) l hs (Some x) (w\<lparr>proto := ?p\<rparr>) = (None, taps_closed c ?w3)"
    using connection_received_unfold [of "w\<lparr>proto := ?p\<rparr>" f accept c app ans ?w3 "Some x" hs l] assms(7-9)
    by (auto split: option.splits)
  moreover have "taps_closed c ?w3 = set_conn c (?n\<lparr>c_listener := None, c_proto_ctx := None\<rparr>) (?w3\<lparr>lst := lst w\<rparr>)"
    using closed_with_listener [of ?w3 c ?n] deref_not_ready [of ?w3] assms(6) by (simp add: new_conn_def Let_def)
  ultimately have w': "w' = (set_conn c (?n\<lparr>c_listener := None, c_proto_ctx := None\<rparr>) (?w3\<lparr>lst := lst w\<rparr>))
      \<lparr>proto := tcp_connection_received_end x None ?p\<rparr>"
    using tr assms(13) by (simp add: system_accept_def listener_ref_def)
  show ?thesis using pend
    by (simp add: w' tcp_connection_received_end_def accepted_ctx_def tcp_closed_def deref_opt_def t_fault_def set_tconn_def)
qed

definition demo_reject :: "addr option set tcp_state conn_world" where
  "demo_reject = system_accept set_events (Some (51, zero_conn_ctx)) 6 (\<lambda>_ _. (None, None)) (Some 200) 9 70 tcp_world"

theorem rejected_connection_dangles_witness:
  "lst demo_reject = lst tcp_world \<and> t_faults (snd (tcp_closed set_events (Some 51) (proto demo_reject))) = [UseAfterFree]"
proof -
  have n: "event_new set_events 6 EV_CLOSED (ev (proto tcp_world)) = (Some 24, ev demo_tcp)"
    "event_new set_events 6 EV_WRITE (ev demo_tcp) = (Some 25, ev demo_tcp)"
    "event_new set_events 6 EV_READ (ev demo_tcp) = (Some 26, ev demo_tcp)"
    by (simp_all add: set_events_def tcp_world_def)
  show ?thesis
    using rejected_connection_dangles [OF full_env_ok _ _ _ _ _ _ _ _ n demo_reject_def, where lc = demo_lctx and ans = None]
    by (simp add: tcp_world_def demo_world_def zero_listener_def demo_lctx_def demo_tcp_def)
qed

end
